(* ===== verification/Prelude.thy ===== *)
theory Prelude
  imports Complex_Main "HOL-Library.Word" "HOL-Library.Finite_Map"
begin

text \<open>
  Types, collections and generic lemmas shared by the whole development.

  \<^item> Go's \<^verbatim>\<open>[]byte\<close> is a list of 8-bit words and Go's \<^verbatim>\<open>string\<close> is a \<^typ>\<open>string\<close>, whose
    characters are bytes, so \<^const>\<open>length\<close> counts what Go's \<^verbatim>\<open>len\<close> counts.
  \<^item> A Go map is a finite map (\<open>fmap\<close>): \<open>fmlookup\<close>, \<open>fmupd\<close>, \<open>fmdrop\<close> and
    \<open>fmfilter\<close> are the lookup, the assignment, \<^verbatim>\<open>delete\<close> and the loop that deletes the
    entries failing a test; \<open>map_len\<close> is \<^verbatim>\<open>len\<close>. Go enumerates a map in an order the
    runtime picks anew for every loop, so a \<^verbatim>\<open>range\<close> loop is modelled over a list of keys
    that satisfies \<open>range_order\<close>: any enumeration of the domain.
  \<^item> Instants (\<^verbatim>\<open>time.Time\<close>) and durations (\<^verbatim>\<open>time.Duration\<close>) are integers counting nanoseconds;
    every operation that calls \<^verbatim>\<open>time.Now\<close> takes the instant it reads as an argument.
  \<^item> Errors are values of a sum type, \<^const>\<open>Inl\<close> the error.
\<close>

type_synonym byte = "8 word"
type_synonym bytes = "byte list"
type_synonym u16 = "16 word"
type_synonym u32 = "32 word"
type_synonym u64 = "64 word"
type_synonym node_id = string
type_synonym instant = int
type_synonym duration = int

named_theorems model_defs \<open>unfolding equations of the operations\<close>
named_theorems frame_simps \<open>fields an operation leaves alone\<close>
named_theorems inv_intros \<open>operations preserve the invariants\<close>

section \<open>Durations\<close>

definition Millisecond :: duration where "Millisecond = 1000000"
definition Second :: duration where "Second = 1000000000"
definition Minute :: duration where "Minute = 60 * Second"

lemmas duration_defs = Millisecond_def Second_def Minute_def

section \<open>Go maps\<close>

abbreviation map_len :: "('k, 'v) fmap \<Rightarrow> nat" where
  "map_len m \<equiv> fcard (fmdom m)"

text \<open>The deletion loop \<^verbatim>\<open>for k, v := range m { if p(v) { delete(m, k) } }\<close>.\<close>

definition map_sweep :: "('v \<Rightarrow> bool) \<Rightarrow> ('k, 'v) fmap \<Rightarrow> ('k, 'v) fmap" where
  "map_sweep p m = fmfilter (\<lambda>k. case fmlookup m k of Some v \<Rightarrow> \<not> p v | None \<Rightarrow> True) m"

text \<open>A possible order of the keys in a \<^verbatim>\<open>range\<close> loop over the map.\<close>

definition range_order :: "'k list \<Rightarrow> ('k, 'v) fmap \<Rightarrow> bool" where
  "range_order ks m \<longleftrightarrow> distinct ks \<and> fset_of_list ks = fmdom m"

text \<open>The values in that order.\<close>

definition map_range :: "'k list \<Rightarrow> ('k, 'v) fmap \<Rightarrow> 'v list" where
  "map_range ks m = List.map_filter (fmlookup m) ks"

lemma fmlookup_map_sweep [simp]:
  "fmlookup (map_sweep p m) k =
     (case fmlookup m k of Some v \<Rightarrow> if p v then None else Some v | None \<Rightarrow> None)"
  by (auto simp: map_sweep_def split: option.splits)

lemma map_sweep_empty [simp]: "map_sweep p fmempty = fmempty"
  by (rule fmap_ext) simp

lemma map_len_upd [simp]:
  "map_len (fmupd k v m) = (if k |\<in>| fmdom m then map_len m else Suc (map_len m))"
  by (simp add: fcard_finsert_if)

lemma map_len_drop_le: "map_len (fmdrop k m) \<le> map_len m"
  by (auto intro: fcard_mono)

lemma range_order_length:
  assumes "range_order ks m"
  shows "length ks = map_len m"
proof -
  have "distinct ks" "fset (fset_of_list ks) = fset (fmdom m)"
    using assms by (simp_all add: range_order_def)
  then show ?thesis
    by (simp add: fcard.rep_eq fset_of_list.rep_eq distinct_card [symmetric])
qed

lemma range_order_set:
  "range_order ks m \<Longrightarrow> k \<in> set ks \<longleftrightarrow> fmlookup m k \<noteq> None"
  by (auto simp: range_order_def fset_of_list_elem [symmetric] fmlookup_dom_iff)

lemma range_order_ex: "\<exists>ks. range_order ks m"
proof -
  obtain ks where "set ks = fset (fmdom m)" "distinct ks"
    using finite_distinct_list [OF finite_fset [of "fmdom m"]] by auto
  then have "fset (fset_of_list ks) = fset (fmdom m)"
    by (simp add: fset_of_list.rep_eq)
  then have "range_order ks m"
    using \<open>distinct ks\<close> by (simp only: range_order_def fset_inject simp_thms)
  then show ?thesis ..
qed

lemma map_range_simps [simp]:
  "map_range [] m = []"
  "map_range (k # ks) m =
     (case fmlookup m k of None \<Rightarrow> map_range ks m | Some v \<Rightarrow> v # map_range ks m)"
  by (auto simp: map_range_def List.map_filter_def split: option.splits)

lemma set_map_range:
  "set (map_range ks m) = {v. \<exists>k \<in> set ks. fmlookup m k = Some v}"
  by (induction ks) (auto split: option.splits)

lemma set_map_range_order:
  "range_order ks m \<Longrightarrow> set (map_range ks m) = {v. \<exists>k. fmlookup m k = Some v}"
  by (auto simp: set_map_range range_order_set)

lemma map_range_map:
  assumes "\<And>k. k \<in> set ks \<Longrightarrow> fmlookup m k \<noteq> None"
  shows "map_range ks m = map (\<lambda>k. the (fmlookup m k)) ks"
  using assms by (induction ks) (auto split: option.splits)

lemma length_map_range:
  assumes "range_order ks m"
  shows "length (map_range ks m) = map_len m"
proof -
  have "map_range ks m = map (\<lambda>k. the (fmlookup m k)) ks"
    using assms by (intro map_range_map) (simp add: range_order_set)
  then show ?thesis using range_order_length [OF assms] by simp
qed

section \<open>Options, sums and lists\<close>

lemma map_filter_append [simp]:
  "List.map_filter f (xs @ ys) = List.map_filter f xs @ List.map_filter f ys"
  by (simp add: List.map_filter_def)

lemma set_take_subset_elem: "x \<in> set (take n xs) \<Longrightarrow> x \<in> set xs"
  by (meson in_set_takeD)

lemma append_eq_by_length:
  "length a = length c \<Longrightarrow> a @ b = c @ d \<longleftrightarrow> a = c \<and> b = d"
  by simp

section \<open>Strings as bytes\<close>

text \<open>Go's conversion \<^verbatim>\<open>[]byte(s)\<close>, and \<^verbatim>\<open>WriteString\<close> on a byte buffer.\<close>

definition str_bytes :: "string \<Rightarrow> bytes" where
  "str_bytes s = map (\<lambda>c. of_nat (of_char c)) s"

lemma length_str_bytes [simp]: "length (str_bytes s) = length s"
  by (simp add: str_bytes_def)

lemma str_bytes_simps [simp]:
  "str_bytes [] = []" "str_bytes (s @ t) = str_bytes s @ str_bytes t"
  by (simp_all add: str_bytes_def)

lemma char_byte_inj:
  "(of_nat (of_char c) :: byte) = of_nat (of_char d) \<longleftrightarrow> c = d"
proof -
  have small: "of_char c < (256::nat)" for c by simp
  have "c = d" if "(of_nat (of_char c) :: byte) = of_nat (of_char d)"
  proof -
    from that have "unat (of_nat (of_char c) :: byte) = unat (of_nat (of_char d) :: byte)"
      by simp
    then have "(of_char c :: nat) = of_char d"
      using small [of c] small [of d] by (simp add: unat_of_nat)
    then show ?thesis by simp
  qed
  then show ?thesis by auto
qed

lemma str_bytes_eq [simp]: "str_bytes s = str_bytes t \<longleftrightarrow> s = t"
proof (induction s arbitrary: t)
  case Nil
  then show ?case by (cases t) (simp_all add: str_bytes_def)
next
  case (Cons c s)
  then show ?case by (cases t) (simp_all add: str_bytes_def char_byte_inj)
qed

end
