(* ===== verification/GoStrings.thy ===== *)
theory GoStrings
  imports Prelude "HOL-Library.Sublist"
begin

text \<open>
  The string functions of Go's standard library that the configuration, the logger and the terminal
  use: \<^verbatim>\<open>strings.TrimSpace\<close>, \<^verbatim>\<open>strings.Fields\<close>, \<^verbatim>\<open>strings.ToLower\<close>, \<^verbatim>\<open>strings.Join\<close>, \<^verbatim>\<open>strconv\<close>'s decimal
  numbers, \<^verbatim>\<open>filepath.Join\<close> and \<^verbatim>\<open>net.ParseIP\<close>.

  Strings are byte strings, so a white-space character beyond ASCII is its UTF-8 encoding. The
  encodings begin with a byte that is not a continuation byte, so looking for one of them at a byte
  position gives what Go's decoding of one rune after the other gives.
\<close>

section \<open>White space\<close>

text \<open>The UTF-8 encodings of the runes for which \<^verbatim>\<open>unicode.IsSpace\<close> holds.\<close>

definition space_encs :: "string list" where
  "space_encs = [[CHR 0x09], [CHR 0x0A], [CHR 0x0B], [CHR 0x0C], [CHR 0x0D], [CHR 0x20],
     [CHR 0xC2, CHR 0x85], [CHR 0xC2, CHR 0xA0], [CHR 0xE1, CHR 0x9A, CHR 0x80],
     [CHR 0xE2, CHR 0x80, CHR 0x80], [CHR 0xE2, CHR 0x80, CHR 0x81], [CHR 0xE2, CHR 0x80, CHR 0x82],
     [CHR 0xE2, CHR 0x80, CHR 0x83], [CHR 0xE2, CHR 0x80, CHR 0x84], [CHR 0xE2, CHR 0x80, CHR 0x85],
     [CHR 0xE2, CHR 0x80, CHR 0x86], [CHR 0xE2, CHR 0x80, CHR 0x87], [CHR 0xE2, CHR 0x80, CHR 0x88],
     [CHR 0xE2, CHR 0x80, CHR 0x89], [CHR 0xE2, CHR 0x80, CHR 0x8A], [CHR 0xE2, CHR 0x80, CHR 0xA8],
     [CHR 0xE2, CHR 0x80, CHR 0xA9], [CHR 0xE2, CHR 0x80, CHR 0xAF], [CHR 0xE2, CHR 0x81, CHR 0x9F],
     [CHR 0xE3, CHR 0x80, CHR 0x80]]"

text \<open>The encoding a string begins with, among the given ones.\<close>

definition leading :: "string list \<Rightarrow> string \<Rightarrow> string option" where
  "leading encs s = find (\<lambda>e. e \<noteq> [] \<and> prefix e s) encs"

lemma leading_shorter: "leading encs s = Some e \<Longrightarrow> length (drop (length e) s) < length s"
  by (auto simp: leading_def find_Some_iff prefix_def)

function strip_leading :: "string list \<Rightarrow> string \<Rightarrow> string" where
  "strip_leading encs s =
     (case leading encs s of None \<Rightarrow> s | Some e \<Rightarrow> strip_leading encs (drop (length e) s))"
  by pat_completeness auto
termination
  by (relation "measure (\<lambda>(encs, s). length s)") (auto dest: leading_shorter)

declare strip_leading.simps [simp del]

definition TrimSpace :: "string \<Rightarrow> string" where
  "TrimSpace s = rev (strip_leading (map rev space_encs) (rev (strip_leading space_encs s)))"

text \<open>\<^verbatim>\<open>strings.Fields\<close>: \<open>cur\<close> is the field being read.\<close>

function fields_from :: "string \<Rightarrow> string \<Rightarrow> string list" where
  "fields_from cur s =
     (case s of
        [] \<Rightarrow> (if cur = [] then [] else [cur])
      | c # cs \<Rightarrow>
          (case leading space_encs s of
             Some e \<Rightarrow> (if cur = [] then [] else [cur]) @ fields_from [] (drop (length e) s)
           | None \<Rightarrow> fields_from (cur @ [c]) cs))"
  by pat_completeness auto
termination
  by (relation "measure (\<lambda>(cur, s). length s)") (auto dest: leading_shorter)

declare fields_from.simps [simp del]

definition Fields :: "string \<Rightarrow> string list" where
  "Fields s = fields_from [] s"

section \<open>Case, joining and numbers\<close>

text \<open>
  \<^verbatim>\<open>strings.ToLower\<close> as far as comparisons with ASCII words can tell: the ASCII capitals and the two
  other runes whose lower case is an ASCII letter, U+0130 and U+212A. Every other rune maps to a rune
  beyond ASCII and is left as it is.
\<close>

definition lower_char :: "char \<Rightarrow> char" where
  "lower_char c = (if 65 \<le> (of_char c :: nat) \<and> of_char c \<le> (90 :: nat) then char_of (of_char c + (32 :: nat)) else c)"

fun ToLower :: "string \<Rightarrow> string" where
  "ToLower [] = []"
| "ToLower (a # s) =
     (case s of
        b # t \<Rightarrow>
          (if a = CHR 0xC4 \<and> b = CHR 0xB0 then CHR ''i'' # ToLower t
           else if a = CHR 0xE2 \<and> b = CHR 0x84 \<and> t \<noteq> [] \<and> hd t = CHR 0xAA then CHR ''k'' # ToLower (tl t)
           else lower_char a # ToLower s)
      | [] \<Rightarrow> [lower_char a])"

fun Join :: "string list \<Rightarrow> string \<Rightarrow> string" where
  "Join [] sep = []"
| "Join [s] sep = s"
| "Join (s # t # ss) sep = s @ sep @ Join (t # ss) sep"

fun itoa :: "nat \<Rightarrow> string" where
  "itoa n = (if n < 10 then [char_of (48 + n)] else itoa (n div 10) @ [char_of (48 + n mod 10)])"

declare itoa.simps [simp del]

definition HasPrefix :: "string \<Rightarrow> string \<Rightarrow> bool" where
  "HasPrefix s p = prefix p s"

section \<open>Paths\<close>

text \<open>\<^verbatim>\<open>filepath.Clean\<close> on Unix: the components, with \<^verbatim>\<open>.\<close> dropped and \<^verbatim>\<open>..\<close> removing what it can.\<close>

fun split_path :: "string \<Rightarrow> string \<Rightarrow> string list" where
  "split_path cur [] = [cur]"
| "split_path cur (c # cs) = (if c = CHR ''/'' then cur # split_path [] cs else split_path (cur @ [c]) cs)"

fun clean_parts :: "bool \<Rightarrow> string list \<Rightarrow> string list \<Rightarrow> string list" where
  "clean_parts rooted out [] = out"
| "clean_parts rooted out (p # ps) =
     (if p = [] \<or> p = ''.'' then clean_parts rooted out ps
      else if p = ''..'' then
        (if out \<noteq> [] \<and> last out \<noteq> ''..'' then clean_parts rooted (butlast out) ps
         else if rooted then clean_parts rooted out ps
         else clean_parts rooted (out @ [p]) ps)
      else clean_parts rooted (out @ [p]) ps)"

definition path_Clean :: "string \<Rightarrow> string" where
  "path_Clean p =
     (let rooted = (p \<noteq> [] \<and> hd p = CHR ''/'');
          s = Join (clean_parts rooted [] (split_path [] p)) ''/''
      in if rooted then CHR ''/'' # s else if s = [] then ''.'' else s)"

definition path_Join :: "string list \<Rightarrow> string" where
  "path_Join elems =
     (case filter (\<lambda>e. e \<noteq> []) elems of [] \<Rightarrow> [] | es \<Rightarrow> path_Clean (Join es ''/''))"

section \<open>net.ParseIP\<close>

definition is_digit :: "char \<Rightarrow> bool" where
  "is_digit c \<longleftrightarrow> 48 \<le> (of_char c :: nat) \<and> of_char c \<le> (57 :: nat)"

text \<open>\<^verbatim>\<open>parseIPv4Fields\<close>: \<open>prev\<close> is the character before, \<open>fs\<close> are the fields read so far.\<close>

fun ipv4_fields :: "string \<Rightarrow> char option \<Rightarrow> nat \<Rightarrow> nat \<Rightarrow> nat list \<Rightarrow> nat list option" where
  "ipv4_fields [] prev val digLen fs = (if length fs < 3 then None else Some (fs @ [val]))"
| "ipv4_fields (c # cs) prev val digLen fs =
     (if is_digit c then
        (if digLen = 1 \<and> val = 0 then None
         else
           (let v = val * 10 + (of_char c - 48)
            in if v > 255 then None else ipv4_fields cs (Some c) v (Suc digLen) fs))
      else if c = CHR ''.'' then
        (if prev = None \<or> cs = [] \<or> prev = Some (CHR ''.'') then None
         else if length fs = 3 then None
         else ipv4_fields cs (Some c) 0 0 (fs @ [val]))
      else None)"

definition hex_val :: "char \<Rightarrow> nat option" where
  "hex_val c =
     (let n = of_char c in
      if 48 \<le> n \<and> n \<le> 57 then Some (n - 48)
      else if 97 \<le> n \<and> n \<le> 102 then Some (n - 97 + 10)
      else if 65 \<le> n \<and> n \<le> 70 then Some (n - 65 + 10)
      else None)"

definition hex_number :: "string \<Rightarrow> nat" where
  "hex_number ds = fold (\<lambda>c acc. acc * 16 + the (hex_val c)) ds 0"

text \<open>
  One group of \<^verbatim>\<open>parseIPv6\<close>, given the rest of the string, the bytes so far and the position of the
  ellipsis: a refusal, the end of the string, or what the loop goes on with.
\<close>

datatype ipv6_next =
    IPv6_fail
  | IPv6_end bytes "nat option"
  | IPv6_more string bytes "nat option"

definition ipv6_group :: "string \<Rightarrow> bytes \<Rightarrow> nat option \<Rightarrow> ipv6_next" where
  "ipv6_group s ip ellipsis =
     (let ds = takeWhile (\<lambda>c. hex_val c \<noteq> None) s; rest = drop (length ds) s in
      if length ds > 4 \<or> ds = [] then IPv6_fail
      else if rest \<noteq> [] \<and> hd rest = CHR ''.'' then
        (if ellipsis = None \<and> length ip \<noteq> 12 then IPv6_fail
         else if length ip + 4 > 16 then IPv6_fail
         else
           (case ipv4_fields s None 0 0 [] of
              None \<Rightarrow> IPv6_fail
            | Some fs \<Rightarrow> IPv6_end (ip @ map of_nat fs) ellipsis))
      else
        (let acc = hex_number ds; ip1 = ip @ [of_nat (acc div 256), of_nat (acc mod 256)] in
         if rest = [] then IPv6_end ip1 ellipsis
         else if hd rest \<noteq> CHR '':'' then IPv6_fail
         else if length rest = 1 then IPv6_fail
         else if hd (tl rest) = CHR '':'' then
           (if ellipsis \<noteq> None then IPv6_fail
            else if tl (tl rest) = [] then IPv6_end ip1 (Some (length ip1))
            else IPv6_more (tl (tl rest)) ip1 (Some (length ip1)))
         else IPv6_more (tl rest) ip1 ellipsis))"

lemma ipv6_group_more:
  "ipv6_group s ip el = IPv6_more s' ip' el' \<Longrightarrow>
     length ip' = length ip + 2 \<and> (el' = el \<or> el' = Some (length ip'))"
  by (auto simp: ipv6_group_def Let_def split: if_splits option.splits)

function ipv6_loop :: "string \<Rightarrow> bytes \<Rightarrow> nat option \<Rightarrow> (string \<times> bytes \<times> nat option) option" where
  "ipv6_loop s ip ellipsis =
     (if length ip \<ge> 16 then Some (s, ip, ellipsis)
      else
        (case ipv6_group s ip ellipsis of
           IPv6_fail \<Rightarrow> None
         | IPv6_end ip1 el1 \<Rightarrow> Some ([], ip1, el1)
         | IPv6_more s1 ip1 el1 \<Rightarrow> ipv6_loop s1 ip1 el1))"
  by pat_completeness auto
termination
  by (relation "measure (\<lambda>(s, ip, ellipsis). 16 - length ip)") (auto dest: ipv6_group_more)

declare ipv6_loop.simps [simp del]

definition parseIPv6 :: "string \<Rightarrow> bytes option" where
  "parseIPv6 s =
     (let lead = prefix ''::'' s; s1 = (if lead then drop 2 s else s) in
      if lead \<and> s1 = [] then Some (replicate 16 0)
      else
        (case ipv6_loop s1 [] (if lead then Some 0 else None) of
           None \<Rightarrow> None
         | Some (rest, ip, ellipsis) \<Rightarrow>
             if rest \<noteq> [] then None
             else if length ip < 16 then
               (case ellipsis of
                  None \<Rightarrow> None
                | Some k \<Rightarrow> Some (take k ip @ replicate (16 - length ip) 0 @ drop k ip))
             else if ellipsis \<noteq> None then None else Some ip))"

text \<open>
  \<^verbatim>\<open>net.ParseIP\<close>, whose result has sixteen bytes; it refuses an address with a zone, so every string
  in which a \<^verbatim>\<open>%\<close> follows a colon is refused.
\<close>

definition v4_prefix :: bytes where
  "v4_prefix = replicate 10 0 @ [0xFF, 0xFF]"

definition ParseIP :: "string \<Rightarrow> bytes option" where
  "ParseIP s =
     (case find (\<lambda>c. c = CHR ''.'' \<or> c = CHR '':'' \<or> c = CHR ''%'') s of
        None \<Rightarrow> None
      | Some c \<Rightarrow>
          if c = CHR ''.'' then
            map_option (\<lambda>fs. v4_prefix @ map of_nat fs) (ipv4_fields s None 0 0 [])
          else if c = CHR '':'' then (if CHR ''%'' \<in> set s then None else parseIPv6 s)
          else None)"

definition IsUnspecified :: "bytes \<Rightarrow> bool" where
  "IsUnspecified ip \<longleftrightarrow> ip = v4_prefix @ [0, 0, 0, 0] \<or> ip = replicate 16 0"

section \<open>Lemmas\<close>

lemma ParseIP_wildcards:
  "ParseIP ''0.0.0.0'' = Some (v4_prefix @ [0, 0, 0, 0])" "ParseIP ''::'' = Some (replicate 16 0)"
  by code_simp+

lemma ipv4_fields_length:
  "ipv4_fields s prev val n fs = Some gs \<Longrightarrow> length fs \<le> 3 \<Longrightarrow> length gs = 4"
  by (induction s prev val n fs rule: ipv4_fields.induct) (auto simp: Let_def split: if_splits)

lemma ipv6_group_end:
  assumes "ipv6_group s ip el = IPv6_end ip' el'" and "length ip + 2 \<le> 16"
  shows "length ip' \<le> 16 \<and> length ip \<le> length ip' \<and> (el' = el \<or> el' = Some (length ip'))"
proof -
  have "length fs = 4" if "ipv4_fields s None 0 0 [] = Some fs" for fs
    using ipv4_fields_length [OF that] by simp
  then show ?thesis using assms by (auto simp: ipv6_group_def Let_def split: if_splits option.splits)
qed

lemma ipv6_loop_length:
  assumes "ipv6_loop s ip el = Some (r, ip', el')" and "length ip \<le> 16" and "even (length ip)"
    and "\<forall>k. el = Some k \<longrightarrow> k \<le> length ip"
  shows "length ip' \<le> 16 \<and> (\<forall>k. el' = Some k \<longrightarrow> k \<le> length ip')"
  using assms
proof (induction s ip el rule: ipv6_loop.induct)
  case (1 s ip el)
  show ?case
  proof (cases "length ip \<ge> 16")
    case True
    then show ?thesis using "1.prems" by (simp add: ipv6_loop.simps [of s])
  next
    case False
    then have len: "length ip + 2 \<le> 16" using "1.prems"(3) by presburger
    show ?thesis
    proof (cases "ipv6_group s ip el")
      case IPv6_fail
      then show ?thesis using "1.prems"(1) False by (simp add: ipv6_loop.simps [of s])
    next
      case (IPv6_end ip1 el1)
      then have "ip1 = ip'" "el1 = el'" using "1.prems"(1) False by (simp_all add: ipv6_loop.simps [of s])
      with ipv6_group_end [OF IPv6_end len] "1.prems"(4) show ?thesis by fastforce
    next
      case (IPv6_more s1 ip1 el1)
      have l: "ipv6_loop s1 ip1 el1 = Some (r, ip', el')"
        using "1.prems"(1) False IPv6_more by (simp add: ipv6_loop.simps [of s])
      from ipv6_group_more [OF IPv6_more] "1.prems"(3,4) len
      have "length ip1 \<le> 16" "even (length ip1)" "\<forall>k. el1 = Some k \<longrightarrow> k \<le> length ip1" by fastforce+
      with "1.IH" [OF False IPv6_more] l show ?thesis by blast
    qed
  qed
qed

lemma ParseIP_length: "ParseIP s = Some ip \<Longrightarrow> length ip = 16"
proof -
  assume a: "ParseIP s = Some ip"
  have v4: "length fs = 4" if "ipv4_fields s None 0 0 [] = Some fs" for fs
    using ipv4_fields_length [OF that] by simp
  have v6: "length r = 16" if p: "parseIPv6 s = Some r" for r
  proof -
    have "length ip1 \<le> 16 \<and> (\<forall>k. e' = Some k \<longrightarrow> k \<le> length ip1)" if "ipv6_loop s1 [] (if lead then Some 0 else None) = Some (rest, ip1, e')"
      for s1 lead rest ip1 e'
      using ipv6_loop_length [OF that] by simp
    then show ?thesis using p
      by (fastforce simp: parseIPv6_def Let_def split: if_splits option.splits prod.splits)
  qed
  show ?thesis using a v4 v6 by (auto simp: ParseIP_def v4_prefix_def split: option.splits if_splits)
qed

lemma fields_from_started:
  "cur \<noteq> [] \<Longrightarrow> \<exists>w ws. fields_from cur s = (cur @ w) # ws"
proof (induction cur s rule: fields_from.induct)
  case (1 cur s)
  show ?case
  proof (cases s)
    case Nil
    then show ?thesis using "1.prems" by (simp add: fields_from.simps [of cur "[]"])
  next
    case (Cons c cs)
    show ?thesis
    proof (cases "leading space_encs s")
      case None
      have "\<exists>w ws. fields_from (cur @ [c]) cs = ((cur @ [c]) @ w) # ws" using "1.IH" Cons None by simp
      then show ?thesis using Cons None by (auto simp: fields_from.simps [of cur "c # cs"])
    next
      case (Some e)
      then show ?thesis using Cons "1.prems" by (simp add: fields_from.simps [of cur "c # cs"])
    qed
  qed
qed

lemma Fields_head:
  assumes "leading space_encs (c # cs) = None"
  shows "\<exists>w ws. Fields (c # cs) = (c # w) # ws"
  using assms fields_from_started [of "[c]" cs] by (simp add: Fields_def fields_from.simps [of "[]" "c # cs"])

lemma leading_slash [simp]: "leading space_encs (CHR ''/'' # cs) = None"
  by (simp add: leading_def space_encs_def)

lemma strip_leading_done: "leading encs (strip_leading encs s) = None"
proof (induction encs s rule: strip_leading.induct)
  case (1 encs s)
  then show ?case
    by (cases "leading encs s") (simp_all add: strip_leading.simps [of encs s])
qed

text \<open>A trimmed string does not end with white space.\<close>

lemma TrimSpace_end: "leading (map rev space_encs) (rev (TrimSpace s)) = None"
  by (simp add: TrimSpace_def strip_leading_done)

section \<open>File names\<close>

text \<open>A plain file name stays the last component of a joined path.\<close>

lemma split_path_name:
  "CHR ''/'' \<notin> set n \<Longrightarrow> split_path cur n = [cur @ n]"
  by (induction n arbitrary: cur) auto

lemma split_path_last:
  "CHR ''/'' \<notin> set n \<Longrightarrow> suffix [n] (split_path cur (s @ CHR ''/'' # n))"
  by (induction s arbitrary: cur) (auto simp: split_path_name intro: suffix_ConsI)

lemma clean_parts_last:
  "n \<noteq> [] \<Longrightarrow> n \<noteq> ''.'' \<Longrightarrow> n \<noteq> ''..'' \<Longrightarrow> clean_parts rooted out (ps @ [n]) = clean_parts rooted out ps @ [n]"
  by (induction rooted out ps rule: clean_parts.induct) auto

lemma Join_last: "suffix n (Join (xs @ [n]) sep)"
proof (induction xs sep rule: Join.induct)
  case (3 s t ss sep)
  then have "suffix n (Join ((t # ss) @ [n]) sep)" .
  then show ?case by (simp add: suffix_appendI)
qed (auto simp: suffix_def)

lemma path_Join_last:
  assumes "CHR ''/'' \<notin> set n" and "n \<noteq> []" and "n \<noteq> ''.''" and "n \<noteq> ''..''"
  shows "suffix n (path_Join [d, n])"
proof -
  let ?p = "if d = [] then n else d @ CHR ''/'' # n"
  obtain ps where ps: "split_path [] ?p = ps @ [n]"
    using split_path_last [OF assms(1), of "[]" d] split_path_name [OF assms(1), of "[]"]
    by (cases "d = []") (auto simp: suffix_def)
  have J: "suffix n (Join (clean_parts b [] (ps @ [n])) ''/'')" for b
    using Join_last [of n "clean_parts b [] ps" "''/''"] clean_parts_last [OF assms(2-4), of b "[]" ps] by simp
  moreover have "Join (clean_parts b [] (ps @ [n])) ''/'' \<noteq> []" for b
    using J [of b] assms(2) by (auto simp: suffix_def)
  ultimately have "suffix n (path_Clean ?p)"
    unfolding path_Clean_def ps Let_def by (auto intro: suffix_ConsI)
  then show ?thesis using assms(2) by (simp add: path_Join_def split: if_splits)
qed

end
