(* ===== verification/Logging.thy ===== *)
theory Logging
  imports GoStrings
begin

text \<open>
  Logging (\<^verbatim>\<open>internal/logging/logging.go\<close> and \<^verbatim>\<open>internal/logging/capture.go\<close>): the level \<^verbatim>\<open>Init\<close> sets and the
  handler it installs, the loggers of the components, which delegate to the default handler of the
  moment, and the capture that tests put in its place.

  The state is the level variable, the default handler, the captures made so far (a capture is an index
  into their list) and what the handlers of the \<^verbatim>\<open>slog\<close> library were given to write; their formatting is
  not modelled. Attributes are pairs of texts.
\<close>

section \<open>Data\<close>

datatype Level = LevelDebug | LevelInfo | LevelWarn | LevelError

type_synonym attrs = "(string \<times> string) list"

datatype log_handler =
    DefaultHandler
  | TextHandler
  | JSONHandler
  | CaptureHandler nat attrs string

record log_record =
  lr_Level :: Level
  lr_Message :: string
  lr_Attrs :: attrs

record Capture =
  cap_records :: "log_record list"
  cap_prev :: log_handler
  cap_prevLevel :: Level

record log_state =
  log_level :: Level
  log_default :: log_handler
  log_captures :: "Capture list"
  log_out :: "(log_handler \<times> log_record) list"

section \<open>Levels and the default handler\<close>

definition parseLevel :: "string \<Rightarrow> log_state \<Rightarrow> log_state" where
  "parseLevel s st =
     (let l = ToLower (TrimSpace s) in
      st\<lparr>log_level :=
        if l = ''debug'' then LevelDebug
        else if l = ''warn'' \<or> l = ''warning'' then LevelWarn
        else if l = ''error'' then LevelError
        else LevelInfo\<rparr>)"

text \<open>
  \<^verbatim>\<open>strings.EqualFold(format, "json")\<close>: besides the ASCII letters only U+017F folds to one of the four,
  the letter \<^verbatim>\<open>s\<close>.
\<close>

definition fold_json :: "string \<Rightarrow> bool" where
  "fold_json f \<longleftrightarrow> map lower_char f = ''json'' \<or>
     (length f = 5 \<and> map lower_char (take 1 f) = ''j'' \<and> take 2 (drop 1 f) = [CHR 0xC5, CHR 0xBF] \<and>
      map lower_char (drop 3 f) = ''on'')"

definition log_Init :: "string \<Rightarrow> string \<Rightarrow> log_state \<Rightarrow> log_state" where
  "log_Init levelStr format st =
     (parseLevel levelStr st)\<lparr>log_default := if fold_json format then JSONHandler else TextHandler\<rparr>"

definition SetLevel :: "Level \<Rightarrow> log_state \<Rightarrow> log_state" where
  "SetLevel l st = st\<lparr>log_level := l\<rparr>"

section \<open>Handlers and loggers\<close>

text \<open>
  \<^verbatim>\<open>Enabled\<close> and \<^verbatim>\<open>Handle\<close> of a handler: those of the library compare with the level variable (the one
  \<^verbatim>\<open>slog\<close> starts with lets \<^verbatim>\<open>Info\<close> and above through), the capturing handler takes every record.
\<close>

fun level_num :: "Level \<Rightarrow> int" where
  "level_num LevelDebug = - 4"
| "level_num LevelInfo = 0"
| "level_num LevelWarn = 4"
| "level_num LevelError = 8"

definition cap_Enabled :: "Level \<Rightarrow> bool" where
  "cap_Enabled l = True"

definition cap_Handle :: "nat \<Rightarrow> log_record \<Rightarrow> log_state \<Rightarrow> log_state" where
  "cap_Handle c r st =
     (if c < length (log_captures st)
      then st\<lparr>log_captures := (log_captures st)[c := (log_captures st ! c)\<lparr>cap_records := cap_records (log_captures st ! c) @ [r]\<rparr>]\<rparr>
      else st)"

fun cap_WithAttrs :: "attrs \<Rightarrow> log_handler \<Rightarrow> log_handler" where
  "cap_WithAttrs as (CaptureHandler c bs g) = CaptureHandler c (bs @ as) g"
| "cap_WithAttrs as h = h"

fun cap_WithGroup :: "string \<Rightarrow> log_handler \<Rightarrow> log_handler" where
  "cap_WithGroup name (CaptureHandler c bs g) = CaptureHandler c bs name"
| "cap_WithGroup name h = h"

fun handler_Enabled :: "log_handler \<Rightarrow> Level \<Rightarrow> log_state \<Rightarrow> bool" where
  "handler_Enabled DefaultHandler l st \<longleftrightarrow> level_num l \<ge> level_num LevelInfo"
| "handler_Enabled (CaptureHandler c as g) l st \<longleftrightarrow> cap_Enabled l"
| "handler_Enabled h l st \<longleftrightarrow> level_num l \<ge> level_num (log_level st)"

fun handler_Handle :: "log_handler \<Rightarrow> log_record \<Rightarrow> log_state \<Rightarrow> log_state" where
  "handler_Handle (CaptureHandler c as g) r st = cap_Handle c r st"
| "handler_Handle h r st = st\<lparr>log_out := log_out st @ [(h, r)]\<rparr>"

text \<open>The handler of a component's logger; it keeps no attributes and no group.\<close>

definition dyn_Enabled :: "Level \<Rightarrow> log_state \<Rightarrow> bool" where
  "dyn_Enabled l st = handler_Enabled (log_default st) l st"

definition dyn_Handle :: "string \<Rightarrow> log_record \<Rightarrow> log_state \<Rightarrow> log_state" where
  "dyn_Handle component r st =
     handler_Handle (log_default st) (r\<lparr>lr_Attrs := lr_Attrs r @ [(''component'', component)]\<rparr>) st"

definition dyn_WithAttrs :: "attrs \<Rightarrow> string \<Rightarrow> string" where
  "dyn_WithAttrs as component = component"

definition dyn_WithGroup :: "string \<Rightarrow> string \<Rightarrow> string" where
  "dyn_WithGroup name component = component"

text \<open>A call of a logger made by \<^verbatim>\<open>For\<close>, as \<^verbatim>\<open>slog\<close> makes it: the record is built if the handler is enabled.\<close>

definition For_log :: "string \<Rightarrow> Level \<Rightarrow> string \<Rightarrow> attrs \<Rightarrow> log_state \<Rightarrow> log_state" where
  "For_log component l msg as st =
     (if dyn_Enabled l st then dyn_Handle component \<lparr>lr_Level = l, lr_Message = msg, lr_Attrs = as\<rparr> st else st)"

section \<open>The capture\<close>

definition CaptureForTest :: "log_state \<Rightarrow> nat \<times> log_state" where
  "CaptureForTest st =
     (let c = length (log_captures st) in
      (c, SetLevel LevelDebug
            (st\<lparr>log_captures := log_captures st @ [\<lparr>cap_records = [], cap_prev = log_default st, cap_prevLevel = log_level st\<rparr>],
                log_default := CaptureHandler c [] []\<rparr>)))"

definition cap_Restore :: "nat \<Rightarrow> log_state \<Rightarrow> log_state" where
  "cap_Restore c st =
     (st\<lparr>log_default := cap_prev (log_captures st ! c)\<rparr>)\<lparr>log_level := cap_prevLevel (log_captures st ! c)\<rparr>"

definition cap_Records :: "nat \<Rightarrow> log_state \<Rightarrow> log_record list" where
  "cap_Records c st = cap_records (log_captures st ! c)"

definition cap_Has :: "nat \<Rightarrow> Level \<Rightarrow> string \<Rightarrow> log_state \<Rightarrow> bool" where
  "cap_Has c l sub st = list_ex (\<lambda>r. lr_Level r = l \<and> sublist sub (lr_Message r)) (cap_records (log_captures st ! c))"

definition cap_Count :: "nat \<Rightarrow> Level \<Rightarrow> log_state \<Rightarrow> nat" where
  "cap_Count c l st = foldl (\<lambda>n r. if lr_Level r = l then n + 1 else n) 0 (cap_records (log_captures st ! c))"

section \<open>What is logged and captured\<close>

text \<open>The level a normalised name stands for; the empty name and \<^verbatim>\<open>info\<close> are the same.\<close>

definition named_level :: "string \<Rightarrow> Level option" where
  "named_level l = map_of [(''debug'', LevelDebug), ('''', LevelInfo), (''info'', LevelInfo),
     (''warn'', LevelWarn), (''warning'', LevelWarn), (''error'', LevelError)] l"

lemma parseLevel_named:
  "log_level (parseLevel s st) = (case named_level (ToLower (TrimSpace s)) of None \<Rightarrow> LevelInfo | Some l \<Rightarrow> l)"
  by (simp add: parseLevel_def named_level_def Let_def)

text \<open>A log call of a component, and the record it stands for.\<close>

type_synonym log_call = "string \<times> Level \<times> string \<times> attrs"

definition log_calls :: "log_call list \<Rightarrow> log_state \<Rightarrow> log_state" where
  "log_calls cs st = fold (\<lambda>(component, l, msg, as). For_log component l msg as) cs st"

definition call_record :: "log_call \<Rightarrow> log_record" where
  "call_record = (\<lambda>(component, l, msg, as). \<lparr>lr_Level = l, lr_Message = msg, lr_Attrs = as @ [(''component'', component)]\<rparr>)"

lemma log_calls_captured:
  assumes "log_default st = CaptureHandler c as g" and "c < length (log_captures st)"
  shows "log_calls cs st = st\<lparr>log_captures := (log_captures st)[c := (log_captures st ! c)\<lparr>cap_records :=
    cap_records (log_captures st ! c) @ map call_record cs\<rparr>]\<rparr>"
  using assms
proof (induction cs arbitrary: st)
  case (Cons x cs)
  obtain component l msg bs where x: "x = (component, l, msg, bs)" by (metis prod_cases4)
  have 1: "For_log component l msg bs st = st\<lparr>log_captures := (log_captures st)[c := (log_captures st ! c)\<lparr>cap_records :=
      cap_records (log_captures st ! c) @ [call_record x]\<rparr>]\<rparr>"
    using Cons.prems by (simp add: For_log_def dyn_Enabled_def dyn_Handle_def cap_Enabled_def cap_Handle_def x call_record_def)
  have "log_calls (x # cs) st = log_calls cs (For_log component l msg bs st)" by (simp add: log_calls_def x)
  moreover have "log_default (For_log component l msg bs st) = CaptureHandler c as g"
    "c < length (log_captures (For_log component l msg bs st))" unfolding 1 using Cons.prems by simp_all
  from Cons.IH [OF this] have "log_calls cs (For_log component l msg bs st) = (For_log component l msg bs st)\<lparr>log_captures :=
      (log_captures (For_log component l msg bs st))[c := (log_captures (For_log component l msg bs st) ! c)\<lparr>cap_records :=
        cap_records (log_captures (For_log component l msg bs st) ! c) @ map call_record cs\<rparr>]\<rparr>" .
  ultimately show ?case unfolding 1 using Cons.prems by simp
qed (simp add: log_calls_def)

lemma log_calls_written:
  assumes "log_default st = TextHandler \<or> log_default st = JSONHandler"
  shows "log_calls cs st = st\<lparr>log_out := log_out st @ map (\<lambda>x. (log_default st, call_record x))
    (filter (\<lambda>(component, l, msg, as). level_num l \<ge> level_num (log_level st)) cs)\<rparr>"
  using assms
proof (induction cs arbitrary: st)
  case (Cons x cs)
  obtain component l msg bs where x: "x = (component, l, msg, bs)" by (metis prod_cases4)
  have "log_calls (x # cs) st = log_calls cs (For_log component l msg bs st)" by (simp add: log_calls_def x)
  moreover have "For_log component l msg bs st =
      (if level_num l \<ge> level_num (log_level st) then st\<lparr>log_out := log_out st @ [(log_default st, call_record x)]\<rparr> else st)"
    using Cons.prems by (auto simp: For_log_def dyn_Enabled_def dyn_Handle_def x call_record_def)
  ultimately show ?case using Cons.prems Cons.IH by (simp add: x)
qed (simp add: log_calls_def)

lemma foldl_count: "foldl (\<lambda>n r. if P r then n + 1 else n) k xs = k + length (filter P xs)" for k :: nat
  by (induction xs arbitrary: k) simp_all

text \<open>
  C33. Log lines reach the handler they should. After \<^verbatim>\<open>Init\<close> the components' loggers write exactly the
  calls at or above the configured level, in order, in the configured format, each with its component as
  the last of its attributes. A
  capture then sees every call at any level, in order and with its component, and nothing is written; its
  queries agree with its records; and \<^verbatim>\<open>Restore\<close> gives back the handler and the level, so that what is
  logged afterwards is written as it would have been before.
\<close>

theorem logs_reach_their_handler:
  assumes "st = log_Init lvl fmt st0" and "CaptureForTest st = (c, st1)" and "st2 = log_calls during st1"
    and "st3 = cap_Restore c st2"
  shows "log_out (log_calls before st) = log_out st0 @
      map (\<lambda>x. (if fold_json fmt then JSONHandler else TextHandler, call_record x))
        (filter (\<lambda>(component, l, msg, as). level_num l \<ge> level_num (log_level st)) before) \<and>
    cap_Records c st2 = map call_record during \<and> log_out st2 = log_out st \<and>
    (\<forall>l sub. cap_Has c l sub st2 \<longleftrightarrow> (\<exists>(component, l', msg, as) \<in> set during. l' = l \<and> sublist sub msg)) \<and>
    (\<forall>l. cap_Count c l st2 = length (filter (\<lambda>(component, l', msg, as). l' = l) during)) \<and>
    log_level st3 = log_level st \<and> log_default st3 = log_default st \<and>
    log_out (log_calls after st3) = log_out (log_calls after st)"
proof -
  let ?h = "if fold_json fmt then JSONHandler else TextHandler"
  have h: "log_default st = ?h" "log_out st = log_out st0"
    by (simp_all add: assms(1) log_Init_def parseLevel_def Let_def)
  have c: "c = length (log_captures st)" "log_default st1 = CaptureHandler c [] []" "c < length (log_captures st1)"
    "cap_records (log_captures st1 ! c) = []" "cap_prev (log_captures st1 ! c) = log_default st"
    "cap_prevLevel (log_captures st1 ! c) = log_level st" "log_out st1 = log_out st"
    using assms(2) by (auto simp: CaptureForTest_def Let_def SetLevel_def)
  note st2 = log_calls_captured [OF c(2,3), of during, folded assms(3)]
  have rec: "cap_records (log_captures st2 ! c) = map call_record during" using c by (simp add: st2)
  have restored: "log_level st3 = log_level st" "log_default st3 = log_default st" "log_out st3 = log_out st"
    using c by (simp_all add: assms(4) cap_Restore_def st2)
  have w: "log_out (log_calls cs s) = log_out s @ map (\<lambda>x. (?h, call_record x))
      (filter (\<lambda>(component, l, msg, as). level_num l \<ge> level_num (log_level s)) cs)" if "log_default s = ?h" for s cs
    using log_calls_written [of s cs] that by (auto split: if_splits)
  have has: "cap_Has c l sub st2 \<longleftrightarrow> (\<exists>(component, l', msg, as) \<in> set during. l' = l \<and> sublist sub msg)" for l sub
    by (auto simp: cap_Has_def rec list_ex_iff call_record_def split_beta)
  have "filter (\<lambda>r. lr_Level r = l) (map call_record during) = map call_record (filter (\<lambda>(component, l', msg, as). l' = l) during)" for l
    by (induction during) (auto simp: call_record_def)
  then have count: "cap_Count c l st2 = length (filter (\<lambda>(component, l', msg, as). l' = l) during)" for l
    by (simp add: cap_Count_def rec foldl_count)
  show ?thesis using w [OF h(1)] w [of st3] h restored rec has count c(7) by (simp add: cap_Records_def st2)
qed

theorem logs_reach_their_handler_witness:
  "let st = log_Init ''warn'' ''JSON'' \<lparr>log_level = LevelInfo, log_default = DefaultHandler, log_captures = [], log_out = []\<rparr>;
       (c, st1) = CaptureForTest st; st2 = log_calls [(''ssh'', LevelDebug, ''hello world'', [])] st1
   in log_default (cap_Restore c st2) = JSONHandler \<and> log_level (cap_Restore c st2) = LevelWarn \<and>
      cap_Has c LevelDebug ''o w'' st2 \<and> cap_Count c LevelDebug st2 = 1"
proof -
  let ?st = "log_Init ''warn'' ''JSON'' \<lparr>log_level = LevelInfo, log_default = DefaultHandler, log_captures = [], log_out = []\<rparr>"
  obtain c st1 where c: "CaptureForTest ?st = (c, st1)" by fastforce
  let ?during = "[(''ssh'', LevelDebug, ''hello world'', [])]"
  note T = logs_reach_their_handler [OF refl c refl refl, of _ ?during]
  have st: "log_default ?st = JSONHandler" "log_level ?st = LevelWarn"
    by code_simp+
  have "sublist ''o w'' ''hello world''" by (simp add: sublist_code)
  then show ?thesis using T st by (simp add: c)
qed

end
