(* ===== verification/GoLib.thy ===== *)
theory GoLib
  imports Prelude "HOL-Library.Multiset"
begin

text \<open>
  The parts of Go's standard library the program computes with: \<^verbatim>\<open>encoding/binary\<close> (big endian),
  \<^verbatim>\<open>encoding/hex\<close>, \<^verbatim>\<open>net.SplitHostPort\<close>, \<^verbatim>\<open>math/rand/v2.Shuffle\<close> and \<^verbatim>\<open>io.ReadFull\<close>, with the
  laws the components rely on. \<open>byte_source\<close> is the interface of a reader that
  \<^verbatim>\<open>io.ReadFull\<close> drains: its contract is stated over the bytes still to come.
\<close>

unbundle bit_operations_syntax

section \<open>encoding/binary, big endian\<close>

definition PutUint16 :: "u16 \<Rightarrow> bytes" where
  "PutUint16 v = [ucast (drop_bit 8 v), ucast v]"

definition PutUint32 :: "u32 \<Rightarrow> bytes" where
  "PutUint32 v =
     [ucast (drop_bit 24 v), ucast (drop_bit 16 v), ucast (drop_bit 8 v), ucast v]"

definition PutUint64 :: "u64 \<Rightarrow> bytes" where
  "PutUint64 v =
     [ucast (drop_bit 56 v), ucast (drop_bit 48 v), ucast (drop_bit 40 v), ucast (drop_bit 32 v),
      ucast (drop_bit 24 v), ucast (drop_bit 16 v), ucast (drop_bit 8 v), ucast v]"

definition Uint16 :: "bytes \<Rightarrow> u16" where
  "Uint16 b = ucast (b ! 1) OR push_bit 8 (ucast (b ! 0))"

definition Uint32 :: "bytes \<Rightarrow> u32" where
  "Uint32 b = ucast (b ! 3) OR push_bit 8 (ucast (b ! 2))
     OR push_bit 16 (ucast (b ! 1)) OR push_bit 24 (ucast (b ! 0))"

lemma length_PutUint [simp]:
  "length (PutUint16 v) = 2" "length (PutUint32 w) = 4" "length (PutUint64 x) = 8"
  by (simp_all add: PutUint16_def PutUint32_def PutUint64_def)

lemma Uint16_PutUint16 [simp]: "Uint16 (PutUint16 v) = v"
  unfolding Uint16_def PutUint16_def
  by (rule bit_word_eqI) (auto simp: bit_simps not_less)

lemma Uint32_PutUint32 [simp]: "Uint32 (PutUint32 v) = v"
proof (rule bit_word_eqI)
  fix n assume "n < LENGTH(32)"
  then show "bit (Uint32 (PutUint32 v)) n = bit v n"
    unfolding Uint32_def PutUint32_def
    by (cases "n < 8"; cases "n < 16"; cases "n < 24") (auto simp: bit_simps not_less)
qed

lemma byte_high_bits [simp]:
  "\<not> bit (b :: byte) (8 + n)" "\<not> bit (b :: byte) (16 + n)" "\<not> bit (b :: byte) (24 + n)"
  using bit_imp_le_length [of b] by fastforce+

lemma list_length2: "length xs = 2 \<longleftrightarrow> (\<exists>a b. xs = [a, b])"
  by (auto simp: numeral_eq_Suc length_Suc_conv)

lemma list_length4: "length xs = 4 \<longleftrightarrow> (\<exists>a b c d. xs = [a, b, c, d])"
  by (auto simp: numeral_eq_Suc length_Suc_conv)

lemma PutUint16_Uint16: "length b = 2 \<Longrightarrow> PutUint16 (Uint16 b) = b"
  unfolding Uint16_def PutUint16_def list_length2
  by (auto intro!: bit_word_eqI simp: bit_simps)

lemma PutUint32_Uint32: "length b = 4 \<Longrightarrow> PutUint32 (Uint32 b) = b"
  unfolding Uint32_def PutUint32_def list_length4
  by (auto intro!: bit_word_eqI simp: bit_simps)

lemma PutUint32_inj [simp]: "PutUint32 v = PutUint32 w \<longleftrightarrow> v = w"
  by (metis Uint32_PutUint32)

lemma PutUint64_inj [simp]: "PutUint64 v = PutUint64 w \<longleftrightarrow> v = w"
proof
  assume eq: "PutUint64 v = PutUint64 w"
  show "v = w"
  proof (rule bit_word_eqI)
    fix n assume "n < LENGTH(64)"
    then have n: "n < 64" by simp
    define k where "k = n div 8"
    have k: "k \<in> {0, 1, 2, 3, 4, 5, 6, 7}" using n by (auto simp: k_def)
    have "(ucast (drop_bit (8 * k) v) :: byte) = ucast (drop_bit (8 * k) w)"
      using k eq by (auto simp: PutUint64_def)
    then have "bit (ucast (drop_bit (8 * k) v) :: byte) (n mod 8) =
        bit (ucast (drop_bit (8 * k) w) :: byte) (n mod 8)"
      by simp
    moreover have "8 * k + n mod 8 = n" by (simp add: k_def)
    ultimately show "bit v n = bit w n" by (simp add: bit_simps)
  qed
qed simp

section \<open>encoding/hex\<close>

definition hex_digit :: "nat \<Rightarrow> char" where
  "hex_digit n = ''0123456789abcdef'' ! n"

definition fromHexChar :: "char \<Rightarrow> nat option" where
  "fromHexChar c =
     (let n = of_char c in
      if 48 \<le> n \<and> n \<le> 57 then Some (n - 48)
      else if 97 \<le> n \<and> n \<le> 102 then Some (n - 97 + 10)
      else if 65 \<le> n \<and> n \<le> 70 then Some (n - 65 + 10)
      else None)"

primrec hex_EncodeToString :: "bytes \<Rightarrow> string" where
  "hex_EncodeToString [] = []"
| "hex_EncodeToString (b # bs) =
     hex_digit (unat b div 16) # hex_digit (unat b mod 16) # hex_EncodeToString bs"

fun hex_DecodeString :: "string \<Rightarrow> bytes option" where
  "hex_DecodeString [] = Some []"
| "hex_DecodeString [c] = None"
| "hex_DecodeString (c # d # s) =
     (case (fromHexChar c, fromHexChar d) of
        (Some x, Some y) \<Rightarrow> map_option (\<lambda>bs. of_nat (16 * x + y) # bs) (hex_DecodeString s)
      | _ \<Rightarrow> None)"

lemma length_hex_EncodeToString [simp]:
  "length (hex_EncodeToString bs) = 2 * length bs"
  by (induction bs) simp_all

lemma hex_digits_decode: "list_all (\<lambda>n. fromHexChar (hex_digit n) = Some n) [0..<16]"
  by code_simp

lemma fromHexChar_hex_digit [simp]: "n < 16 \<Longrightarrow> fromHexChar (hex_digit n) = Some n"
  using hex_digits_decode by (simp only: list_all_iff set_upt) simp

lemma hex_roundtrip [simp]: "hex_DecodeString (hex_EncodeToString bs) = Some bs"
proof (induction bs)
  case (Cons b bs)
  have "unat b < 2 ^ LENGTH(8)" by (rule unsigned_less)
  then have "unat b < 256" by simp
  then have "unat b div 16 < 16" by (simp add: less_mult_imp_div_less)
  moreover have "16 * (unat b div 16) + unat b mod 16 = unat b" by simp
  ultimately show ?case using Cons by simp
qed simp

lemma hex_EncodeToString_inj [simp]:
  "hex_EncodeToString a = hex_EncodeToString b \<longleftrightarrow> a = b"
  by (metis hex_roundtrip option.inject)

section \<open>net.SplitHostPort\<close>

primrec IndexByte :: "string \<Rightarrow> char \<Rightarrow> nat option" where
  "IndexByte [] c = None"
| "IndexByte (x # xs) c = (if x = c then Some 0 else map_option Suc (IndexByte xs c))"

definition LastIndexByte :: "string \<Rightarrow> char \<Rightarrow> nat option" where
  "LastIndexByte s c = map_option (\<lambda>i. length s - 1 - i) (IndexByte (rev s) c)"

text \<open>
  The result is \<^const>\<open>None\<close> where Go returns an \<^verbatim>\<open>AddrError\<close>; the callers only test for it.
\<close>

definition SplitHostPort :: "string \<Rightarrow> (string \<times> string) option" where
  "SplitHostPort hostport =
     (case LastIndexByte hostport (CHR '':'') of
        None \<Rightarrow> None
      | Some i \<Rightarrow>
          (if hostport ! 0 = CHR ''['' then
             (case IndexByte hostport (CHR '']'') of
                None \<Rightarrow> None
              | Some e \<Rightarrow>
                  if e + 1 = length hostport then None
                  else if e + 1 = i then
                    (if CHR ''['' \<in> set (drop 1 hostport)
                        \<or> CHR '']'' \<in> set (drop (e + 1) hostport) then None
                     else Some (take (e - 1) (drop 1 hostport), drop (i + 1) hostport))
                  else None)
           else
             (let host = take i hostport in
              if CHR '':'' \<in> set host then None
              else if CHR ''['' \<in> set hostport \<or> CHR '']'' \<in> set hostport then None
              else Some (host, drop (i + 1) hostport))))"

section \<open>math/rand/v2.Shuffle\<close>

text \<open>
  Fisher-Yates. \<open>r i\<close> is the generator's draw in the iteration for index \<open>i\<close>, taken modulo
  \<open>i + 1\<close> as \<^verbatim>\<open>uint64n(i + 1)\<close> returns a number below its argument.
\<close>

primrec shuffle_from :: "(nat \<Rightarrow> nat) \<Rightarrow> nat \<Rightarrow> 'a list \<Rightarrow> 'a list" where
  "shuffle_from r 0 xs = xs"
| "shuffle_from r (Suc i) xs =
     (let j = r (Suc i) mod Suc (Suc i)
      in shuffle_from r i (xs[Suc i := xs ! j, j := xs ! Suc i]))"

definition Shuffle :: "(nat \<Rightarrow> nat) \<Rightarrow> 'a list \<Rightarrow> 'a list" where
  "Shuffle r xs = shuffle_from r (length xs - 1) xs"

lemma mset_shuffle_from: "i < length xs \<Longrightarrow> mset (shuffle_from r i xs) = mset xs"
proof (induction i arbitrary: xs)
  case (Suc i)
  let ?j = "r (Suc i) mod Suc (Suc i)"
  have "?j < length xs" using Suc.prems by (meson Suc_leI le_less_trans mod_less_divisor not_less_eq_eq zero_less_Suc less_Suc_eq_le)
  then have "mset (xs[Suc i := xs ! ?j, ?j := xs ! Suc i]) = mset xs"
    using mset_swap [of ?j xs "Suc i"] Suc.prems by (simp add: list_update_swap)
  then show ?case using Suc by (simp add: Let_def)
qed simp

lemma mset_Shuffle [simp]: "mset (Shuffle r xs) = mset xs"
  by (cases xs) (simp_all add: Shuffle_def mset_shuffle_from)

lemma Shuffle_facts [simp]:
  "set (Shuffle r xs) = set xs" "length (Shuffle r xs) = length xs"
  "distinct (Shuffle r xs) = distinct xs"
  using mset_Shuffle [of r xs] by (metis mset_eq_setD, metis mset_eq_length, metis mset_eq_imp_distinct_iff)

section \<open>io.ReadFull\<close>

datatype io_error = EOF | ErrUnexpectedEOF

text \<open>On a stream whose remaining bytes are known up to its end.\<close>

definition stream_ReadFull :: "nat \<Rightarrow> bytes \<Rightarrow> io_error + bytes \<times> bytes" where
  "stream_ReadFull n s =
     (if n \<le> length s then Inr (take n s, drop n s)
      else if s = [] then Inl EOF else Inl ErrUnexpectedEOF)"

text \<open>
  The contract of a reader: \<open>pending\<close> are the bytes it can still deliver, and reading \<open>n\<close>
  of them succeeds exactly when there are that many, in order and without loss.
\<close>

locale byte_source =
  fixes read_full :: "nat \<Rightarrow> 's \<Rightarrow> 'e + bytes \<times> 's"
    and pending :: "'s \<Rightarrow> bytes"
  assumes read_enough:
      "n \<le> length (pending s) \<Longrightarrow>
         \<exists>s'. read_full n s = Inr (take n (pending s), s') \<and> pending s' = drop n (pending s)"
    and read_short: "length (pending s) < n \<Longrightarrow> \<exists>e. read_full n s = Inl e"
begin

lemma read_appended:
  assumes "pending s = bs @ rest"
  shows "\<exists>s'. read_full (length bs) s = Inr (bs, s') \<and> pending s' = rest"
  using read_enough [of "length bs" s] assms by simp

lemma read_result:
  assumes "read_full n s = Inr (bs, s')"
  shows "length bs = n \<and> pending s = bs @ pending s'"
proof (cases "n \<le> length (pending s)")
  case True
  from read_enough [OF this] True assms show ?thesis by auto
next
  case False
  then show ?thesis using read_short [of s n] assms by auto
qed

end

interpretation stream: byte_source stream_ReadFull "\<lambda>s. s"
  by unfold_locales (auto simp: stream_ReadFull_def)

end
