(* ===== verification/Envelope.thy ===== *)
theory Envelope
  imports GoLib
begin

text \<open>
  The wire messages (\<^verbatim>\<open>pkg/proto\<close>) and the signing of envelopes (\<^verbatim>\<open>pkg/proto/envelope.go\<close>).

  The records are the message structs of \<^verbatim>\<open>micelio.pb.go\<close> without protobuf's own bookkeeping
  fields. Two groups of functions are parameters of the model, since their code is not part of
  the repository or is a cryptographic primitive used as a black box: \<open>crypto\<close> (SHA-256,
  SHA-512, Ed25519 and the Edwards to Montgomery map) and \<open>codec\<close> (protobuf marshalling of the four
  message types and JSON marshalling of peer records, whose type is the parameter \<open>'r\<close>).
  \<open>keypair_ok\<close> and \<open>codec_ok\<close> state the documented behaviour that the round trips rely on.
\<close>

section \<open>Messages\<close>

record Envelope =
  MessageId :: string
  SenderId :: string
  LamportTs :: u64
  HopCount :: u32
  MsgType :: u32
  Payload :: bytes
  Signature :: bytes
  SenderPubkey :: bytes

record PeerHello =
  hello_NodeId :: string
  hello_Version :: string
  hello_Tags :: "string list"
  hello_Reachable :: bool
  hello_ListenAddr :: string
  hello_Ed25519Pubkey :: bytes

record ChatMessage =
  chat_Nick :: string
  chat_Text :: string
  chat_Timestamp :: u64

record PeerInfo =
  info_NodeId :: string
  info_Addr :: string
  info_Reachable :: bool
  info_Ed25519Pubkey :: bytes
  info_LastSeen :: u64

text \<open>The zero value of the struct, as in \<^verbatim>\<open>&pb.Envelope{MsgType: ...}\<close>.\<close>

definition zero_Envelope :: Envelope where
  "zero_Envelope = \<lparr>MessageId = [], SenderId = [], LamportTs = 0, HopCount = 0, MsgType = 0,
     Payload = [], Signature = [], SenderPubkey = []\<rparr>"

section \<open>Parameters\<close>

record crypto =
  sha256 :: "bytes \<Rightarrow> bytes"
  ed25519_Sign :: "bytes \<Rightarrow> bytes \<Rightarrow> bytes"
  ed25519_Verify :: "bytes \<Rightarrow> bytes \<Rightarrow> bytes \<Rightarrow> bool"
  sha512 :: "bytes \<Rightarrow> bytes"
  edwards25519_SetBytes :: "bytes \<Rightarrow> bytes option"
  BytesMontgomery :: "bytes \<Rightarrow> bytes"

record 'r codec =
  env_Marshal :: "Envelope \<Rightarrow> bytes option"
  env_Unmarshal :: "bytes \<Rightarrow> Envelope option"
  hello_Marshal :: "PeerHello \<Rightarrow> bytes option"
  hello_Unmarshal :: "bytes \<Rightarrow> PeerHello option"
  chat_Marshal :: "ChatMessage \<Rightarrow> bytes option"
  chat_Unmarshal :: "bytes \<Rightarrow> ChatMessage option"
  px_Marshal :: "PeerInfo list \<Rightarrow> bytes option"
  px_Unmarshal :: "bytes \<Rightarrow> PeerInfo list option"
  json_Marshal :: "'r \<Rightarrow> bytes option"
  json_Unmarshal :: "bytes \<Rightarrow> 'r option"

text \<open>
  What marshalling promises: decoding what was encoded gives the message back.
\<close>

definition codec_ok :: "'r codec \<Rightarrow> bool" where
  "codec_ok cd \<longleftrightarrow>
     (\<forall>e b. env_Marshal cd e = Some b \<longrightarrow> env_Unmarshal cd b = Some e) \<and>
     (\<forall>h b. hello_Marshal cd h = Some b \<longrightarrow> hello_Unmarshal cd b = Some h) \<and>
     (\<forall>c b. chat_Marshal cd c = Some b \<longrightarrow> chat_Unmarshal cd b = Some c) \<and>
     (\<forall>p b. px_Marshal cd p = Some b \<longrightarrow> px_Unmarshal cd b = Some p) \<and>
     (\<forall>r b. json_Marshal cd r = Some b \<longrightarrow> json_Unmarshal cd b = Some r)"

lemma codec_okD:
  assumes "codec_ok cd"
  shows "env_Marshal cd e = Some b \<Longrightarrow> env_Unmarshal cd b = Some e"
    and "hello_Marshal cd h = Some b \<Longrightarrow> hello_Unmarshal cd b = Some h"
    and "chat_Marshal cd c = Some b \<Longrightarrow> chat_Unmarshal cd b = Some c"
    and "px_Marshal cd p = Some b \<Longrightarrow> px_Unmarshal cd b = Some p"
    and "json_Marshal cd r = Some b \<Longrightarrow> json_Unmarshal cd b = Some r"
  using assms unfolding codec_ok_def by blast+

definition PublicKeySize :: nat where "PublicKeySize = 32"
definition PrivateKeySize :: nat where "PrivateKeySize = 64"
definition SignatureSize :: nat where "SignatureSize = 64"

lemmas key_size_defs = PublicKeySize_def PrivateKeySize_def SignatureSize_def

text \<open>
  A matching Ed25519 key pair: the sizes, and signatures made with the one verify with the other.
\<close>

definition keypair_ok :: "crypto \<Rightarrow> bytes \<Rightarrow> bytes \<Rightarrow> bool" where
  "keypair_ok cr priv pub \<longleftrightarrow>
     length priv = PrivateKeySize \<and> length pub = PublicKeySize \<and>
     (\<forall>m. length (ed25519_Sign cr priv m) = SignatureSize \<and>
          ed25519_Verify cr pub m (ed25519_Sign cr priv m))"

text \<open>The node identifier of a public key: \<^verbatim>\<open>hex.EncodeToString(sha256.Sum256(pub))\<close>.\<close>

definition node_id_of :: "crypto \<Rightarrow> bytes \<Rightarrow> node_id" where
  "node_id_of cr pub = hex_EncodeToString (sha256 cr pub)"

section \<open>Signing\<close>

definition EnvelopeSignData :: "Envelope \<Rightarrow> bytes" where
  "EnvelopeSignData env =
     str_bytes (MessageId env) @ str_bytes (SenderId env) @
     PutUint64 (LamportTs env) @ PutUint32 (MsgType env) @ Payload env"

definition SignEnvelope :: "crypto \<Rightarrow> Envelope \<Rightarrow> bytes \<Rightarrow> Envelope" where
  "SignEnvelope cr env privKey =
     (if length privKey \<noteq> PrivateKeySize then env\<lparr>Signature := []\<rparr>
      else env\<lparr>Signature := ed25519_Sign cr privKey (EnvelopeSignData env)\<rparr>)"

definition VerifyEnvelope :: "crypto \<Rightarrow> Envelope \<Rightarrow> bytes \<Rightarrow> bool" where
  "VerifyEnvelope cr env pubKey =
     (if length pubKey \<noteq> PublicKeySize then False
      else if length (Signature env) \<noteq> SignatureSize then False
      else ed25519_Verify cr pubKey (EnvelopeSignData env) (Signature env))"

section \<open>Lemmas\<close>

lemma sign_data_unsigned_fields [simp]:
  "EnvelopeSignData (env\<lparr>HopCount := h\<rparr>) = EnvelopeSignData env"
  "EnvelopeSignData (env\<lparr>SenderPubkey := k\<rparr>) = EnvelopeSignData env"
  "EnvelopeSignData (env\<lparr>Signature := s\<rparr>) = EnvelopeSignData env"
  by (simp_all add: EnvelopeSignData_def)

lemma verify_unsigned_fields [simp]:
  "VerifyEnvelope cr (env\<lparr>HopCount := h\<rparr>) pub = VerifyEnvelope cr env pub"
  "VerifyEnvelope cr (env\<lparr>SenderPubkey := k\<rparr>) pub = VerifyEnvelope cr env pub"
  by (simp_all add: VerifyEnvelope_def)

lemma verify_signed:
  "keypair_ok cr priv pub \<Longrightarrow> VerifyEnvelope cr (SignEnvelope cr env priv) pub"
  by (simp add: keypair_ok_def VerifyEnvelope_def SignEnvelope_def)

lemma SignEnvelope_fields [frame_simps]:
  "MessageId (SignEnvelope cr env k) = MessageId env"
  "SenderId (SignEnvelope cr env k) = SenderId env"
  "LamportTs (SignEnvelope cr env k) = LamportTs env"
  "HopCount (SignEnvelope cr env k) = HopCount env"
  "MsgType (SignEnvelope cr env k) = MsgType env"
  "Payload (SignEnvelope cr env k) = Payload env"
  "SenderPubkey (SignEnvelope cr env k) = SenderPubkey env"
  by (simp_all add: SignEnvelope_def)

lemma sign_data_split:
  assumes "EnvelopeSignData a = EnvelopeSignData b"
    and "length (MessageId a) = length (MessageId b)"
    and "length (SenderId a) = length (SenderId b)"
  shows "MessageId a = MessageId b \<and> SenderId a = SenderId b \<and> LamportTs a = LamportTs b \<and>
    MsgType a = MsgType b \<and> Payload a = Payload b"
  using assms by (simp add: EnvelopeSignData_def)

text \<open>Every byte string is the bytes of a Go string.\<close>

definition bytes_str :: "bytes \<Rightarrow> string" where
  "bytes_str bs = map (\<lambda>b. char_of (unat b)) bs"

lemma str_bytes_bytes_str [simp]: "str_bytes (bytes_str bs) = bs"
proof (induction bs)
  case (Cons b bs)
  have "unat b < 2 ^ LENGTH(8)" by (rule unsigned_less)
  then show ?case using Cons by (simp add: str_bytes_def bytes_str_def of_char_of)
qed (simp add: str_bytes_def bytes_str_def)

lemma length_bytes_str [simp]: "length (bytes_str bs) = length bs"
  by (simp add: bytes_str_def)

section \<open>Properties\<close>

text \<open>
  Relaying keeps a signature valid. An envelope signed with a private key verifies under the
  matching public key after any intermediate node has replaced its hop count and its
  \<^verbatim>\<open>sender_pubkey\<close>: the signed bytes exclude exactly these fields.
\<close>

theorem signed_envelope_verifies_after_relay:
  assumes "keypair_ok cr priv pub"
  shows "VerifyEnvelope cr
    ((SignEnvelope cr env priv)\<lparr>HopCount := h, SenderPubkey := k\<rparr>) pub"
  using assms verify_signed by simp

text \<open>
  C37. The signed bytes carry no field lengths, so without equal lengths a signature does not bind
  the fields. If a payload holds the sender's own identifier after \<open>pre\<close>, followed by twelve
  more bytes, the same signature verifies under every key for a second envelope of the same sender
  with a longer message identifier and a shorter payload; an identifier of
  \<open>length (MessageId env) + length (SenderId env) + 12 + length pre\<close> bytes passes the
  engine's 128-byte bound for UUIDs, 64-character senders and \<open>pre\<close> of up to 16 bytes.
\<close>

theorem signature_transfers_to_resplit_envelope:
  assumes "Payload env = pre @ str_bytes (SenderId env) @ PutUint64 ts @ PutUint32 mt @ rest"
  shows "\<exists>env'. MessageId env' \<noteq> MessageId env \<and> SenderId env' = SenderId env \<and>
    MsgType env' = mt \<and> Payload env' = rest \<and>
    length (MessageId env') = length (MessageId env) + length (SenderId env) + 12 + length pre \<and>
    (\<forall>cr pub. VerifyEnvelope cr env' pub = VerifyEnvelope cr env pub)"
proof -
  define mid where "mid = MessageId env @ SenderId env @
    bytes_str (PutUint64 (LamportTs env) @ PutUint32 (MsgType env) @ pre)"
  define env' where "env' = env\<lparr>MessageId := mid, LamportTs := ts, MsgType := mt, Payload := rest\<rparr>"
  have len: "length mid = length (MessageId env) + length (SenderId env) + 12 + length pre"
    by (simp add: mid_def)
  have "EnvelopeSignData env' = EnvelopeSignData env"
    by (simp add: env'_def EnvelopeSignData_def mid_def assms)
  then have "VerifyEnvelope cr env' pub = VerifyEnvelope cr env pub" for cr pub
    by (simp add: VerifyEnvelope_def env'_def)
  moreover have "MessageId env' \<noteq> MessageId env"
    using len by (auto simp: env'_def dest: arg_cong [where f = length])
  ultimately show ?thesis
    using len by (intro exI [of _ env']) (simp add: env'_def)
qed

section \<open>Witnesses\<close>

text \<open>A toy scheme: the signature is a constant string of the right size.\<close>

definition demo_crypto :: crypto where
  "demo_crypto = \<lparr>sha256 = (\<lambda>b. take 32 (b @ replicate 32 0)),
     ed25519_Sign = (\<lambda>k m. replicate 64 1), ed25519_Verify = (\<lambda>p m s. s = replicate 64 1),
     sha512 = (\<lambda>b. take 64 (b @ replicate 64 0)), edwards25519_SetBytes = (\<lambda>p. Some p),
     BytesMontgomery = (\<lambda>p. p)\<rparr>"

definition demo_env :: Envelope where
  "demo_env = zero_Envelope\<lparr>MessageId := ''m1'', SenderId := ''ab'', MsgType := 3, HopCount := 4,
     Payload := [7] @ str_bytes ''ab'' @ PutUint64 5 @ PutUint32 6 @ [8]\<rparr>"

theorem signed_envelope_verifies_after_relay_witness:
  "keypair_ok demo_crypto (replicate 64 0) (replicate 32 0) \<and>
   VerifyEnvelope demo_crypto
     ((SignEnvelope demo_crypto demo_env (replicate 64 0))\<lparr>HopCount := 3, SenderPubkey := [1]\<rparr>)
     (replicate 32 0)"
proof -
  have k: "keypair_ok demo_crypto (replicate 64 0) (replicate 32 0)"
    by (simp add: keypair_ok_def demo_crypto_def key_size_defs)
  show ?thesis using k signed_envelope_verifies_after_relay [OF k] by simp
qed

theorem signature_transfers_to_resplit_envelope_witness:
  "\<exists>env'. MessageId env' \<noteq> MessageId demo_env \<and> SenderId env' = SenderId demo_env \<and>
    MsgType env' = 6 \<and> Payload env' = [8] \<and> length (MessageId env') = 17 \<and>
    (\<forall>cr pub. VerifyEnvelope cr env' pub = VerifyEnvelope cr demo_env pub)"
proof -
  have "Payload demo_env = [7] @ str_bytes (SenderId demo_env) @ PutUint64 5 @ PutUint32 6 @ [8]"
    by (simp add: demo_env_def)
  from signature_transfers_to_resplit_envelope [OF this] show ?thesis
    by (simp add: demo_env_def zero_Envelope_def)
qed

end
