(* ===== verification/SeenCache.thy ===== *)
theory SeenCache
  imports Prelude
begin

text \<open>
  Deduplication by message identifier (\<^verbatim>\<open>internal/gossip/seen.go\<close>). The locale \<open>dedup_cache\<close> is
  the contract of a test-and-set cache with expiry; the gossip engine's cache is interpreted here
  and the per-connection cache of \<^verbatim>\<open>internal/transport/peer.go\<close> in the theory of peers. Its main
  fact speaks about whole runs of timed operations (\<open>dedup_run\<close>).
\<close>

section \<open>Operations\<close>

record SeenCache =
  sc_entries :: "(string, instant) fmap"
  sc_ttl :: duration

definition NewSeenCache :: "duration \<Rightarrow> SeenCache" where
  "NewSeenCache ttl = \<lparr>sc_entries = fmempty, sc_ttl = ttl\<rparr>"

definition seen_Has :: "string \<Rightarrow> SeenCache \<Rightarrow> bool" where
  "seen_Has messageID s = (case fmlookup (sc_entries s) messageID of Some _ \<Rightarrow> True | None \<Rightarrow> False)"

definition seen_Check :: "string \<Rightarrow> instant \<Rightarrow> SeenCache \<Rightarrow> bool \<times> SeenCache" where
  "seen_Check messageID now s =
     (case fmlookup (sc_entries s) messageID of
        Some _ \<Rightarrow> (True, s)
      | None \<Rightarrow> (False, s\<lparr>sc_entries := fmupd messageID now (sc_entries s)\<rparr>))"

definition seen_Len :: "SeenCache \<Rightarrow> nat" where
  "seen_Len s = map_len (sc_entries s)"

definition seen_cleanup :: "instant \<Rightarrow> SeenCache \<Rightarrow> SeenCache" where
  "seen_cleanup now s =
     (let cutoff = now - sc_ttl s in s\<lparr>sc_entries := map_sweep (\<lambda>t. t < cutoff) (sc_entries s)\<rparr>)"

text \<open>\<^verbatim>\<open>CleanupLoop\<close>: one sweep for every tick received before \<^verbatim>\<open>done\<close> is closed.\<close>

definition seen_CleanupLoop :: "instant list \<Rightarrow> SeenCache \<Rightarrow> SeenCache" where
  "seen_CleanupLoop ticks s = fold seen_cleanup ticks s"

section \<open>The contract of a deduplicating cache\<close>

datatype dedup_op = Check string | Sweep

text \<open>
  A run of timed operations; the result lists the accepted identifiers (those the check reported
  as new) with the instants of their acceptance.
\<close>

fun dedup_run ::
  "(string \<Rightarrow> instant \<Rightarrow> 's \<Rightarrow> bool \<times> 's) \<Rightarrow> (instant \<Rightarrow> 's \<Rightarrow> 's) \<Rightarrow>
     (instant \<times> dedup_op) list \<Rightarrow> 's \<Rightarrow> (instant \<times> string) list \<times> 's" where
  "dedup_run check sweep [] s = ([], s)"
| "dedup_run check sweep ((t, Check k) # ops) s =
     (let (dup, s1) = check k t s; (acc, s2) = dedup_run check sweep ops s1
      in (if dup then acc else (t, k) # acc, s2))"
| "dedup_run check sweep ((t, Sweep) # ops) s = dedup_run check sweep ops (sweep t s)"

lemma accepted_instants:
  "fst ` set (fst (dedup_run check sweep ops s)) \<subseteq> fst ` set ops"
proof (induction ops arbitrary: s)
  case (Cons op ops)
  obtain t act where op: "op = (t, act)" by (cases op)
  show ?case
  proof (cases act)
    case (Check k)
    then show ?thesis
      using op Cons.IH [of "snd (check k t s)"] by (auto simp: split_beta Let_def)
  next
    case Sweep
    then show ?thesis using op Cons.IH [of "sweep t s"] by auto
  qed
qed simp

lemma dedup_run_append:
  "fst (dedup_run check sweep (xs @ ys) s) =
     fst (dedup_run check sweep xs s) @ fst (dedup_run check sweep ys (snd (dedup_run check sweep xs s)))"
  "snd (dedup_run check sweep (xs @ ys) s) =
     snd (dedup_run check sweep ys (snd (dedup_run check sweep xs s)))"
proof (induction xs arbitrary: s)
  case (Cons op xs)
  obtain t act where op: "op = (t, act)" by (cases op)
  case 1
  show ?case using op Cons by (cases act) (simp_all add: split_beta Let_def)
  case 2
  show ?case using op Cons by (cases act) (simp_all add: split_beta Let_def)
qed simp_all

locale dedup_cache =
  fixes entries :: "'s \<Rightarrow> (string, instant) fmap"
    and ttl :: "'s \<Rightarrow> duration"
    and check :: "string \<Rightarrow> instant \<Rightarrow> 's \<Rightarrow> bool \<times> 's"
    and sweep :: "instant \<Rightarrow> 's \<Rightarrow> 's"
  assumes check_dup: "fmlookup (entries s) k \<noteq> None \<Longrightarrow> check k now s = (True, s)"
    and check_new: "fmlookup (entries s) k = None \<Longrightarrow>
      \<exists>s'. check k now s = (False, s') \<and> entries s' = fmupd k now (entries s) \<and> ttl s' = ttl s"
    and entries_sweep: "entries (sweep now s) = map_sweep (\<lambda>t. t < now - ttl s) (entries s)"
    and ttl_sweep: "ttl (sweep now s) = ttl s"
begin

lemma check_cases:
  obtains (dup) "fmlookup (entries s) k \<noteq> None" "check k now s = (True, s)"
  | (fresh) s' where "fmlookup (entries s) k = None" "check k now s = (False, s')"
      "entries s' = fmupd k now (entries s)" "ttl s' = ttl s"
  using check_dup [of s k now] check_new [of s k now] by blast

lemma check_idempotent: "fst (check k t' (snd (check k t s)))"
  by (cases rule: check_cases [where s = s and k = k and now = t]) (simp_all add: check_dup)

lemma accepted_after_entry:
  assumes "sorted (map fst ops)" and "fmlookup (entries s) k = Some e"
    and "(u, k) \<in> set (fst (dedup_run check sweep ops s))"
  shows "ttl s < u - e"
  using assms
proof (induction ops arbitrary: s)
  case (Cons op ops)
  obtain t act where op: "op = (t, act)" by (cases op)
  have sorted: "sorted (map fst ops)" and late: "\<forall>v \<in> fst ` set ops. t \<le> v"
    using Cons.prems(1) op by auto
  show ?case
  proof (cases act)
    case (Check k')
    show ?thesis
    proof (cases rule: check_cases [where s = s and k = k' and now = t])
      case dup
      then show ?thesis using Cons.IH [OF sorted Cons.prems(2)] Cons.prems(3) op Check
        by (simp add: split_beta)
    next
      case (fresh s')
      then have "k \<noteq> k'" using Cons.prems(2) by auto
      then show ?thesis
        using Cons.IH [OF sorted, of s'] fresh Cons.prems(2,3) op Check by (auto simp: split_beta)
    qed
  next
    case Sweep
    have u: "(u, k) \<in> set (fst (dedup_run check sweep ops (sweep t s)))"
      using Cons.prems(3) op Sweep by simp
    show ?thesis
    proof (cases "e < t - ttl s")
      case True
      have "u \<in> fst ` set ops" using u accepted_instants [of check sweep ops "sweep t s"] by force
      then have "t \<le> u" using late by blast
      then show ?thesis using True by simp
    next
      case False
      then have "fmlookup (entries (sweep t s)) k = Some e"
        using Cons.prems(2) by (simp add: entries_sweep)
      from Cons.IH [OF sorted this u] show ?thesis by (simp add: ttl_sweep)
    qed
  qed
qed simp

lemma accepted_apart:
  assumes "sorted (map fst ops)"
  shows "sorted_wrt (\<lambda>(t, k) (u, l). k = l \<longrightarrow> ttl s < u - t)
    (fst (dedup_run check sweep ops s))"
  using assms
proof (induction ops arbitrary: s)
  case (Cons op ops)
  obtain t act where op: "op = (t, act)" by (cases op)
  have sorted: "sorted (map fst ops)" using Cons.prems by simp
  show ?case
  proof (cases act)
    case (Check k)
    show ?thesis
    proof (cases rule: check_cases [where s = s and k = k and now = t])
      case dup
      then show ?thesis using Cons.IH [OF sorted] op Check by (simp add: split_beta)
    next
      case (fresh s')
      then have "\<forall>u. (u, k) \<in> set (fst (dedup_run check sweep ops s')) \<longrightarrow> ttl s < u - t"
        using accepted_after_entry [OF sorted, of s' k t] by simp
      then show ?thesis
        using Cons.IH [OF sorted, of s'] fresh op Check by (auto simp: split_beta)
    qed
  next
    case Sweep
    then show ?thesis using Cons.IH [OF sorted, of "sweep t s"] op by (simp add: ttl_sweep)
  qed
qed simp

text \<open>
  While nothing has been swept, an identifier is accepted exactly when it is new: the accepted
  identifiers are the checked ones that were not in the cache, each once.
\<close>

lemma accepted_without_sweep:
  assumes "\<forall>op \<in> set ops. snd op \<noteq> Sweep"
  shows "distinct (map snd (fst (dedup_run check sweep ops s))) \<and>
    set (map snd (fst (dedup_run check sweep ops s))) =
      {k. Check k \<in> snd ` set ops \<and> fmlookup (entries s) k = None}"
  using assms
proof (induction ops arbitrary: s)
  case (Cons op ops)
  then obtain t k where op: "op = (t, Check k)" by (cases op; cases "snd op") auto
  show ?case
  proof (cases rule: check_cases [where s = s and k = k and now = t])
    case dup
    then show ?thesis using Cons.IH [of s] Cons.prems op by (auto simp: split_beta)
  next
    case (fresh s')
    have IH: "distinct (map snd (fst (dedup_run check sweep ops s')))"
      "set (map snd (fst (dedup_run check sweep ops s'))) =
        {l. Check l \<in> snd ` set ops \<and> fmlookup (entries s') l = None}"
      using Cons.IH [of s'] Cons.prems by simp_all
    then have "k \<notin> set (map snd (fst (dedup_run check sweep ops s')))"
      using fresh(3) by simp
    then show ?thesis using IH fresh op by (simp add: split_beta) auto
  qed
qed simp

end

section \<open>The engine's cache satisfies it\<close>

lemmas seen_defs = NewSeenCache_def seen_Has_def seen_Check_def seen_cleanup_def

interpretation seen: dedup_cache sc_entries sc_ttl seen_Check seen_cleanup
  by unfold_locales (auto simp: seen_defs Let_def)

lemma seen_Has_iff: "seen_Has k s \<longleftrightarrow> fmlookup (sc_entries s) k \<noteq> None"
  by (auto simp: seen_Has_def split: option.splits)

lemma seen_Check_simps [simp]:
  "seen_Has k s \<Longrightarrow> seen_Check k now s = (True, s)"
  "\<not> seen_Has k s \<Longrightarrow> seen_Check k now s = (False, s\<lparr>sc_entries := fmupd k now (sc_entries s)\<rparr>)"
  by (auto simp: seen_Check_def seen_Has_def split: option.splits)

lemma seen_Has_after_Check: "seen_Has k (snd (seen_Check k' now s)) \<longleftrightarrow> k = k' \<or> seen_Has k s"
  by (auto simp: seen_Check_def seen_Has_iff split: option.splits)

lemma sc_ttl_Check [frame_simps]: "sc_ttl (snd (seen_Check k now s)) = sc_ttl s"
  by (auto simp: seen_Check_def split: option.splits)

lemma sc_ttl_cleanup [frame_simps]: "sc_ttl (seen_cleanup now s) = sc_ttl s"
  by (simp add: seen_cleanup_def Let_def)

section \<open>Properties\<close>

text \<open>
  No message identifier is accepted twice within the cache's lifetime: in every run of checks
  and cleanups at non-decreasing instants, two acceptances of the same identifier are more than
  the TTL apart, whatever the cache held before.
\<close>

theorem seen_accepts_once_per_ttl:
  assumes "sorted (map fst ops)"
  shows "sorted_wrt (\<lambda>(t, k) (u, l). k = l \<longrightarrow> sc_ttl s < u - t)
    (fst (dedup_run seen_Check seen_cleanup ops s))"
  using assms by (rule seen.accepted_apart)

section \<open>Witnesses\<close>

definition demo_ops :: "(instant \<times> dedup_op) list" where
  "demo_ops = [(0, Check ''a''), (1, Check ''a''), (2, Check ''b''), (7, Sweep), (8, Check ''a'')]"

theorem seen_accepts_once_per_ttl_witness:
  "fst (dedup_run seen_Check seen_cleanup demo_ops (NewSeenCache 5)) =
     [(0, ''a''), (2, ''b''), (8, ''a'')] \<and>
   sorted_wrt (\<lambda>(t, k) (u, l). k = l \<longrightarrow> sc_ttl (NewSeenCache 5) < u - t)
    (fst (dedup_run seen_Check seen_cleanup demo_ops (NewSeenCache 5)))"
proof -
  have "sorted (map fst demo_ops)" by (simp add: demo_ops_def)
  from seen_accepts_once_per_ttl [OF this, of "NewSeenCache 5"] show ?thesis
    by (simp add: demo_ops_def seen_defs)
qed

end
