(* ===== verification/KeyRing.thy ===== *)
theory KeyRing
  imports Prelude
begin

text \<open>
  The keyring of \<^verbatim>\<open>internal/gossip/keyring.go\<close>: public keys by node identifier, with the way each
  was learned. \<open>TrustLevel\<close> is ordered as the source's constants are (\<^verbatim>\<open>iota\<close>), so the smaller
  value is the stronger trust. The locale \<open>key_store\<close> is what the engine and the manager rely on;
  its facts describe arbitrary sequences of additions.
\<close>

section \<open>Operations\<close>

datatype TrustLevel = TrustDirectlyVerified | TrustGossipLearned

fun trust_rank :: "TrustLevel \<Rightarrow> nat" where
  "trust_rank TrustDirectlyVerified = 0"
| "trust_rank TrustGossipLearned = 1"

instantiation TrustLevel :: linorder
begin

definition less_eq_TrustLevel :: "TrustLevel \<Rightarrow> TrustLevel \<Rightarrow> bool" where
  "less_eq_TrustLevel a b \<longleftrightarrow> trust_rank a \<le> trust_rank b"

definition less_TrustLevel :: "TrustLevel \<Rightarrow> TrustLevel \<Rightarrow> bool" where
  "less_TrustLevel a b \<longleftrightarrow> trust_rank a < trust_rank b"

instance
proof
  fix a b :: TrustLevel
  show "a \<le> b \<Longrightarrow> b \<le> a \<Longrightarrow> a = b"
    by (cases a; cases b) (simp_all add: less_eq_TrustLevel_def)
qed (auto simp: less_eq_TrustLevel_def less_TrustLevel_def)

end

record KeyEntry =
  PubKey :: bytes
  ke_TrustLevel :: TrustLevel

record KeyRing =
  kr_keys :: "(node_id, KeyEntry) fmap"

definition NewKeyRing :: KeyRing where
  "NewKeyRing = \<lparr>kr_keys = fmempty\<rparr>"

definition kr_Add :: "node_id \<Rightarrow> bytes \<Rightarrow> TrustLevel \<Rightarrow> KeyRing \<Rightarrow> KeyRing" where
  "kr_Add nodeID pubKey trust kr =
     (case fmlookup (kr_keys kr) nodeID of
        Some existing \<Rightarrow>
          (if trust \<ge> ke_TrustLevel existing then kr
           else kr\<lparr>kr_keys := fmupd nodeID \<lparr>PubKey = pubKey, ke_TrustLevel = trust\<rparr> (kr_keys kr)\<rparr>)
      | None \<Rightarrow>
          kr\<lparr>kr_keys := fmupd nodeID \<lparr>PubKey = pubKey, ke_TrustLevel = trust\<rparr> (kr_keys kr)\<rparr>)"

definition kr_Lookup :: "node_id \<Rightarrow> KeyRing \<Rightarrow> KeyEntry option" where
  "kr_Lookup nodeID kr = fmlookup (kr_keys kr) nodeID"

definition kr_Remove :: "node_id \<Rightarrow> KeyRing \<Rightarrow> KeyRing" where
  "kr_Remove nodeID kr = kr\<lparr>kr_keys := fmdrop nodeID (kr_keys kr)\<rparr>"

definition kr_Len :: "KeyRing \<Rightarrow> nat" where
  "kr_Len kr = map_len (kr_keys kr)"

lemmas kr_defs = NewKeyRing_def kr_Add_def kr_Lookup_def kr_Remove_def kr_Len_def

lemma trust_le_simps [simp]:
  "TrustDirectlyVerified \<le> t" "t \<le> TrustGossipLearned"
  "TrustGossipLearned \<le> t \<longleftrightarrow> t = TrustGossipLearned"
  "t \<le> TrustDirectlyVerified \<longleftrightarrow> t = TrustDirectlyVerified"
  "\<not> t < TrustDirectlyVerified"
  by (cases t; simp add: less_eq_TrustLevel_def less_TrustLevel_def)+

section \<open>The contract of a key store\<close>

type_synonym key_add = "node_id \<times> bytes \<times> TrustLevel"

text \<open>
  The abstract content for one node after a sequence of additions: the first directly verified
  key, and the first key of all while none is directly verified.
\<close>

fun best_key :: "KeyEntry option \<Rightarrow> (bytes \<times> TrustLevel) list \<Rightarrow> KeyEntry option" where
  "best_key cur [] = cur"
| "best_key None ((k, t) # ks) = best_key (Some \<lparr>PubKey = k, ke_TrustLevel = t\<rparr>) ks"
| "best_key (Some e) ((k, t) # ks) =
     best_key (Some (if t < ke_TrustLevel e then \<lparr>PubKey = k, ke_TrustLevel = t\<rparr> else e)) ks"

locale key_store =
  fixes lookup :: "node_id \<Rightarrow> 's \<Rightarrow> KeyEntry option"
    and add :: "node_id \<Rightarrow> bytes \<Rightarrow> TrustLevel \<Rightarrow> 's \<Rightarrow> 's"
    and remove :: "node_id \<Rightarrow> 's \<Rightarrow> 's"
  assumes lookup_add_same: "lookup n (add n k t s) = best_key (lookup n s) [(k, t)]"
    and lookup_add_other: "n' \<noteq> n \<Longrightarrow> lookup n' (add n k t s) = lookup n' s"
    and lookup_remove: "lookup n' (remove n s) = (if n' = n then None else lookup n' s)"
begin

lemma lookup_adds:
  "lookup n (fold (\<lambda>(m, k, t). add m k t) adds s) =
     best_key (lookup n s) (map snd (filter (\<lambda>a. fst a = n) adds))"
proof (induction adds arbitrary: s)
  case (Cons a adds)
  obtain m k t where a: "a = (m, k, t)" by (cases a)
  have step: "best_key c ((k, t) # ks) = best_key (best_key c [(k, t)]) ks" for c ks
    by (cases c) simp_all
  show ?case
  proof (cases "m = n")
    case True
    then show ?thesis using Cons a by (simp add: lookup_add_same flip: step)
  next
    case False
    then show ?thesis using Cons a by (simp add: lookup_add_other)
  qed
qed simp

lemma add_keeps_direct:
  assumes "lookup n s = Some e" and "ke_TrustLevel e = TrustDirectlyVerified"
  shows "lookup n (add m k t s) = Some e"
  using assms lookup_add_same [of n k t s] lookup_add_other [of n m k t s]
  by (cases "m = n") simp_all

text \<open>A property of all stored bindings that every added binding has is preserved.\<close>

lemma bindings_add:
  assumes "\<forall>n e. lookup n s = Some e \<longrightarrow> B n (PubKey e)" and "B n k"
  shows "\<forall>m e. lookup m (add n k t s) = Some e \<longrightarrow> B m (PubKey e)"
proof (intro allI impI)
  fix m e assume "lookup m (add n k t s) = Some e"
  then show "B m (PubKey e)"
    using assms lookup_add_same [of n k t s] lookup_add_other [of m n k t s]
    by (cases "m = n"; cases "lookup n s") (auto split: if_splits)
qed

end

interpretation kr: key_store kr_Lookup kr_Add kr_Remove
  by unfold_locales
    (auto simp: kr_defs not_le [symmetric] split: option.splits)

section \<open>Lemmas\<close>

lemma best_key_direct:
  "ke_TrustLevel e = TrustDirectlyVerified \<Longrightarrow> best_key (Some e) ks = Some e"
  by (induction ks) auto

lemma best_key_learned:
  "best_key (Some \<lparr>PubKey = k, ke_TrustLevel = TrustGossipLearned\<rparr>) ks =
     Some (case filter (\<lambda>a. snd a = TrustDirectlyVerified) ks of
             [] \<Rightarrow> \<lparr>PubKey = k, ke_TrustLevel = TrustGossipLearned\<rparr>
           | (d, t) # _ \<Rightarrow> \<lparr>PubKey = d, ke_TrustLevel = TrustDirectlyVerified\<rparr>)"
proof (induction ks)
  case (Cons a ks)
  obtain d t where a: "a = (d, t)" by (cases a)
  show ?case using Cons a
    by (cases t) (simp_all add: best_key_direct less_TrustLevel_def)
qed simp

section \<open>Properties\<close>

text \<open>
  C38. What the keyring answers after any sequence of additions, starting empty: nothing for a
  node never added; otherwise the first directly verified key if there is one, and else the first
  key learned from gossip. In particular later additions never replace a directly verified key and
  gossip never replaces any key.
\<close>

theorem keyring_first_direct_else_first_learned:
  "kr_Lookup n (fold (\<lambda>(m, k, t). kr_Add m k t) adds NewKeyRing) =
     (case (map snd (filter (\<lambda>a. fst a = n \<and> snd (snd a) = TrustDirectlyVerified) adds),
            map snd (filter (\<lambda>a. fst a = n) adds)) of
        ((d, _) # _, _) \<Rightarrow> Some \<lparr>PubKey = d, ke_TrustLevel = TrustDirectlyVerified\<rparr>
      | ([], (k, _) # _) \<Rightarrow> Some \<lparr>PubKey = k, ke_TrustLevel = TrustGossipLearned\<rparr>
      | ([], []) \<Rightarrow> None)"
proof -
  define own where "own = map snd (filter (\<lambda>a. fst a = n) adds)"
  have dir: "map snd (filter (\<lambda>a. fst a = n \<and> snd (snd a) = TrustDirectlyVerified) adds) =
      filter (\<lambda>a. snd a = TrustDirectlyVerified) own"
    by (simp add: own_def filter_map o_def conj_commute flip: filter_filter)
  have "kr_Lookup n (fold (\<lambda>(m, k, t). kr_Add m k t) adds NewKeyRing) = best_key None own"
    unfolding kr.lookup_adds own_def by (simp add: kr_defs)
  also have "\<dots> =
      (case (filter (\<lambda>a. snd a = TrustDirectlyVerified) own, own) of
        ((d, _) # _, _) \<Rightarrow> Some \<lparr>PubKey = d, ke_TrustLevel = TrustDirectlyVerified\<rparr>
      | ([], (k, _) # _) \<Rightarrow> Some \<lparr>PubKey = k, ke_TrustLevel = TrustGossipLearned\<rparr>
      | ([], []) \<Rightarrow> None)"
  proof (cases own)
    case (Cons a ks)
    obtain k t where a: "a = (k, t)" by (cases a)
    show ?thesis
      using Cons a by (cases t) (auto simp: best_key_direct best_key_learned split: list.splits)
  qed simp
  finally show ?thesis unfolding dir own_def .
qed

end
