(* ===== verification/F64.thy ===== *)
theory F64
  imports Prelude "HOL-Library.Log_Nat"
begin

text \<open>
  IEEE 754 binary64 arithmetic, the \<^verbatim>\<open>float64\<close> of the rate limiter. A finite value is the rational
  number it denotes; \<open>f64_round\<close> rounds to the nearest rational with a 53-bit significand, ties
  to even, and every arithmetic operation rounds its exact result. Exponents are unbounded: the
  limiter's values stay between a billionth and the product of an elapsed time and a rate, far from
  the format's subnormal and overflow ranges.

  The facts the limiter's proofs use are monotonicity, exactness on short significands, the
  relative error bound, and that subtracting one is exact above one.
\<close>

section \<open>Rounding\<close>

definition round_half_even :: "rat \<Rightarrow> int" where
  "round_half_even x =
     (let f = \<lfloor>x\<rfloor>; d = x - of_int f
      in if d < 1 / 2 then f else if d > 1 / 2 then f + 1 else if even f then f else f + 1)"

text \<open>The binary exponent of a positive number, from the bit lengths of its numerator and denominator.\<close>

definition f64_exp :: "rat \<Rightarrow> int" where
  "f64_exp x =
     (let (p, q) = quotient_of x; e = bitlen p - bitlen q
      in if 2 powi e \<le> x then e else e - 1)"

definition f64_ulp :: "rat \<Rightarrow> rat" where
  "f64_ulp x = 2 powi (f64_exp x - 52)"

definition f64_round_pos :: "rat \<Rightarrow> rat" where
  "f64_round_pos x = of_int (round_half_even (x / f64_ulp x)) * f64_ulp x"

definition f64_round :: "rat \<Rightarrow> rat" where
  "f64_round x =
     (if x = 0 then 0 else if x < 0 then - f64_round_pos (- x) else f64_round_pos x)"

definition f64_add :: "rat \<Rightarrow> rat \<Rightarrow> rat" where "f64_add a b = f64_round (a + b)"
definition f64_sub :: "rat \<Rightarrow> rat \<Rightarrow> rat" where "f64_sub a b = f64_round (a - b)"
definition f64_mul :: "rat \<Rightarrow> rat \<Rightarrow> rat" where "f64_mul a b = f64_round (a * b)"
definition f64_div :: "rat \<Rightarrow> rat \<Rightarrow> rat" where "f64_div a b = f64_round (a / b)"

definition is_f64 :: "rat \<Rightarrow> bool" where
  "is_f64 x \<longleftrightarrow> f64_round x = x"

lemmas f64_op_defs = f64_add_def f64_sub_def f64_mul_def f64_div_def

section \<open>Rounding to an integer\<close>

lemma round_half_even_int [simp]: "round_half_even (of_int n) = n"
  by (simp add: round_half_even_def)

lemma round_half_even_error: "\<bar>of_int (round_half_even x) - x\<bar> \<le> 1 / 2"
proof -
  have "of_int \<lfloor>x\<rfloor> \<le> x" "x < of_int \<lfloor>x\<rfloor> + 1" by linarith+
  then show ?thesis by (auto simp: round_half_even_def Let_def)
qed

lemma round_half_even_mono:
  assumes "x \<le> y"
  shows "round_half_even x \<le> round_half_even y"
proof (cases "\<lfloor>x\<rfloor> = \<lfloor>y\<rfloor>")
  case True
  then show ?thesis using assms by (auto simp: round_half_even_def Let_def)
next
  case False
  then have "\<lfloor>x\<rfloor> + 1 \<le> \<lfloor>y\<rfloor>" using floor_mono [OF assms] by simp
  moreover have "round_half_even x \<le> \<lfloor>x\<rfloor> + 1" "\<lfloor>y\<rfloor> \<le> round_half_even y"
    by (simp_all add: round_half_even_def Let_def)
  ultimately show ?thesis by simp
qed

lemma round_half_even_bounds:
  "of_int a \<le> x \<Longrightarrow> a \<le> round_half_even x" "x \<le> of_int b \<Longrightarrow> round_half_even x \<le> b"
  using round_half_even_mono [of "of_int a" x] round_half_even_mono [of x "of_int b"] by simp_all

section \<open>Binary exponents\<close>

lemma powi2_less: "(2::rat) powi a < 2 powi b \<longleftrightarrow> a < b"
  using power_int_strict_increasing [of a b "2::rat"] power_int_increasing [of b a "2::rat"]
  by (meson linorder_not_less not_less one_less_numeral_iff semiring_norm(76) one_le_numeral)

lemma powi2_le: "(2::rat) powi a \<le> 2 powi b \<longleftrightarrow> a \<le> b"
  by (simp add: powi2_less flip: not_less)

lemma powi2_pos [simp]: "0 < (2::rat) powi a"
  by (simp add: zero_less_power_int)

lemma bitlen_powi:
  assumes "0 < (p::int)"
  shows "2 powi (bitlen p - 1) \<le> (of_int p :: rat)" and "(of_int p :: rat) < 2 powi (bitlen p)"
proof -
  have n: "0 \<le> bitlen p - 1" using assms by (simp add: bitlen_alt_def)
  have "2 ^ nat (bitlen p - 1) \<le> p" "p < 2 ^ nat (bitlen p)" using bitlen_bounds [OF assms] by simp_all
  then have "of_int (2 ^ nat (bitlen p - 1)) \<le> (of_int p :: rat)"
    "(of_int p :: rat) < of_int (2 ^ nat (bitlen p))" by (simp_all only: of_int_le_iff of_int_less_iff)
  then show "2 powi (bitlen p - 1) \<le> (of_int p :: rat)" "(of_int p :: rat) < 2 powi (bitlen p)"
    using n by (simp_all add: power_int_nonneg_exp)
qed

lemma f64_exp_bounds:
  assumes "0 < x"
  shows "2 powi f64_exp x \<le> x" and "x < 2 powi (f64_exp x + 1)"
proof -
  obtain p q where pq: "quotient_of x = (p, q)" by (cases "quotient_of x")
  have q: "0 < q" by (rule quotient_of_denom_pos [OF pq])
  have x: "x = of_int p / of_int q" by (rule quotient_of_div [OF pq])
  have p: "0 < p" using assms q by (simp add: x zero_less_divide_iff)
  let ?a = "bitlen p" and ?b = "bitlen q"
  have "x < 2 powi ?a / 2 powi (?b - 1)"
    unfolding x using bitlen_powi [OF p] bitlen_powi [OF q] p q
    by (intro frac_less) (simp_all add: less_imp_le)
  also have "\<dots> = 2 powi (?a - ?b + 1)"
    by (simp add: power_int_diff [symmetric] algebra_simps)
  finally have hi: "x < 2 powi (?a - ?b + 1)" .
  have "2 powi (?a - ?b - 1) = (2::rat) powi (?a - 1) / 2 powi ?b"
    by (simp add: power_int_diff [symmetric] algebra_simps)
  also have "\<dots> \<le> x"
    unfolding x using bitlen_powi [OF p] bitlen_powi [OF q] p q
    by (intro frac_le) (simp_all add: less_imp_le)
  finally have lo: "2 powi (?a - ?b - 1) \<le> x" .
  show "2 powi f64_exp x \<le> x" "x < 2 powi (f64_exp x + 1)"
    using hi lo by (auto simp: f64_exp_def pq Let_def)
qed

lemma f64_exp_unique:
  assumes "2 powi e \<le> x" and "x < 2 powi (e + 1)"
  shows "f64_exp x = e"
proof -
  have "0 < x" using assms(1) powi2_pos [of e] by linarith
  note b = f64_exp_bounds [OF this]
  have "(2::rat) powi e < 2 powi (f64_exp x + 1)" using assms(1) b(2) by simp
  moreover have "(2::rat) powi f64_exp x < 2 powi (e + 1)" using assms(2) b(1) by simp
  ultimately show ?thesis by (simp add: powi2_less)
qed

lemma f64_exp_mono: "0 < x \<Longrightarrow> x \<le> y \<Longrightarrow> f64_exp x \<le> f64_exp y"
proof -
  assume x: "0 < x" "x \<le> y"
  have "(2::rat) powi f64_exp x < 2 powi (f64_exp y + 1)"
    using f64_exp_bounds [of x] f64_exp_bounds [of y] x by linarith
  then show ?thesis by (simp add: powi2_less)
qed

lemma f64_ulp_pos [simp]: "0 < f64_ulp x"
  by (simp add: f64_ulp_def)

lemma f64_ulp_nz [simp]: "f64_ulp x \<noteq> 0"
  using f64_ulp_pos [of x] by linarith

lemma powi2_shift: "(2::rat) powi a * 2 ^ n = 2 powi (a + int n)"
  by (simp add: power_int_add)

lemma f64_ulp_scale:
  "f64_ulp x * 2 ^ 52 = 2 powi f64_exp x" "f64_ulp x * 2 ^ 53 = 2 powi (f64_exp x + 1)"
  unfolding f64_ulp_def powi2_shift by (simp_all add: add.commute)

section \<open>Rounding a number\<close>

lemma f64_round_pos_bounds:
  assumes "0 < x"
  shows "2 powi f64_exp x \<le> f64_round_pos x" and "f64_round_pos x \<le> 2 powi (f64_exp x + 1)"
proof -
  have lo: "of_int (2 ^ 52) \<le> x / f64_ulp x"
    using f64_exp_bounds(1) [OF assms] f64_ulp_scale(1) [of x] by (simp add: field_simps)
  have hi: "x / f64_ulp x \<le> of_int (2 ^ 53)"
    using f64_exp_bounds(2) [OF assms] f64_ulp_scale(2) [of x]
    by (simp add: divide_le_eq mult.commute)
  have "of_int (2 ^ 52) \<le> (of_int (round_half_even (x / f64_ulp x)) :: rat)"
    using round_half_even_bounds(1) [OF lo] by (simp only: of_int_le_iff)
  then have "of_int (2 ^ 52) * f64_ulp x \<le> f64_round_pos x"
    unfolding f64_round_pos_def by (rule mult_right_mono) (simp add: less_imp_le)
  then show "2 powi f64_exp x \<le> f64_round_pos x"
    using f64_ulp_scale(1) [of x] by (simp add: mult.commute)
  have "(of_int (round_half_even (x / f64_ulp x)) :: rat) \<le> of_int (2 ^ 53)"
    using round_half_even_bounds(2) [OF hi] by (simp only: of_int_le_iff)
  then have "f64_round_pos x \<le> of_int (2 ^ 53) * f64_ulp x"
    unfolding f64_round_pos_def by (rule mult_right_mono) (simp add: less_imp_le)
  then show "f64_round_pos x \<le> 2 powi (f64_exp x + 1)"
    using f64_ulp_scale(2) [of x] by (simp add: mult.commute)
qed

lemma f64_round_pos_pos: "0 < x \<Longrightarrow> 0 < f64_round_pos x"
  using f64_round_pos_bounds(1) [of x] powi2_pos [of "f64_exp x"] by linarith

lemma f64_round_pos_mono:
  assumes "0 < x" and "x \<le> y"
  shows "f64_round_pos x \<le> f64_round_pos y"
proof (cases "f64_exp x = f64_exp y")
  case True
  then have u: "f64_ulp x = f64_ulp y" by (simp add: f64_ulp_def)
  have "x / f64_ulp y \<le> y / f64_ulp y" using assms(2) by (simp add: divide_right_mono less_imp_le)
  then have "round_half_even (x / f64_ulp y) \<le> round_half_even (y / f64_ulp y)"
    by (rule round_half_even_mono)
  then show ?thesis by (simp add: f64_round_pos_def u)
next
  case False
  then have "f64_exp x + 1 \<le> f64_exp y" using f64_exp_mono [OF assms] by simp
  then have "(2::rat) powi (f64_exp x + 1) \<le> 2 powi f64_exp y" by (simp add: powi2_le)
  then show ?thesis
    using f64_round_pos_bounds(2) [OF assms(1)] f64_round_pos_bounds(1) [of y] assms by linarith
qed

lemma f64_round_0 [simp]: "f64_round 0 = 0"
  by (simp add: f64_round_def)

lemma f64_round_minus: "f64_round (- x) = - f64_round x"
  by (auto simp: f64_round_def)

lemma f64_round_nonneg: "0 \<le> x \<Longrightarrow> 0 \<le> f64_round x"
  using f64_round_pos_pos [of x] by (auto simp: f64_round_def)

lemma f64_round_mono:
  assumes "x \<le> y"
  shows "f64_round x \<le> f64_round y"
proof -
  consider "0 < x" | "x \<le> 0" "0 \<le> y" | "y < 0" using assms by linarith
  then show ?thesis
  proof cases
    case 1
    then show ?thesis using assms f64_round_pos_mono [of x y] by (simp add: f64_round_def)
  next
    case 2
    have "0 \<le> f64_round y" "0 \<le> f64_round (- x)" using 2 by (simp_all add: f64_round_nonneg)
    then show ?thesis by (simp add: f64_round_minus)
  next
    case 3
    then show ?thesis using assms f64_round_pos_mono [of "- y" "- x"] by (simp add: f64_round_def)
  qed
qed

text \<open>The relative error of one rounding, of a non-negative number.\<close>

definition f64_eps :: rat where "f64_eps = 1 / 2 ^ 53"

lemma f64_eps_pos [simp]: "0 < f64_eps"
  by (simp add: f64_eps_def)

lemma f64_round_le:
  assumes "0 \<le> x"
  shows "f64_round x \<le> x * (1 + f64_eps)"
proof (cases "x = 0")
  case False
  then have x: "0 < x" using assms by simp
  have "of_int (round_half_even (x / f64_ulp x)) \<le> x / f64_ulp x + 1 / 2"
    using round_half_even_error [of "x / f64_ulp x"] by linarith
  then have "f64_round_pos x \<le> (x / f64_ulp x + 1 / 2) * f64_ulp x"
    unfolding f64_round_pos_def by (simp add: mult_right_mono less_imp_le)
  also have "\<dots> = x + f64_ulp x / 2"
    using f64_ulp_pos [of x] by (simp add: field_simps)
  also have "\<dots> \<le> x + x * f64_eps"
    using f64_exp_bounds(1) [OF x] f64_ulp_scale(1) [of x] by (simp add: f64_eps_def field_simps)
  finally show ?thesis using x by (simp add: f64_round_def algebra_simps)
qed simp

section \<open>Exact results\<close>

lemma f64_round_dyadic:
  assumes "0 \<le> m" and "m \<le> 2 ^ 53"
  shows "f64_round (of_int m * 2 powi k) = of_int m * 2 powi k"
proof (cases "m = 0")
  case False
  define x where "x = (of_int m :: rat) * 2 powi k"
  have x: "0 < x" using assms(1) False by (simp add: x_def)
  have "(of_int m :: rat) \<le> of_int (2 ^ 53)" using assms(2) by (simp only: of_int_le_iff)
  then have "x \<le> 2 ^ 53 * 2 powi k" by (simp add: x_def mult_right_mono less_imp_le)
  then have "x \<le> 2 powi (k + 53)" using powi2_shift [of k 53] by (simp add: mult.commute)
  then have "(2::rat) powi f64_exp x \<le> 2 powi (k + 53)" using f64_exp_bounds(1) [OF x] by simp
  then have e: "f64_exp x \<le> k + 53" by (simp add: powi2_le)
  have "\<exists>n. x / f64_ulp x = of_int n"
  proof (cases "f64_exp x = k + 53")
    case True
    then have "x = 2 powi (k + 53)"
      using f64_exp_bounds(1) [OF x] \<open>x \<le> 2 powi (k + 53)\<close> by simp
    then have "x = f64_ulp x * 2 ^ 52" using f64_ulp_scale(1) [of x] True by simp
    then have "x / f64_ulp x = of_int (2 ^ 52)"
      by (metis f64_ulp_nz nonzero_mult_div_cancel_left of_int_numeral of_int_power)
    then show ?thesis by blast
  next
    case False
    define j where "j = nat (k - (f64_exp x - 52))"
    have "k = f64_exp x - 52 + int j" using e False by (simp add: j_def)
    then have "(2::rat) powi k = f64_ulp x * 2 ^ j"
      unfolding f64_ulp_def powi2_shift by simp
    with x_def have "x = of_int m * (f64_ulp x * 2 ^ j)" by simp
    then have "x = f64_ulp x * of_int (m * 2 ^ j)" by (simp only: of_int_mult of_int_power of_int_numeral mult.left_commute)
    then have "x / f64_ulp x = of_int (m * 2 ^ j)"
      by (metis f64_ulp_nz nonzero_mult_div_cancel_left)
    then show ?thesis by blast
  qed
  then obtain n where n: "x / f64_ulp x = of_int n" by blast
  have "f64_round_pos x = of_int n * f64_ulp x" by (simp add: f64_round_pos_def n)
  also have "\<dots> = x" using n f64_ulp_pos [of x] by (simp add: field_simps)
  finally show ?thesis using x by (simp add: f64_round_def flip: x_def)
qed simp

lemma f64_round_int: "\<bar>n\<bar> \<le> 2 ^ 53 \<Longrightarrow> f64_round (of_int n) = of_int n"
  using f64_round_dyadic [of n 0] f64_round_dyadic [of "- n" 0] f64_round_minus [of "of_int n"]
  by (cases "0 \<le> n") simp_all

lemma f64_round_shape:
  assumes "0 < x"
  obtains n where "f64_round x = of_int n * f64_ulp x" "0 \<le> n" "n \<le> 2 ^ 53"
proof
  let ?n = "round_half_even (x / f64_ulp x)"
  show r: "f64_round x = of_int ?n * f64_ulp x" using assms by (simp add: f64_round_def f64_round_pos_def)
  have "of_int 0 \<le> x / f64_ulp x" using assms by (simp add: less_imp_le)
  then show "0 \<le> ?n" by (rule round_half_even_bounds)
  have "x / f64_ulp x \<le> of_int (2 ^ 53)"
    using f64_exp_bounds(2) [OF assms] f64_ulp_scale(2) [of x]
    by (simp add: divide_le_eq mult.commute)
  then show "?n \<le> 2 ^ 53" by (rule round_half_even_bounds)
qed

lemma is_f64_round [simp]: "is_f64 (f64_round x)"
proof -
  have "is_f64 (f64_round y)" if y: "0 < y" for y
  proof -
    obtain n where n: "f64_round y = of_int n * f64_ulp y" "0 \<le> n" "n \<le> 2 ^ 53"
      using f64_round_shape [OF y] by blast
    then show ?thesis using f64_round_dyadic [of n "f64_exp y - 52"]
      by (simp add: is_f64_def f64_ulp_def)
  qed
  from this [of x] this [of "- x"] show ?thesis
    by (cases "x = 0"; cases "x < 0") (auto simp: is_f64_def f64_round_minus)
qed

lemma is_f64_int: "\<bar>n\<bar> \<le> 2 ^ 53 \<Longrightarrow> is_f64 (of_int n)"
  by (simp add: is_f64_def f64_round_int)

lemma is_f64_sub_one:
  assumes "is_f64 t" and "1 \<le> t" and "t < 2 ^ 52"
  shows "f64_round (t - 1) = t - 1"
proof -
  have t: "0 < t" using assms(2) by simp
  obtain n where n: "t = of_int n * f64_ulp t" "0 \<le> n" "n \<le> 2 ^ 53"
    using f64_round_shape [OF t] assms(1) unfolding is_f64_def by metis
  have "(2::rat) powi f64_exp t < 2 powi 52"
    using f64_exp_bounds(1) [OF t] assms(3) by simp
  then have "f64_exp t < 52" by (simp only: powi2_less)
  define j where "j = nat (52 - f64_exp t)"
  have j: "f64_exp t - 52 + int j = 0" using \<open>f64_exp t < 52\<close> by (simp add: j_def)
  have one: "1 = (2 ^ j :: rat) * f64_ulp t"
    using powi2_shift [of "f64_exp t - 52" j] j by (simp add: f64_ulp_def mult.commute)
  have eq: "t - 1 = of_int (n - 2 ^ j) * f64_ulp t"
    using n(1) one by (simp add: algebra_simps)
  have "0 \<le> of_int (n - 2 ^ j) * f64_ulp t" using assms(2) unfolding eq [symmetric] by simp
  then have "0 \<le> (of_int (n - 2 ^ j) :: rat)" using f64_ulp_pos [of t]
    by (simp only: zero_le_mult_iff) linarith
  then have "0 \<le> n - 2 ^ j" by (simp only: of_int_0_le_iff)
  moreover have "n - 2 ^ j \<le> 2 ^ 53" using n(3) zero_le_power [of "2::int" j] by linarith
  ultimately show ?thesis
    unfolding eq f64_ulp_def by (rule f64_round_dyadic)
qed

lemma is_f64_double:
  assumes "is_f64 t" and "0 < t"
  shows "f64_round (t * 2) = t * 2"
proof -
  obtain n where n: "t = of_int n * f64_ulp t" "0 \<le> n" "n \<le> 2 ^ 53"
    using f64_round_shape [OF assms(2)] assms(1) unfolding is_f64_def by metis
  have "f64_ulp t * 2 = 2 powi (f64_exp t - 52 + 1)"
    using powi2_shift [of "f64_exp t - 52" 1] by (simp add: f64_ulp_def)
  then have eq: "t * 2 = of_int n * 2 powi (f64_exp t - 52 + 1)"
    using n(1) by (metis mult.assoc)
  show ?thesis unfolding eq by (rule f64_round_dyadic [OF n(2,3)])
qed

lemma f64_round_ge: "is_f64 a \<Longrightarrow> a \<le> x \<Longrightarrow> a \<le> f64_round x"
  using f64_round_mono [of a x] by (simp add: is_f64_def)

end
