(* ===== verification/RateLimiter.thy ===== *)
theory RateLimiter
  imports F64
begin

text \<open>
  The token bucket of \<^verbatim>\<open>internal/gossip/ratelimit.go\<close>, one bucket per sender, over binary64
  arithmetic. \<open>rl_run\<close> runs a sequence of timed calls by arbitrary senders and cleanups; the main facts
  bound what one sender is granted within any window of such a run and show that the periodic cleanup
  of idle senders changes no decision. The bound is an amortised one: the potential of a sender is what its
  bucket holds once it is refilled, never more than the burst.
\<close>

section \<open>Operations\<close>

record senderState =
  tokens :: rat
  lastCheck :: instant

record RateLimiter =
  rl_senders :: "(string, senderState) fmap"
  maxPerSec :: rat
  burst :: rat

definition NewRateLimiter :: "rat \<Rightarrow> RateLimiter" where
  "NewRateLimiter m = \<lparr>rl_senders = fmempty, maxPerSec = m, burst = f64_mul m 2\<rparr>"

text \<open>\<^verbatim>\<open>Duration.Seconds\<close>: whole seconds and the remaining nanoseconds are converted separately.\<close>

definition Seconds :: "duration \<Rightarrow> rat" where
  "Seconds d =
     (let sec = sgn d * (\<bar>d\<bar> div Second); nsec = d - sec * Second
      in f64_add (f64_round (of_int sec)) (f64_div (f64_round (of_int nsec)) (of_int Second)))"

definition rl_Allow :: "string \<Rightarrow> instant \<Rightarrow> RateLimiter \<Rightarrow> bool \<times> RateLimiter" where
  "rl_Allow senderID now r =
     (case fmlookup (rl_senders r) senderID of
        None \<Rightarrow>
          (True, r\<lparr>rl_senders :=
             fmupd senderID \<lparr>tokens = f64_sub (burst r) 1, lastCheck = now\<rparr> (rl_senders r)\<rparr>)
      | Some state \<Rightarrow>
          (let elapsed = Seconds (now - lastCheck state);
               t = f64_add (tokens state) (f64_mul elapsed (maxPerSec r));
               t' = (if t > burst r then burst r else t)
           in if t' \<ge> 1 then
                (True, r\<lparr>rl_senders :=
                   fmupd senderID \<lparr>tokens = f64_sub t' 1, lastCheck = now\<rparr> (rl_senders r)\<rparr>)
              else
                (False, r\<lparr>rl_senders :=
                   fmupd senderID \<lparr>tokens = t', lastCheck = now\<rparr> (rl_senders r)\<rparr>)))"

definition rl_cleanup :: "instant \<Rightarrow> RateLimiter \<Rightarrow> RateLimiter" where
  "rl_cleanup now r =
     (let cutoff = now - 5 * Minute
      in r\<lparr>rl_senders := map_sweep (\<lambda>state. lastCheck state < cutoff) (rl_senders r)\<rparr>)"

definition rl_CleanupLoop :: "instant list \<Rightarrow> RateLimiter \<Rightarrow> RateLimiter" where
  "rl_CleanupLoop ticks r = fold rl_cleanup ticks r"

text \<open>A sequence of timed calls and cleanups: who was granted what.\<close>

datatype rl_op = AllowOp string | CleanupOp

fun rl_run :: "(instant \<times> rl_op) list \<Rightarrow> RateLimiter \<Rightarrow> (string \<times> bool) list \<times> RateLimiter" where
  "rl_run [] r = ([], r)"
| "rl_run ((t, AllowOp s) # ops) r =
     (let (ok, r1) = rl_Allow s t r; (res, r2) = rl_run ops r1 in ((s, ok) # res, r2))"
| "rl_run ((t, CleanupOp) # ops) r = rl_run ops (rl_cleanup t r)"

definition granted :: "string \<Rightarrow> (string \<times> bool) list \<Rightarrow> nat" where
  "granted s res = length (filter (\<lambda>x. x = (s, True)) res)"

section \<open>Invariant\<close>

text \<open>
  A limiter as \<^verbatim>\<open>NewRateLimiter\<close> makes it for a rate of at least one message per second, and
  buckets that hold between zero and \<^verbatim>\<open>burst\<close> tokens.
\<close>

definition limiter_wf :: "RateLimiter \<Rightarrow> bool" where
  "limiter_wf r \<longleftrightarrow> 1 \<le> maxPerSec r \<and> maxPerSec r < 2 ^ 50 \<and> is_f64 (maxPerSec r) \<and>
     burst r = maxPerSec r * 2"

definition limiter_inv :: "RateLimiter \<Rightarrow> bool" where
  "limiter_inv r \<longleftrightarrow> limiter_wf r \<and>
     (\<forall>s st. fmlookup (rl_senders r) s = Some st \<longrightarrow>
        is_f64 (tokens st) \<and> 0 \<le> tokens st \<and> tokens st \<le> burst r)"

text \<open>No bucket was refreshed after the given instant.\<close>

definition limiter_until :: "instant \<Rightarrow> RateLimiter \<Rightarrow> bool" where
  "limiter_until now r \<longleftrightarrow>
     (\<forall>s st. fmlookup (rl_senders r) s = Some st \<longrightarrow> lastCheck st \<le> now)"

text \<open>The bucket's level after the refill, before a token is taken.\<close>

definition refilled :: "RateLimiter \<Rightarrow> instant \<Rightarrow> senderState \<Rightarrow> rat" where
  "refilled r now st =
     (let t = f64_add (tokens st) (f64_mul (Seconds (now - lastCheck st)) (maxPerSec r))
      in if t > burst r then burst r else t)"

lemma rl_Allow_unfold:
  "rl_Allow s now r =
     (case fmlookup (rl_senders r) s of
        None \<Rightarrow> (True, r\<lparr>rl_senders :=
             fmupd s \<lparr>tokens = f64_sub (burst r) 1, lastCheck = now\<rparr> (rl_senders r)\<rparr>)
      | Some st \<Rightarrow> (1 \<le> refilled r now st, r\<lparr>rl_senders :=
             fmupd s \<lparr>tokens = (if 1 \<le> refilled r now st then f64_sub (refilled r now st) 1
                                 else refilled r now st), lastCheck = now\<rparr> (rl_senders r)\<rparr>))"
  by (auto simp: rl_Allow_def refilled_def Let_def split: option.splits)

lemma rl_Allow_params [frame_simps, simp]:
  "maxPerSec (snd (rl_Allow s now r)) = maxPerSec r" "burst (snd (rl_Allow s now r)) = burst r"
  by (simp_all add: rl_Allow_unfold split: option.splits)

lemma rl_Allow_other [simp]:
  "s' \<noteq> s \<Longrightarrow> fmlookup (rl_senders (snd (rl_Allow s now r))) s' = fmlookup (rl_senders r) s'"
  by (auto simp: rl_Allow_unfold split: option.splits)

lemma limiter_wf_Allow [simp]: "limiter_wf (snd (rl_Allow s now r)) = limiter_wf r"
  by (simp add: limiter_wf_def)

section \<open>Elapsed seconds\<close>

lemma Seconds_0 [simp]: "Seconds 0 = 0"
  by (simp add: Seconds_def f64_op_defs)

lemma second_parts:
  fixes d :: int
  assumes "0 \<le> d"
  shows "sgn d * (\<bar>d\<bar> div Second) = d div Second" "d - d div Second * Second = d mod Second"
  using assms by (auto simp: sgn_if minus_div_mult_eq_mod)

lemma Seconds_alt:
  assumes "0 \<le> d"
  shows "Seconds d = f64_round (f64_round (of_int (d div Second)) +
    f64_round (of_int (d mod Second) / of_int Second))"
proof -
  have "0 \<le> d mod Second" "d mod Second < Second" by (simp_all add: Second_def)
  then have "f64_round (of_int (d mod Second)) = of_int (d mod Second)"
    by (intro f64_round_int) (simp add: Second_def)
  then show ?thesis
    unfolding Seconds_def Let_def f64_op_defs second_parts [OF assms] by simp
qed

lemma Seconds_ge:
  assumes "int n * Second \<le> d" and "n \<le> 2 ^ 53"
  shows "of_nat n \<le> Seconds d"
proof -
  have n: "is_f64 (of_int (int n))" using assms(2)
    by (intro is_f64_int) (simp flip: of_nat_power)
  have d: "0 \<le> d" using assms(1) unfolding Second_def by linarith
  have "int n \<le> d div Second"
    using assms(1) by (simp add: Second_def zdiv_mono1 [of "int n * 1000000000" d 1000000000, simplified])
  then have "(of_int (int n) :: rat) \<le> of_int (d div Second)" by (simp only: of_int_le_iff)
  then have "of_int (int n) \<le> f64_round (of_int (d div Second))" by (rule f64_round_ge [OF n])
  moreover have "0 \<le> f64_round (of_int (d mod Second) / of_int Second)"
    by (intro f64_round_nonneg divide_nonneg_nonneg) (simp_all add: Second_def)
  ultimately have "of_int (int n) \<le> Seconds d"
    unfolding Seconds_alt [OF d] by (intro f64_round_ge [OF n]) simp
  then show ?thesis by simp
qed

lemma Seconds_nonneg: "0 \<le> d \<Longrightarrow> 0 \<le> Seconds d"
  using Seconds_ge [of 0 d] by simp

lemma Seconds_le:
  assumes "0 \<le> d"
  shows "Seconds d \<le> of_int d / of_int Second * (1 + f64_eps) ^ 2"
proof -
  let ?s = "of_int (d div Second) :: rat" and ?n = "of_int (d mod Second) / of_int Second :: rat"
  have nn: "0 \<le> ?s" "0 \<le> ?n" using assms by (simp_all add: Second_def pos_imp_zdiv_nonneg_iff)
  have "f64_round ?s + f64_round ?n \<le> ?s * (1 + f64_eps) + ?n * (1 + f64_eps)"
    using nn by (intro add_mono f64_round_le)
  also have "\<dots> = (?s + ?n) * (1 + f64_eps)" by (simp only: distrib_right)
  also have "?s + ?n = of_int d / of_int Second"
  proof -
    have "of_int d = (of_int (d div Second * Second + d mod Second) :: rat)" by simp
    then have "(of_int d :: rat) = ?s * of_int Second + of_int (d mod Second)"
      by (simp only: of_int_add of_int_mult)
    then show ?thesis by (simp add: Second_def field_simps)
  qed
  finally have le: "f64_round ?s + f64_round ?n \<le> of_int d / of_int Second * (1 + f64_eps)" .
  have "Seconds d \<le> (f64_round ?s + f64_round ?n) * (1 + f64_eps)"
    unfolding Seconds_alt [OF assms] using nn by (intro f64_round_le) (simp add: f64_round_nonneg)
  also have "\<dots> \<le> of_int d / of_int Second * (1 + f64_eps) * (1 + f64_eps)"
    using le by (intro mult_right_mono) (simp_all add: less_imp_le add_nonneg_nonneg)
  finally show ?thesis by (simp only: power2_eq_square mult.assoc)
qed

section \<open>The refill\<close>

lemma limiter_invD:
  assumes "limiter_inv r" and "fmlookup (rl_senders r) s = Some st"
  shows "is_f64 (tokens st)" "0 \<le> tokens st" "tokens st \<le> burst r"
  using assms by (auto simp: limiter_inv_def)

lemma limiter_wfD:
  assumes "limiter_wf r"
  shows "1 \<le> maxPerSec r" "2 \<le> burst r" "burst r < 2 ^ 51" "is_f64 (burst r)"
    "burst r = maxPerSec r * 2"
  using assms is_f64_double [of "maxPerSec r"] by (auto simp: limiter_wf_def is_f64_def)

lemma refill_nonneg:
  assumes "limiter_wf r" and "lastCheck st \<le> now"
  shows "0 \<le> f64_mul (Seconds (now - lastCheck st)) (maxPerSec r)"
  using assms Seconds_nonneg [of "now - lastCheck st"] limiter_wfD(1) [OF assms(1)]
  unfolding f64_mul_def by (intro f64_round_nonneg mult_nonneg_nonneg) simp_all

lemma refilled_bounds:
  assumes "limiter_wf r" and "is_f64 (tokens st)" and "0 \<le> tokens st" and "tokens st \<le> burst r"
    and "lastCheck st \<le> now"
  shows "tokens st \<le> refilled r now st" "refilled r now st \<le> burst r" "is_f64 (refilled r now st)"
proof -
  let ?t = "f64_add (tokens st) (f64_mul (Seconds (now - lastCheck st)) (maxPerSec r))"
  have "tokens st \<le> ?t"
    using refill_nonneg [OF assms(1,5)] unfolding f64_add_def
    by (intro f64_round_ge [OF assms(2)]) simp
  then show "tokens st \<le> refilled r now st" "refilled r now st \<le> burst r"
    using assms(4) by (simp_all add: refilled_def Let_def)
  show "is_f64 (refilled r now st)"
    using limiter_wfD(4) [OF assms(1)] by (simp add: refilled_def Let_def f64_add_def)
qed

lemma take_token:
  assumes "limiter_wf r" and "is_f64 x" and "1 \<le> x" and "x \<le> burst r"
  shows "f64_sub x 1 = x - 1"
  using is_f64_sub_one [of x] assms limiter_wfD(3) [OF assms(1)] by (simp add: f64_sub_def)

text \<open>The level after a call and whether it was granted add up to the refilled level.\<close>

lemma rl_Allow_known:
  assumes "limiter_inv r" and "fmlookup (rl_senders r) s = Some st" and "lastCheck st \<le> now"
  shows "rl_Allow s now r =
    (1 \<le> refilled r now st, r\<lparr>rl_senders := fmupd s
       \<lparr>tokens = refilled r now st - (if 1 \<le> refilled r now st then 1 else 0),
        lastCheck = now\<rparr> (rl_senders r)\<rparr>)"
proof -
  have wf: "limiter_wf r" using assms(1) by (simp add: limiter_inv_def)
  note st = limiter_invD [OF assms(1,2)]
  note rb = refilled_bounds [OF wf st assms(3)]
  show ?thesis
    using take_token [OF wf rb(3) _ rb(2)] assms(2) by (simp add: rl_Allow_unfold)
qed

lemma rl_Allow_unknown:
  assumes "limiter_wf r" and "fmlookup (rl_senders r) s = None"
  shows "rl_Allow s now r = (True, r\<lparr>rl_senders := fmupd s
    \<lparr>tokens = burst r - 1, lastCheck = now\<rparr> (rl_senders r)\<rparr>)"
  using take_token [OF assms(1), of "burst r"] limiter_wfD [OF assms(1)] assms(2)
  by (simp add: rl_Allow_unfold)

lemma limiter_inv_Allow [inv_intros]:
  assumes "limiter_inv r" and "limiter_until now r"
  shows "limiter_inv (snd (rl_Allow s now r))"
proof (cases "fmlookup (rl_senders r) s")
  case None
  have wf: "limiter_wf r" using assms(1) by (simp add: limiter_inv_def)
  have "is_f64 (burst r - 1)"
    using is_f64_sub_one [OF limiter_wfD(4) [OF wf]] limiter_wfD [OF wf] by (simp add: is_f64_def)
  then show ?thesis
    using assms(1) rl_Allow_unknown [OF wf None] limiter_wfD [OF wf]
    by (auto simp: limiter_inv_def limiter_wf_def)
next
  case (Some st)
  have wf: "limiter_wf r" using assms(1) by (simp add: limiter_inv_def)
  have old: "lastCheck st \<le> now" using assms(2) Some by (auto simp: limiter_until_def)
  note st = limiter_invD [OF assms(1) Some]
  note rb = refilled_bounds [OF wf st old]
  have "is_f64 (refilled r now st - 1)" if "1 \<le> refilled r now st"
    using is_f64_sub_one [OF rb(3) that] rb(2) limiter_wfD(3) [OF wf] by (simp add: is_f64_def)
  then show ?thesis
    using assms(1) rl_Allow_known [OF assms(1) Some old] rb st
    by (auto simp: limiter_inv_def limiter_wf_def)
qed

lemma limiter_until_Allow [inv_intros]:
  "limiter_until now r \<Longrightarrow> limiter_until now (snd (rl_Allow s now r))"
  by (auto simp: limiter_until_def rl_Allow_unfold split: option.splits if_splits)

lemma limiter_until_mono: "limiter_until t r \<Longrightarrow> t \<le> u \<Longrightarrow> limiter_until u r"
  unfolding limiter_until_def by (meson order_trans)

lemma limiter_cleanup [inv_intros]:
  "limiter_inv r \<Longrightarrow> limiter_inv (rl_cleanup t r)"
  "limiter_until now r \<Longrightarrow> limiter_until now (rl_cleanup t r)"
  by (auto simp: limiter_inv_def limiter_wf_def limiter_until_def rl_cleanup_def Let_def
      split: option.splits if_splits)

lemma limiter_inv_New:
  assumes "1 \<le> m" and "m < 2 ^ 50" and "is_f64 m"
  shows "limiter_inv (NewRateLimiter m)" "limiter_until t (NewRateLimiter m)"
  using assms is_f64_double [of m]
  by (simp_all add: limiter_inv_def limiter_wf_def limiter_until_def NewRateLimiter_def f64_mul_def)

lemma error_terms:
  "(t + d * e ^ 2 * m * e) * e = t * e + m * e ^ 4 * (d :: rat)"
  by (simp add: algebra_simps power2_eq_square power4_eq_xxxx)

lemma refilled_le:
  assumes "limiter_inv r" and "fmlookup (rl_senders r) s = Some st" and "lastCheck st \<le> now"
  shows "refilled r now st \<le> tokens st + burst r * f64_eps +
    maxPerSec r * (1 + f64_eps) ^ 4 * (of_int (now - lastCheck st) / of_int Second)"
proof -
  have wf: "limiter_wf r" using assms(1) by (simp add: limiter_inv_def)
  note st = limiter_invD [OF assms(1,2)] and m = limiter_wfD(1) [OF wf]
  let ?s = "Seconds (now - lastCheck st)"
    and ?d = "of_int (now - lastCheck st) / of_int Second :: rat" and ?e = "1 + f64_eps"
  have e: "0 \<le> ?e" by (simp add: less_imp_le add_nonneg_nonneg)
  have s: "0 \<le> ?s" "?s \<le> ?d * ?e ^ 2"
    using assms(3) Seconds_nonneg [of "now - lastCheck st"] Seconds_le [of "now - lastCheck st"] by simp_all
  have "f64_mul ?s (maxPerSec r) \<le> ?s * maxPerSec r * ?e"
    unfolding f64_mul_def using s m by (intro f64_round_le) simp
  also have "\<dots> \<le> ?d * ?e ^ 2 * maxPerSec r * ?e"
    using s m e by (intro mult_right_mono) simp_all
  finally have mul: "f64_mul ?s (maxPerSec r) \<le> ?d * ?e ^ 2 * maxPerSec r * ?e" .
  have "refilled r now st \<le> f64_add (tokens st) (f64_mul ?s (maxPerSec r))"
    by (simp add: refilled_def Let_def)
  also have "\<dots> \<le> (tokens st + f64_mul ?s (maxPerSec r)) * ?e"
    unfolding f64_add_def using st refill_nonneg [OF wf assms(3)] by (intro f64_round_le) simp
  also have "\<dots> \<le> (tokens st + ?d * ?e ^ 2 * maxPerSec r * ?e) * ?e"
    using mul e by (intro mult_right_mono) simp_all
  also have "\<dots> = tokens st + tokens st * f64_eps + maxPerSec r * ?e ^ 4 * ?d"
    unfolding error_terms by (simp only: distrib_left mult_1_right)
  also have "\<dots> \<le> tokens st + burst r * f64_eps + maxPerSec r * ?e ^ 4 * ?d"
    using st(3) by (simp add: mult_right_mono less_imp_le)
  finally show ?thesis .
qed

section \<open>Runs\<close>

definition calls_of :: "string \<Rightarrow> (instant \<times> rl_op) list \<Rightarrow> nat" where
  "calls_of s ops = length (filter (\<lambda>c. snd c = AllowOp s) ops)"

definition grant_rate :: "RateLimiter \<Rightarrow> rat" where
  "grant_rate r = maxPerSec r * (1 + f64_eps) ^ 4 / of_int Second"

lemma grant_rate_pos: "limiter_wf r \<Longrightarrow> 0 \<le> grant_rate r"
  using limiter_wfD(1) [of r] unfolding grant_rate_def
  by (intro divide_nonneg_nonneg mult_nonneg_nonneg zero_le_power)
    (simp_all add: Second_def less_imp_le add_nonneg_nonneg)

lemma grant_rate_frame [simp]: "grant_rate (snd (rl_Allow s now r)) = grant_rate r" "grant_rate (rl_cleanup t r) = grant_rate r"
  by (simp_all add: grant_rate_def rl_cleanup_def Let_def)

lemma cleanup_params [simp]: "burst (rl_cleanup t r) = burst r" "maxPerSec (rl_cleanup t r) = maxPerSec r"
  by (simp_all add: rl_cleanup_def Let_def)

text \<open>The potential of a sender: what its bucket would hold at the instant, at most the burst.\<close>

definition potential :: "string \<Rightarrow> instant \<Rightarrow> RateLimiter \<Rightarrow> rat" where
  "potential s now r =
     (case fmlookup (rl_senders r) s of
        None \<Rightarrow> burst r
      | Some st \<Rightarrow> min (burst r) (tokens st + grant_rate r * of_int (now - lastCheck st)))"

lemma potential_le: "potential s now r \<le> burst r"
  by (simp add: potential_def split: option.splits)

lemma potential_nonneg:
  assumes "limiter_inv r" and "limiter_until now r"
  shows "0 \<le> potential s now r"
proof -
  have wf: "limiter_wf r" using assms(1) by (simp add: limiter_inv_def)
  show ?thesis
    using assms limiter_wfD(2) [OF wf] grant_rate_pos [OF wf]
    by (auto simp: potential_def limiter_inv_def limiter_until_def intro!: add_nonneg_nonneg split: option.splits)
qed

lemma potential_later:
  assumes "limiter_wf r" and "t \<le> now"
  shows "potential s now r \<le> potential s t r + grant_rate r * of_int (now - t)"
proof -
  have g: "0 \<le> grant_rate r * of_int (now - t)" using grant_rate_pos [OF assms(1)] assms(2) by simp
  have cap: "min b (y + d) \<le> min b y + d" if "0 \<le> d" for b y d :: rat using that by (simp add: min_def)
  show ?thesis
  proof (cases "fmlookup (rl_senders r) s")
    case (Some st)
    have "tokens st + grant_rate r * of_int (now - lastCheck st) =
        (tokens st + grant_rate r * of_int (t - lastCheck st)) + grant_rate r * of_int (now - t)"
      by (simp add: algebra_simps)
    then show ?thesis using cap [OF g, of "burst r"] Some by (simp only: potential_def option.case)
  qed (use g in \<open>simp add: potential_def\<close>)
qed

text \<open>A call is paid from the potential, up to the rounding of one refill.\<close>

lemma potential_allow:
  assumes "limiter_inv r" and "limiter_until now r"
  shows "(if fst (rl_Allow s now r) then 1 else 0) + potential s now (snd (rl_Allow s now r))
      \<le> potential s now r + burst r * f64_eps"
proof -
  have wf: "limiter_wf r" using assms(1) by (simp add: limiter_inv_def)
  have e: "0 \<le> burst r * f64_eps" using limiter_wfD(2) [OF wf] by (simp add: less_imp_le)
  show ?thesis
  proof (cases "fmlookup (rl_senders r) s")
    case None
    then show ?thesis using rl_Allow_unknown [OF wf None] e by (simp add: potential_def)
  next
    case (Some st)
    have old: "lastCheck st \<le> now" using assms(2) Some by (auto simp: limiter_until_def)
    have "refilled r now st \<le> tokens st + grant_rate r * of_int (now - lastCheck st) + burst r * f64_eps"
      using refilled_le [OF assms(1) Some old] by (simp add: grant_rate_def field_simps)
    moreover have "refilled r now st \<le> burst r"
      by (rule refilled_bounds(2) [OF wf limiter_invD [OF assms(1) Some] old])
    ultimately have "refilled r now st \<le> potential s now r + burst r * f64_eps"
      using Some e by (simp add: potential_def min_def)
    then show ?thesis using rl_Allow_known [OF assms(1) Some old] by (simp add: potential_def)
  qed
qed

lemma potential_other: "s' \<noteq> s \<Longrightarrow> potential s now (snd (rl_Allow s' now r)) = potential s now r"
  by (simp add: potential_def split: option.splits)

text \<open>Forgetting a sender that was idle for five minutes gives it no more than it could have had.\<close>

lemma potential_cleanup:
  assumes "limiter_inv r"
  shows "potential s now (rl_cleanup now r) \<le> potential s now r"
proof -
  have wf: "limiter_wf r" using assms by (simp add: limiter_inv_def)
  have "burst r \<le> potential s now r" if st: "fmlookup (rl_senders r) s = Some st" "lastCheck st < now - 5 * Minute" for st
  proof -
    have m: "0 \<le> maxPerSec r" "burst r = maxPerSec r * 2" using limiter_wfD [OF wf] by simp_all
    have d: "300 * Second \<le> now - lastCheck st" using st(2) by (simp add: duration_defs)
    have "(1 :: rat) \<le> (1 + f64_eps) ^ 4" by (intro one_le_power) (simp add: less_imp_le)
    then have "maxPerSec r * 1 \<le> maxPerSec r * (1 + f64_eps) ^ 4" using m(1) by (intro mult_left_mono)
    then have "maxPerSec r / of_int Second \<le> grant_rate r"
      unfolding grant_rate_def by (intro divide_right_mono) (simp_all add: Second_def)
    then have "maxPerSec r / of_int Second * of_int (300 * Second) \<le> grant_rate r * of_int (now - lastCheck st)"
      using d m(1) by (intro mult_mono) (simp_all add: Second_def del: of_int_diff flip: of_int_le_iff)
    then have "burst r \<le> grant_rate r * of_int (now - lastCheck st)" using m by (simp add: Second_def)
    then show ?thesis using st(1) limiter_invD(2) [OF assms st(1)] by (simp add: potential_def)
  qed
  note idle = this
  show ?thesis
  proof (cases "\<exists>st. fmlookup (rl_senders r) s = Some st \<and> lastCheck st < now - 5 * Minute")
    case True
    then show ?thesis using idle potential_le [of s now "rl_cleanup now r"] by fastforce
  next
    case False
    then have "fmlookup (rl_senders (rl_cleanup now r)) s = fmlookup (rl_senders r) s"
      by (auto simp: rl_cleanup_def Let_def split: option.splits)
    then show ?thesis by (simp add: potential_def split: option.splits)
  qed
qed

lemma granted_le:
  assumes "limiter_inv r" and "limiter_until t0 r" and "sorted (map fst ops)"
    and "\<forall>c \<in> set ops. t0 \<le> fst c \<and> fst c \<le> t1" and "t0 \<le> t1"
  shows "of_nat (granted s (fst (rl_run ops r))) \<le>
    potential s t0 r + grant_rate r * of_int (t1 - t0) + of_nat (calls_of s ops) * (burst r * f64_eps)"
  using assms
proof (induction ops arbitrary: r t0)
  case Nil
  have wf: "limiter_wf r" using Nil.prems(1) by (simp add: limiter_inv_def)
  show ?case
    using potential_nonneg [OF Nil.prems(1,2), of s] grant_rate_pos [OF wf] Nil.prems(5) by (simp add: granted_def calls_of_def)
next
  case (Cons c ops)
  obtain now x where c: "c = (now, x)" by (cases c)
  have wf: "limiter_wf r" using Cons.prems(1) by (simp add: limiter_inv_def)
  have now: "t0 \<le> now" "now \<le> t1" and rest: "sorted (map fst ops)" "\<forall>c \<in> set ops. now \<le> fst c \<and> fst c \<le> t1"
    using Cons.prems(3,4) c by auto
  have until: "limiter_until now r" by (rule limiter_until_mono [OF Cons.prems(2) now(1)])
  have later: "potential s now r + grant_rate r * of_int (t1 - now) \<le> potential s t0 r + grant_rate r * of_int (t1 - t0)"
    using potential_later [OF wf now(1), of s] by (simp add: algebra_simps)
  show ?case
  proof (cases x)
    case CleanupOp
    have "of_nat (granted s (fst (rl_run ops (rl_cleanup now r)))) \<le> potential s now (rl_cleanup now r) +
        grant_rate r * of_int (t1 - now) + of_nat (calls_of s ops) * (burst r * f64_eps)"
      using Cons.IH [OF limiter_cleanup(1) [OF Cons.prems(1)] limiter_cleanup(2) [OF until] rest now(2), of now] by simp
    then show ?thesis
      using potential_cleanup [OF Cons.prems(1), of s now] later c CleanupOp by (simp add: calls_of_def)
  next
    case (AllowOp s')
    define r1 where "r1 = snd (rl_Allow s' now r)"
    have r1: "limiter_inv r1" "limiter_until now r1" "grant_rate r1 = grant_rate r" "burst r1 = burst r"
      using limiter_inv_Allow [OF Cons.prems(1) until] limiter_until_Allow [OF until] by (simp_all add: r1_def)
    have IH: "of_nat (granted s (fst (rl_run ops r1))) \<le> potential s now r1 + grant_rate r * of_int (t1 - now) +
        of_nat (calls_of s ops) * (burst r * f64_eps)"
      using Cons.IH [OF r1(1,2) rest now(2)] r1(3,4) by simp
    have run: "fst (rl_run (c # ops) r) = (s', fst (rl_Allow s' now r)) # fst (rl_run ops r1)"
      by (simp add: c AllowOp r1_def split_beta Let_def)
    show ?thesis
    proof (cases "s' = s")
      case True
      have "of_nat (granted s (fst (rl_run (c # ops) r))) =
          (if fst (rl_Allow s now r) then 1 else 0) + (of_nat (granted s (fst (rl_run ops r1))) :: rat)"
        unfolding run using True by (simp add: granted_def)
      moreover have "of_nat (calls_of s (c # ops)) * (burst r * f64_eps) =
          of_nat (calls_of s ops) * (burst r * f64_eps) + burst r * f64_eps"
        using True c AllowOp by (simp add: calls_of_def algebra_simps)
      ultimately show ?thesis
        using IH later potential_allow [OF Cons.prems(1) until, of s, folded r1_def [unfolded True]] by linarith
    next
      case False
      then have "potential s now r1 = potential s now r" by (simp add: r1_def potential_other)
      then show ?thesis using IH later False c AllowOp run by (simp add: granted_def calls_of_def)
    qed
  qed
qed

lemma rl_run_params [simp]: "burst (snd (rl_run ops r)) = burst r" "maxPerSec (snd (rl_run ops r)) = maxPerSec r"
proof -
  have "burst (snd (rl_run ops r)) = burst r \<and> maxPerSec (snd (rl_run ops r)) = maxPerSec r"
  proof (induction ops arbitrary: r)
    case (Cons c ops)
    obtain t x where "c = (t, x)" by (cases c)
    then show ?case using Cons.IH by (cases x) (simp_all add: split_beta Let_def)
  qed simp
  then show "burst (snd (rl_run ops r)) = burst r" "maxPerSec (snd (rl_run ops r)) = maxPerSec r" by simp_all
qed

lemma rl_run_inv:
  assumes "limiter_inv r" and "sorted (map fst ops)" and "\<forall>c \<in> set ops. limiter_until (fst c) r"
    and "\<forall>c \<in> set ops. fst c \<le> t" and "limiter_until t r"
  shows "limiter_inv (snd (rl_run ops r)) \<and> limiter_until t (snd (rl_run ops r))"
  using assms
proof (induction ops arbitrary: r)
  case (Cons c ops)
  obtain now x where c: "c = (now, x)" by (cases c)
  have until: "limiter_until now r" and now: "now \<le> t" using Cons.prems c by simp_all
  have later: "limiter_until (fst d) (snd (rl_Allow s now r))" if "d \<in> set ops" for d s
    using limiter_until_mono [OF limiter_until_Allow [OF until, of s]] Cons.prems(2) c that by auto
  show ?case
  proof (cases x)
    case (AllowOp s)
    show ?thesis
      using Cons.IH [OF limiter_inv_Allow [OF Cons.prems(1) until, of s]] Cons.prems later
        limiter_until_mono [OF limiter_until_Allow [OF until, of s] now] c AllowOp
      by (simp add: split_beta Let_def)
  next
    case CleanupOp
    then show ?thesis
      using Cons.IH [OF limiter_cleanup(1) [OF Cons.prems(1)]] Cons.prems c by (simp add: limiter_cleanup(2))
  qed
qed simp

text \<open>Calls at one instant from a bucket with a whole number of tokens.\<close>

lemma same_instant_calls:
  assumes "limiter_inv r" and "fmlookup (rl_senders r) s = Some \<lparr>tokens = of_nat k, lastCheck = t\<rparr>"
  shows "map snd (fst (rl_run (replicate n (t, AllowOp s)) r)) =
    replicate (min n k) True @ replicate (n - k) False"
  using assms
proof (induction n arbitrary: k r)
  case (Suc n)
  define st where "st = \<lparr>tokens = of_nat k :: rat, lastCheck = t\<rparr>"
  have wf: "limiter_wf r" using Suc.prems(1) by (simp add: limiter_inv_def)
  have lk: "fmlookup (rl_senders r) s = Some st" using Suc.prems(2) by (simp add: st_def)
  note inv = limiter_invD [OF Suc.prems(1) lk]
  have lvl: "refilled r t st = of_nat k"
    using inv by (simp add: refilled_def st_def f64_op_defs is_f64_def)
  have until: "limiter_inv (snd (rl_Allow s t r))"
  proof -
    have "limiter_inv r \<Longrightarrow> limiter_wf r" by (simp add: limiter_inv_def)
    then show ?thesis
      using Suc.prems(1) rl_Allow_known [OF Suc.prems(1) lk] lvl inv limiter_wfD [OF wf]
        is_f64_sub_one [OF inv(1)]
      by (auto simp: st_def limiter_inv_def limiter_wf_def is_f64_def)
  qed
  have step: "rl_Allow s t r = (1 \<le> k, r\<lparr>rl_senders := fmupd s
      \<lparr>tokens = of_nat (k - 1), lastCheck = t\<rparr> (rl_senders r)\<rparr>)"
    using rl_Allow_known [OF Suc.prems(1) lk] lvl by (cases k) (simp_all add: st_def)
  show ?case
    using Suc.IH [OF until, of "k - 1"] step by (cases k) (simp_all add: split_beta Let_def)
qed simp

lemma allow_after_second:
  assumes "limiter_inv r" and "fmlookup (rl_senders r) s = Some st" and "lastCheck st + Second \<le> now"
  shows "fst (rl_Allow s now r)"
proof -
  have wf: "limiter_wf r" using assms(1) by (simp add: limiter_inv_def)
  have one: "is_f64 (1 :: rat)" using is_f64_int [of 1] by simp
  have "int 1 * Second \<le> now - lastCheck st" using assms(3) by simp
  then have "of_nat 1 \<le> Seconds (now - lastCheck st)" by (rule Seconds_ge) simp
  then have "1 * 1 \<le> Seconds (now - lastCheck st) * maxPerSec r"
    using limiter_wfD(1) [OF wf] by (intro mult_mono) simp_all
  then have "1 \<le> f64_mul (Seconds (now - lastCheck st)) (maxPerSec r)"
    unfolding f64_mul_def by (intro f64_round_ge [OF one]) simp
  then have "1 \<le> f64_add (tokens st) (f64_mul (Seconds (now - lastCheck st)) (maxPerSec r))"
    unfolding f64_add_def using limiter_invD(2) [OF assms(1,2)] by (intro f64_round_ge [OF one]) simp
  then have "1 \<le> refilled r now st" using limiter_wfD(2) [OF wf] by (simp add: refilled_def Let_def)
  then show ?thesis using assms(2) by (simp add: rl_Allow_unfold)
qed

section \<open>Properties\<close>

text \<open>
  C13. The rate limit. In any run of calls by any senders and of cleanups, and in any window of it, from
  \<open>t0\<close> to \<open>t1\<close>, however the run began: a sender is granted at most the burst size plus the rate times the
  seconds of the window, up to the rounding of binary64: a relative \<open>(1 + 2^-53)^4\<close> on the rate and \<open>2^-53\<close>
  of the burst size per call of that sender in the window.
\<close>

theorem limiter_rate_bound:
  assumes "1 \<le> m" and "m < 2 ^ 50" and "is_f64 m" and "sorted (map fst (earlier @ window))"
    and "\<forall>c \<in> set window. t0 \<le> fst c \<and> fst c \<le> t1" and "t0 \<le> t1"
  shows "of_nat (granted s (fst (rl_run window (snd (rl_run earlier (NewRateLimiter m)))))) \<le>
    m * 2 + m * (1 + f64_eps) ^ 4 * (of_int (t1 - t0) / of_int Second) +
    of_nat (calls_of s window) * (m * 2 * f64_eps)"
proof -
  let ?r = "snd (rl_run earlier (NewRateLimiter m))"
  have b: "burst ?r = m * 2" "grant_rate ?r = m * (1 + f64_eps) ^ 4 / of_int Second"
    using limiter_inv_New(1) [OF assms(1-3)] limiter_wfD(5) [of "NewRateLimiter m"]
    by (simp_all add: limiter_inv_def grant_rate_def) (simp_all add: NewRateLimiter_def)
  have g: "0 \<le> grant_rate ?r" unfolding b using assms(1)
    by (intro divide_nonneg_nonneg mult_nonneg_nonneg zero_le_power) (simp_all add: Second_def less_imp_le add_nonneg_nonneg)
  show ?thesis
  proof (cases window)
    case Nil
    have "0 \<le> grant_rate ?r * of_int (t1 - t0)" using g assms(6) by (intro mult_nonneg_nonneg) simp_all
    then show ?thesis using Nil assms(1) by (simp add: b granted_def calls_of_def)
  next
    case (Cons c cs)
    have c: "t0 \<le> fst c" "fst c \<le> t1" "\<forall>d \<in> set window. fst c \<le> fst d \<and> fst d \<le> t1"
      "sorted (map fst window)" "sorted (map fst earlier)" "\<forall>d \<in> set earlier. fst d \<le> fst c"
      using assms(4,5) Cons by (auto simp: sorted_append)
    have "limiter_inv ?r \<and> limiter_until (fst c) ?r"
      using rl_run_inv [OF limiter_inv_New(1) [OF assms(1-3)] c(5) _ c(6)] limiter_inv_New(2) [OF assms(1-3)] by blast
    then have "of_nat (granted s (fst (rl_run window ?r))) \<le>
        potential s (fst c) ?r + grant_rate ?r * of_int (t1 - fst c) + of_nat (calls_of s window) * (burst ?r * f64_eps)"
      using granted_le c(2-4) by blast
    moreover have "grant_rate ?r * of_int (t1 - fst c) \<le> grant_rate ?r * of_int (t1 - t0)"
      using g c(1) by (intro mult_left_mono) simp_all
    ultimately have "of_nat (granted s (fst (rl_run window ?r))) \<le>
        burst ?r + grant_rate ?r * of_int (t1 - t0) + of_nat (calls_of s window) * (burst ?r * f64_eps)"
      using potential_le [of s "fst c" ?r] by linarith
    then show ?thesis unfolding b by simp
  qed
qed

theorem limiter_rate_bound_witness:
  "of_nat (granted ''a'' (fst (rl_run [(9 * Minute, AllowOp ''a''), (10 * Minute, CleanupOp), (10 * Minute, AllowOp ''a'')]
      (snd (rl_run [(0, AllowOp ''a''), (1, AllowOp ''b'')] (NewRateLimiter 10)))))) \<le>
    20 + 10 * (1 + f64_eps) ^ 4 * (of_int (10 * Minute - 9 * Minute) / of_int Second) +
    (of_nat (calls_of ''a'' [(9 * Minute, AllowOp ''a''), (10 * Minute, CleanupOp), (10 * Minute, AllowOp ''a'')]) * (10 * 2 * f64_eps) :: rat)"
proof -
  have "is_f64 (10 :: rat)" using is_f64_int [of 10] by simp
  then show ?thesis
    using limiter_rate_bound [of 10 "[(0, AllowOp ''a''), (1, AllowOp ''b'')]"
        "[(9 * Minute, AllowOp ''a''), (10 * Minute, CleanupOp), (10 * Minute, AllowOp ''a'')]" "9 * Minute" "10 * Minute" "''a''"]
    by (simp add: duration_defs)
qed

text \<open>
  The burst is exact: of \<open>n\<close> calls by a new sender at one instant, the first \<open>2 m\<close> are
  granted and all others refused, for every whole rate \<open>m\<close>.
\<close>

theorem limiter_burst_exact:
  assumes "1 \<le> m" and "m < 2 ^ 50"
  shows "map snd (fst (rl_run (replicate n (t, AllowOp s)) (NewRateLimiter (of_nat m)))) =
    replicate (min n (2 * m)) True @ replicate (n - 2 * m) False"
proof (cases n)
  case (Suc k)
  let ?r = "NewRateLimiter (of_nat m)"
  have f: "is_f64 (of_nat m :: rat)"
    using is_f64_int [of "int m"] assms(2) by (simp flip: of_nat_power)
  have small: "(of_nat m :: rat) < 2 ^ 50"
    using assms(2) by (metis of_nat_less_iff of_nat_numeral of_nat_power)
  have inv: "limiter_inv ?r" "limiter_until t ?r"
    using limiter_inv_New [OF _ small f] assms(1) by auto
  have wf: "limiter_wf ?r" using inv by (simp add: limiter_inv_def)
  have b: "burst ?r = of_nat (2 * m)" using limiter_wfD(5) [OF wf] by (simp add: NewRateLimiter_def)
  have a: "rl_Allow s t ?r = (True, ?r\<lparr>rl_senders := fmupd s
      \<lparr>tokens = of_nat (2 * m - 1), lastCheck = t\<rparr> (rl_senders ?r)\<rparr>)"
    using rl_Allow_unknown [OF wf, of s t] b assms(1)
    by (simp add: NewRateLimiter_def of_nat_diff)
  have "map snd (fst (rl_run (replicate k (t, AllowOp s)) (snd (rl_Allow s t ?r)))) =
      replicate (min k (2 * m - 1)) True @ replicate (k - (2 * m - 1)) False"
    using same_instant_calls [OF limiter_inv_Allow [OF inv, of s], of s "2 * m - 1" t k] a by simp
  then show ?thesis using Suc a assms(1)
    by (cases "2 * m") (simp_all add: split_beta Let_def)
qed simp

theorem limiter_burst_exact_witness:
  "map snd (fst (rl_run (replicate 25 (7, AllowOp ''a'')) (NewRateLimiter 10))) =
    replicate 20 True @ replicate 5 False"
  using limiter_burst_exact [of 10 25 7 "''a''"] by simp

text \<open>
  The periodic cleanup is invisible: removing the senders idle for five minutes changes
  neither the next decision about any sender nor the bucket that decision leaves behind, since an
  idle bucket would have been refilled to the burst size.
\<close>

theorem limiter_cleanup_transparent:
  assumes "limiter_inv r" and "limiter_until tc r" and "tc \<le> now"
  shows "fst (rl_Allow s now (rl_cleanup tc r)) = fst (rl_Allow s now r) \<and>
    fmlookup (rl_senders (snd (rl_Allow s now (rl_cleanup tc r)))) s =
    fmlookup (rl_senders (snd (rl_Allow s now r))) s"
proof -
  have wf: "limiter_wf r" using assms(1) by (simp add: limiter_inv_def)
  have par: "burst (rl_cleanup tc r) = burst r" "maxPerSec (rl_cleanup tc r) = maxPerSec r"
    by (simp_all add: rl_cleanup_def Let_def)
  show ?thesis
  proof (cases "\<exists>st. fmlookup (rl_senders r) s = Some st \<and> lastCheck st < tc - 5 * Minute")
    case False
    then have "fmlookup (rl_senders (rl_cleanup tc r)) s = fmlookup (rl_senders r) s"
      by (auto simp: rl_cleanup_def Let_def split: option.splits)
    moreover have "refilled (rl_cleanup tc r) now st = refilled r now st" for st
      using par by (simp add: refilled_def Let_def)
    ultimately show ?thesis using par by (simp add: rl_Allow_unfold split: option.splits)
  next
    case True
    then obtain st where st: "fmlookup (rl_senders r) s = Some st" "lastCheck st < tc - 5 * Minute"
      by blast
    have gone: "fmlookup (rl_senders (rl_cleanup tc r)) s = None"
      using st by (simp add: rl_cleanup_def Let_def)
    have "int 300 * Second \<le> now - lastCheck st"
      using st(2) assms(3) by (simp add: duration_defs)
    then have "of_nat 300 \<le> Seconds (now - lastCheck st)" by (rule Seconds_ge) simp
    then have "2 * maxPerSec r \<le> Seconds (now - lastCheck st) * maxPerSec r"
      using limiter_wfD(1) [OF wf] by (intro mult_right_mono) simp_all
    then have "burst r \<le> f64_mul (Seconds (now - lastCheck st)) (maxPerSec r)"
      unfolding f64_mul_def using limiter_wfD(5) [OF wf]
      by (intro f64_round_ge limiter_wfD(4) [OF wf]) (simp add: mult.commute)
    then have "burst r \<le> f64_add (tokens st) (f64_mul (Seconds (now - lastCheck st)) (maxPerSec r))"
      unfolding f64_add_def using limiter_invD(2) [OF assms(1) st(1)]
      by (intro f64_round_ge limiter_wfD(4) [OF wf]) simp
    then have full: "refilled r now st = burst r" by (simp add: refilled_def Let_def)
    show ?thesis
      using full gone st(1) par limiter_wfD(2) [OF wf] by (simp add: rl_Allow_unfold)
  qed
qed

theorem limiter_cleanup_transparent_witness:
  "fst (rl_Allow ''a'' (6 * Minute) (rl_cleanup (6 * Minute) (snd (rl_Allow ''a'' 0 (NewRateLimiter 10))))) =
    fst (rl_Allow ''a'' (6 * Minute) (snd (rl_Allow ''a'' 0 (NewRateLimiter 10))))"
proof -
  have f: "is_f64 (10 :: rat)" using is_f64_int [of 10] by simp
  have "limiter_inv (NewRateLimiter 10)" "\<And>t. limiter_until t (NewRateLimiter 10)"
    using limiter_inv_New [of 10] f by simp_all
  then have "limiter_inv (snd (rl_Allow ''a'' 0 (NewRateLimiter 10)))"
      "limiter_until (6 * Minute) (snd (rl_Allow ''a'' 0 (NewRateLimiter 10)))"
    using limiter_inv_Allow limiter_until_mono [OF limiter_until_Allow, of 0] by (auto simp: Minute_def Second_def)
  then show ?thesis
    using limiter_cleanup_transparent [of _ "6 * Minute" "6 * Minute" "''a''"] by blast
qed

end
