(* ===== verification/Engine.thy ===== *)
theory Engine
  imports Envelope SeenCache KeyRing RateLimiter
begin

text \<open>
  The gossip engine (\<^verbatim>\<open>internal/gossip/gossip.go\<close>).

  The engine is connected to the rest of the node by callbacks: \<^verbatim>\<open>getPeers\<close>, each peer's
  \<^verbatim>\<open>Send\<close> and the handlers registered per message type. They act on a state the engine does not
  own, the type parameter \<open>'w\<close>; the transport manager instantiates it with its own state. What
  the runtime picks during one call (the clock readings, the order of a \<^verbatim>\<open>range\<close> over the peer map,
  the draws of \<^verbatim>\<open>rand.Shuffle\<close>) is the argument \<open>runtime\<close>.

  \<open>HandleIncoming\<close> is the handler run by one goroutine alone. \<open>handle_step\<close> cuts it at its
  lock operations, and \<open>sys_step\<close> interleaves any number of such goroutines, local broadcasts,
  the cleanup loops and key additions of the transport.
\<close>

section \<open>Data\<close>

definition DefaultFanout :: nat where "DefaultFanout = 3"
definition DefaultMaxHops :: u32 where "DefaultMaxHops = 10"
definition DefaultSeenTTL :: duration where "DefaultSeenTTL = 5 * Minute"
definition DefaultMaxPerSec :: rat where "DefaultMaxPerSec = 10"
definition MaxGossipPayload :: nat where "MaxGossipPayload = 64 * 2 ^ 10"
definition MaxFieldLen :: nat where "MaxFieldLen = 128"

lemmas engine_consts = DefaultFanout_def DefaultMaxHops_def DefaultSeenTTL_def DefaultMaxPerSec_def
  MaxGossipPayload_def MaxFieldLen_def

record 'w PeerHandle =
  ph_NodeID :: node_id
  ph_Send :: "bytes \<Rightarrow> 'w \<Rightarrow> bool \<times> 'w"

type_synonym 'w MessageHandler = "node_id \<Rightarrow> bytes \<Rightarrow> 'w \<Rightarrow> 'w"

record Stats =
  st_Received :: u64
  st_Delivered :: u64
  st_Broadcast :: u64
  st_Forwarded :: u64
  st_Dropped :: u64

record 'w Engine =
  localID :: node_id
  Seen :: SeenCache
  eng_KeyRing :: KeyRing
  Limiter :: RateLimiter
  fanout :: nat
  maxHops :: u32
  getPeers :: "node_id list \<Rightarrow> 'w \<Rightarrow> 'w PeerHandle list"
  handlers :: "(u32, 'w MessageHandler) fmap"
  eng_done :: bool
  statsReceived :: u64
  statsDelivered :: u64
  statsBroadcast :: u64
  statsForwarded :: u64
  statsDropped :: u64

record runtime =
  rt_allow :: instant
  rt_check :: instant
  rt_order :: "node_id list"
  rt_draws :: "nat \<Rightarrow> nat"

section \<open>Operations\<close>

definition NewEngine :: "node_id \<Rightarrow> (node_id list \<Rightarrow> 'w \<Rightarrow> 'w PeerHandle list) \<Rightarrow> 'w Engine" where
  "NewEngine lid gp =
     \<lparr>localID = lid, Seen = NewSeenCache DefaultSeenTTL, eng_KeyRing = NewKeyRing,
      Limiter = NewRateLimiter DefaultMaxPerSec, fanout = DefaultFanout, maxHops = DefaultMaxHops,
      getPeers = gp, handlers = fmempty, eng_done = False, statsReceived = 0, statsDelivered = 0,
      statsBroadcast = 0, statsForwarded = 0, statsDropped = 0\<rparr>"

text \<open>
  \<^verbatim>\<open>Start\<close> launches the two cleanup loops; the arguments are the instants of the ticks they receive
  before \<^verbatim>\<open>Stop\<close> closes \<^verbatim>\<open>done\<close>.
\<close>

definition engine_Start :: "instant list \<Rightarrow> instant list \<Rightarrow> 'w Engine \<Rightarrow> 'w Engine" where
  "engine_Start seenTicks limiterTicks e =
     (if eng_done e then e
      else e\<lparr>Seen := seen_CleanupLoop seenTicks (Seen e),
             Limiter := rl_CleanupLoop limiterTicks (Limiter e)\<rparr>)"

definition engine_Stop :: "'w Engine \<Rightarrow> 'w Engine" where
  "engine_Stop e = (if eng_done e then e else e\<lparr>eng_done := True\<rparr>)"

definition MaxHops :: "'w Engine \<Rightarrow> u32" where
  "MaxHops e = maxHops e"

definition RegisterHandler :: "u32 \<Rightarrow> 'w MessageHandler \<Rightarrow> 'w Engine \<Rightarrow> 'w Engine" where
  "RegisterHandler msgType handler e = e\<lparr>handlers := fmupd msgType handler (handlers e)\<rparr>"

definition engine_Stats :: "'w Engine \<Rightarrow> Stats" where
  "engine_Stats e = \<lparr>st_Received = statsReceived e, st_Delivered = statsDelivered e,
     st_Broadcast = statsBroadcast e, st_Forwarded = statsForwarded e, st_Dropped = statsDropped e\<rparr>"

text \<open>The loop \<^verbatim>\<open>for _, p := range peers { if p.Send(raw) { sent++ } }\<close>.\<close>

fun send_each :: "bytes \<Rightarrow> 'w PeerHandle list \<Rightarrow> 'w \<Rightarrow> nat \<times> 'w" where
  "send_each raw [] w = (0, w)"
| "send_each raw (p # ps) w =
     (let (ok, w1) = ph_Send p raw w; (sent, w2) = send_each raw ps w1
      in (if ok then Suc sent else sent, w2))"

definition forwardTo :: "runtime \<Rightarrow> bytes \<Rightarrow> node_id \<Rightarrow> 'w Engine \<Rightarrow> 'w \<Rightarrow> 'w Engine \<times> 'w" where
  "forwardTo rt raw excludePeerID e w =
     (let candidates = filter (\<lambda>p. ph_NodeID p \<noteq> excludePeerID) (getPeers e (rt_order rt) w) in
      if candidates = [] then (e, w)
      else
        (let chosen = (if length candidates > fanout e
                       then take (fanout e) (Shuffle (rt_draws rt) candidates) else candidates);
             total = length chosen;
             (sent, w') = send_each raw chosen w;
             e1 = e\<lparr>statsForwarded := statsForwarded e + of_nat sent\<rparr>;
             dropped = total - sent
         in (if dropped > 0 then e1\<lparr>statsDropped := statsDropped e1 + of_nat dropped\<rparr> else e1, w')))"

definition Broadcast ::
  "'r codec \<Rightarrow> runtime \<Rightarrow> Envelope \<Rightarrow> 'w Engine \<Rightarrow> 'w \<Rightarrow> (nat \<times> nat) \<times> 'w Engine \<times> 'w" where
  "Broadcast cd rt env e w =
     (let e1 = e\<lparr>Seen := snd (seen_Check (MessageId env) (rt_check rt) (Seen e))\<rparr> in
      case env_Marshal cd env of
        None \<Rightarrow> ((0, 0), e1, w)
      | Some raw \<Rightarrow>
          (let peers = getPeers e1 (rt_order rt) w;
               total = length peers;
               (sent, w') = send_each raw peers w;
               e2 = e1\<lparr>statsBroadcast := statsBroadcast e1 + of_nat sent\<rparr>;
               dropped = total - sent
           in ((sent, total),
               if dropped > 0 then e2\<lparr>statsDropped := statsDropped e2 + of_nat dropped\<rparr> else e2, w')))"

text \<open>The guards 0a, 0b and 0c.\<close>

definition well_formed :: "Envelope \<Rightarrow> bool" where
  "well_formed env \<longleftrightarrow>
     \<not> (MessageId env = [] \<or> SenderId env = []) \<and>
     \<not> (length (MessageId env) > MaxFieldLen \<or> length (SenderId env) > MaxFieldLen) \<and>
     \<not> length (Payload env) > MaxGossipPayload"

text \<open>The test for learning a key from the envelope.\<close>

definition learnable :: "crypto \<Rightarrow> Envelope \<Rightarrow> bool" where
  "learnable cr env \<longleftrightarrow> length (SenderPubkey env) = PublicKeySize \<and>
     hex_EncodeToString (sha256 cr (SenderPubkey env)) = SenderId env"

text \<open>Step 2: look the sender up, learning its key from the envelope if it is unknown.\<close>

definition lookup_or_learn :: "crypto \<Rightarrow> Envelope \<Rightarrow> KeyRing \<Rightarrow> KeyEntry option \<times> KeyRing" where
  "lookup_or_learn cr env kr =
     (case kr_Lookup (SenderId env) kr of
        Some entry \<Rightarrow> (Some entry, kr)
      | None \<Rightarrow>
          (if learnable cr env then
             (let kr' = kr_Add (SenderId env) (SenderPubkey env) TrustGossipLearned kr
              in (kr_Lookup (SenderId env) kr', kr'))
           else (None, kr)))"

text \<open>Step 6: local delivery.\<close>

definition deliver :: "Envelope \<Rightarrow> 'w Engine \<Rightarrow> 'w \<Rightarrow> 'w Engine \<times> 'w" where
  "deliver env e w =
     (case fmlookup (handlers e) (MsgType env) of
        Some handler \<Rightarrow>
          (e\<lparr>statsDelivered := statsDelivered e + 1\<rparr>, handler (SenderId env) (Payload env) w)
      | None \<Rightarrow> (e, w))"

text \<open>Step 7: forwarding with a decremented hop count.\<close>

definition relay ::
  "'r codec \<Rightarrow> runtime \<Rightarrow> node_id \<Rightarrow> Envelope \<Rightarrow> 'w Engine \<Rightarrow> 'w \<Rightarrow> 'w Engine \<times> 'w" where
  "relay cd rt fromPeerID env e w =
     (if HopCount env \<le> 1 then (e, w)
      else
        (case env_Marshal cd (env\<lparr>HopCount := HopCount env - 1\<rparr>) of
           None \<Rightarrow> (e, w)
         | Some raw \<Rightarrow> forwardTo rt raw fromPeerID e w))"

definition HandleIncoming ::
  "crypto \<Rightarrow> 'r codec \<Rightarrow> runtime \<Rightarrow> node_id \<Rightarrow> Envelope \<Rightarrow> 'w Engine \<Rightarrow> 'w \<Rightarrow> 'w Engine \<times> 'w" where
  "HandleIncoming cr cd rt fromPeerID env e w =
     (if \<not> well_formed env then (e, w)
      else if seen_Has (MessageId env) (Seen e) then (e, w)
      else
        (let (found, kr) = lookup_or_learn cr env (eng_KeyRing e); e1 = e\<lparr>eng_KeyRing := kr\<rparr> in
         case found of
           None \<Rightarrow> (e1, w)
         | Some entry \<Rightarrow>
             if \<not> VerifyEnvelope cr env (PubKey entry) then (e1, w)
             else
               (let (ok, rl) = rl_Allow (SenderId env) (rt_allow rt) (Limiter e1);
                    e2 = e1\<lparr>Limiter := rl\<rparr> in
                if \<not> ok then (e2, w)
                else
                  (let (dup, sc) = seen_Check (MessageId env) (rt_check rt) (Seen e2);
                       e3 = e2\<lparr>Seen := sc\<rparr> in
                   if dup then (e3, w)
                   else
                     (let e4 = e3\<lparr>statsReceived := statsReceived e3 + 1\<rparr>;
                          (e5, w') = deliver env e4 w
                      in relay cd rt fromPeerID env e5 w')))))"

definition formatShort :: "string \<Rightarrow> string" where
  "formatShort i = (if length i > 12 then take 12 i else i)"

section \<open>Interleaved goroutines\<close>

text \<open>
  The stages of one \<^verbatim>\<open>HandleIncoming\<close> call, cut at the operations on the state shared with other
  goroutines: each of \<^verbatim>\<open>Seen\<close>, \<^verbatim>\<open>KeyRing\<close> and \<^verbatim>\<open>Limiter\<close> holds its lock for one call only.
\<close>

datatype hstage =
    H_start
  | H_lookup
  | H_learn
  | H_relookup
  | H_verify KeyEntry
  | H_limit
  | H_check
  | H_received instant
  | H_relay
  | H_end

fun handle_step ::
  "crypto \<Rightarrow> 'r codec \<Rightarrow> runtime \<Rightarrow> node_id \<Rightarrow> Envelope \<Rightarrow> hstage \<Rightarrow> 'w Engine \<Rightarrow> 'w \<Rightarrow>
     hstage \<times> 'w Engine \<times> 'w" where
  "handle_step cr cd rt from env H_start e w =
     (if \<not> well_formed env \<or> seen_Has (MessageId env) (Seen e) then (H_end, e, w)
      else (H_lookup, e, w))"
| "handle_step cr cd rt from env H_lookup e w =
     (case kr_Lookup (SenderId env) (eng_KeyRing e) of
        Some entry \<Rightarrow> (H_verify entry, e, w)
      | None \<Rightarrow> (if learnable cr env then H_learn else H_end, e, w))"
| "handle_step cr cd rt from env H_learn e w =
     (H_relookup, e\<lparr>eng_KeyRing :=
        kr_Add (SenderId env) (SenderPubkey env) TrustGossipLearned (eng_KeyRing e)\<rparr>, w)"
| "handle_step cr cd rt from env H_relookup e w =
     (case kr_Lookup (SenderId env) (eng_KeyRing e) of
        Some entry \<Rightarrow> (H_verify entry, e, w)
      | None \<Rightarrow> (H_end, e, w))"
| "handle_step cr cd rt from env (H_verify entry) e w =
     (if VerifyEnvelope cr env (PubKey entry) then H_limit else H_end, e, w)"
| "handle_step cr cd rt from env H_limit e w =
     (let (ok, rl) = rl_Allow (SenderId env) (rt_allow rt) (Limiter e)
      in (if ok then H_check else H_end, e\<lparr>Limiter := rl\<rparr>, w))"
| "handle_step cr cd rt from env H_check e w =
     (let (dup, sc) = seen_Check (MessageId env) (rt_check rt) (Seen e)
      in (if dup then H_end else H_received (rt_check rt), e\<lparr>Seen := sc\<rparr>, w))"
| "handle_step cr cd rt from env (H_received t) e w =
     (let (e', w') = deliver env (e\<lparr>statsReceived := statsReceived e + 1\<rparr>) w in (H_relay, e', w'))"
| "handle_step cr cd rt from env H_relay e w =
     (let (e', w') = relay cd rt from env e w in (H_end, e', w'))"
| "handle_step cr cd rt from env H_end e w = (H_end, e, w)"

primrec handle_steps ::
  "nat \<Rightarrow> crypto \<Rightarrow> 'r codec \<Rightarrow> runtime \<Rightarrow> node_id \<Rightarrow> Envelope \<Rightarrow> hstage \<Rightarrow> 'w Engine \<Rightarrow> 'w \<Rightarrow>
     hstage \<times> 'w Engine \<times> 'w" where
  "handle_steps 0 cr cd rt from env st e w = (st, e, w)"
| "handle_steps (Suc n) cr cd rt from env st e w =
     (let (st', e', w') = handle_step cr cd rt from env st e w
      in handle_steps n cr cd rt from env st' e' w')"

text \<open>
  The engine with its goroutines, the state \<open>sys_world\<close> shared with the rest of the node and a
  clock. Two fields record the history: \<open>ops\<close> the timed operations on the seen cache and
  \<open>processed\<close> the envelopes that passed all checks, with the instant of their acceptance.
\<close>

record 'w sys =
  threads :: "(nat, node_id \<times> Envelope \<times> hstage) fmap"
  sys_eng :: "'w Engine"
  sys_world :: 'w
  clock :: instant
  ops :: "(instant \<times> dedup_op) list"
  processed :: "(instant \<times> Envelope) list"

fun stage_clock :: "runtime \<Rightarrow> hstage \<Rightarrow> instant \<Rightarrow> instant" where
  "stage_clock rt H_limit c = rt_allow rt"
| "stage_clock rt H_check c = rt_check rt"
| "stage_clock rt _ c = c"

fun stage_ops :: "runtime \<Rightarrow> Envelope \<Rightarrow> hstage \<Rightarrow> (instant \<times> dedup_op) list" where
  "stage_ops rt env H_check = [(rt_check rt, Check (MessageId env))]"
| "stage_ops rt env _ = []"

fun stage_processed :: "Envelope \<Rightarrow> hstage \<Rightarrow> (instant \<times> Envelope) list" where
  "stage_processed env (H_received t) = [(t, env)]"
| "stage_processed env _ = []"

inductive sys_step :: "crypto \<Rightarrow> 'r codec \<Rightarrow> 'w sys \<Rightarrow> 'w sys \<Rightarrow> bool" for cr cd where
  Arrive: "i |\<notin>| fmdom (threads S) \<Longrightarrow>
     sys_step cr cd S (S\<lparr>threads := fmupd i (from, env, H_start) (threads S)\<rparr>)"
| Run: "fmlookup (threads S) i = Some (from, env, st) \<Longrightarrow>
     clock S \<le> rt_allow rt \<Longrightarrow> clock S \<le> rt_check rt \<Longrightarrow>
     handle_step cr cd rt from env st (sys_eng S) (sys_world S) = (st', e', w') \<Longrightarrow>
     sys_step cr cd S (S\<lparr>threads := fmupd i (from, env, st') (threads S), sys_eng := e',
       sys_world := w', clock := stage_clock rt st (clock S), ops := ops S @ stage_ops rt env st,
       processed := processed S @ stage_processed env st\<rparr>)"
| Publish: "clock S \<le> rt_check rt \<Longrightarrow>
     Broadcast cd rt env (sys_eng S) (sys_world S) = (res, e', w') \<Longrightarrow>
     sys_step cr cd S (S\<lparr>sys_eng := e', sys_world := w', clock := rt_check rt,
       ops := ops S @ [(rt_check rt, Check (MessageId env))]\<rparr>)"
| SweepSeen: "clock S \<le> now \<Longrightarrow> \<not> eng_done (sys_eng S) \<Longrightarrow>
     sys_step cr cd S (S\<lparr>sys_eng := (sys_eng S)\<lparr>Seen := seen_cleanup now (Seen (sys_eng S))\<rparr>,
       clock := now, ops := ops S @ [(now, Sweep)]\<rparr>)"
| SweepLimiter: "clock S \<le> now \<Longrightarrow> \<not> eng_done (sys_eng S) \<Longrightarrow>
     sys_step cr cd S (S\<lparr>sys_eng := (sys_eng S)\<lparr>Limiter := rl_cleanup now (Limiter (sys_eng S))\<rparr>,
       clock := now\<rparr>)"
| TrustKey: "node_id_of cr pub = n \<Longrightarrow>
     sys_step cr cd S (S\<lparr>sys_eng :=
       (sys_eng S)\<lparr>eng_KeyRing := kr_Add n pub lvl (eng_KeyRing (sys_eng S))\<rparr>\<rparr>)"
| Outside: "sys_step cr cd S (S\<lparr>sys_world := w'\<rparr>)"
| Halt: "sys_step cr cd S (S\<lparr>sys_eng := engine_Stop (sys_eng S)\<rparr>)"

inductive_cases sys_stepE: "sys_step cr cd S S'"

lemmas sys_step_cases = sys_stepE [consumes 1,
  case_names Arrive Run Publish SweepSeen SweepLimiter TrustKey Outside Halt]

definition sys_init :: "'w Engine \<Rightarrow> 'w \<Rightarrow> instant \<Rightarrow> 'w sys" where
  "sys_init e w t0 = \<lparr>threads = fmempty, sys_eng = e, sys_world = w, clock = t0, ops = [],
     processed = []\<rparr>"

inductive sys_reach :: "crypto \<Rightarrow> 'r codec \<Rightarrow> 'w sys \<Rightarrow> 'w sys \<Rightarrow> bool" for cr cd S0 where
  reach_init: "sys_reach cr cd S0 S0"
| reach_step: "sys_reach cr cd S0 S \<Longrightarrow> sys_step cr cd S S' \<Longrightarrow> sys_reach cr cd S0 S'"

section \<open>One goroutine alone\<close>

lemma handle_steps_end [simp]: "handle_steps n cr cd rt from env H_end e w = (H_end, e, w)"
  by (induction n) simp_all

lemma Seen_deliver [frame_simps]: "Seen (fst (deliver env e w)) = Seen e"
  by (simp add: deliver_def split: option.splits)

lemma deliver_frame [frame_simps]:
  "eng_KeyRing (fst (deliver env e w)) = eng_KeyRing e" "Limiter (fst (deliver env e w)) = Limiter e"
  "getPeers (fst (deliver env e w)) = getPeers e" "fanout (fst (deliver env e w)) = fanout e"
  "statsForwarded (fst (deliver env e w)) = statsForwarded e"
  "statsDropped (fst (deliver env e w)) = statsDropped e"
  "eng_done (fst (deliver env e w)) = eng_done e"
  by (simp_all add: deliver_def split: option.splits)

lemma forwardTo_frame [frame_simps]:
  "Seen (fst (forwardTo rt raw x e w)) = Seen e"
  "eng_KeyRing (fst (forwardTo rt raw x e w)) = eng_KeyRing e"
  "Limiter (fst (forwardTo rt raw x e w)) = Limiter e"
  "statsReceived (fst (forwardTo rt raw x e w)) = statsReceived e"
  "eng_done (fst (forwardTo rt raw x e w)) = eng_done e"
  by (simp_all add: forwardTo_def Let_def split_beta)

lemma relay_frame [frame_simps]:
  "Seen (fst (relay cd rt from env e w)) = Seen e"
  "eng_KeyRing (fst (relay cd rt from env e w)) = eng_KeyRing e"
  "Limiter (fst (relay cd rt from env e w)) = Limiter e"
  "statsReceived (fst (relay cd rt from env e w)) = statsReceived e"
  "eng_done (fst (relay cd rt from env e w)) = eng_done e"
  by (simp_all add: relay_def frame_simps split: option.splits)

lemma deliver_eqD:
  "deliver env e w = (e', w') \<Longrightarrow>
     Seen e' = Seen e \<and> eng_KeyRing e' = eng_KeyRing e \<and> Limiter e' = Limiter e"
  using Seen_deliver [of env e w] deliver_frame [of env e w] by simp

lemma relay_eqD:
  "relay cd rt from env e w = (e', w') \<Longrightarrow>
     Seen e' = Seen e \<and> eng_KeyRing e' = eng_KeyRing e \<and> Limiter e' = Limiter e"
  using relay_frame [of cd rt "from" env e w] by simp

text \<open>Running the stages to the end, from the last one backwards.\<close>

lemma steps_relay:
  "handle_steps (Suc n) cr cd rt from env H_relay e w = (H_end, relay cd rt from env e w)"
  by (simp add: split_beta)

lemma steps_received:
  "handle_steps (Suc (Suc n)) cr cd rt from env (H_received t) e w =
     (H_end, case deliver env (e\<lparr>statsReceived := statsReceived e + 1\<rparr>) w of
               (e', w') \<Rightarrow> relay cd rt from env e' w')"
  unfolding handle_steps.simps(2) [of "Suc n"] by (simp add: split_beta steps_relay)

lemma steps_check:
  "handle_steps (Suc (Suc (Suc n))) cr cd rt from env H_check e w =
     (H_end, let (dup, sc) = seen_Check (MessageId env) (rt_check rt) (Seen e); e3 = e\<lparr>Seen := sc\<rparr> in
        if dup then (e3, w)
        else (let e4 = e3\<lparr>statsReceived := statsReceived e3 + 1\<rparr>; (e5, w') = deliver env e4 w
              in relay cd rt from env e5 w'))"
  unfolding handle_steps.simps(2) [of "Suc (Suc n)"] by (simp add: split_beta Let_def steps_received)

lemma steps_verify:
  "handle_steps (Suc (Suc (Suc (Suc (Suc n))))) cr cd rt from env (H_verify entry) e w =
     (H_end, if \<not> VerifyEnvelope cr env (PubKey entry) then (e, w)
       else
         (let (ok, rl) = rl_Allow (SenderId env) (rt_allow rt) (Limiter e); e2 = e\<lparr>Limiter := rl\<rparr> in
          if \<not> ok then (e2, w)
          else
            (let (dup, sc) = seen_Check (MessageId env) (rt_check rt) (Seen e2);
                 e3 = e2\<lparr>Seen := sc\<rparr> in
             if dup then (e3, w)
             else (let e4 = e3\<lparr>statsReceived := statsReceived e3 + 1\<rparr>; (e5, w') = deliver env e4 w
                   in relay cd rt from env e5 w'))))"
  unfolding handle_steps.simps(2) [of "Suc (Suc (Suc (Suc n)))"]
    handle_steps.simps(2) [of "Suc (Suc (Suc n))"]
  by (simp add: split_beta Let_def steps_check)

lemma handle_steps_run:
  "handle_steps (9 + n) cr cd rt from env H_start e w =
     (H_end, HandleIncoming cr cd rt from env e w)"
proof -
  have nine: "9 + n = Suc (Suc (Suc (Suc (Suc (Suc (Suc (Suc (Suc n))))))))" by simp
  show ?thesis
    unfolding nine handle_steps.simps(2) [of "Suc (Suc (Suc (Suc (Suc (Suc (Suc (Suc n)))))))"]
      handle_steps.simps(2) [of "Suc (Suc (Suc (Suc (Suc (Suc (Suc n))))))"]
      handle_steps.simps(2) [of "Suc (Suc (Suc (Suc (Suc (Suc n)))))"]
      handle_steps.simps(2) [of "Suc (Suc (Suc (Suc (Suc n))))"]
      HandleIncoming_def lookup_or_learn_def
    by (simp add: split_beta Let_def steps_verify steps_check del: handle_steps.simps(2) split: option.splits)
qed

section \<open>Invariants of the interleaving\<close>

text \<open>Every stored key hashes to the identifier it is stored under.\<close>

definition keys_bound :: "crypto \<Rightarrow> KeyRing \<Rightarrow> bool" where
  "keys_bound cr kr \<longleftrightarrow> (\<forall>n e. kr_Lookup n kr = Some e \<longrightarrow> node_id_of cr (PubKey e) = n)"

text \<open>A well-formed envelope signed under a key that hashes to its sender identifier.\<close>

definition authentic :: "crypto \<Rightarrow> Envelope \<Rightarrow> bool" where
  "authentic cr env \<longleftrightarrow> well_formed env \<and>
     (\<exists>pub. node_id_of cr pub = SenderId env \<and> VerifyEnvelope cr env pub)"

fun stage_ok :: "crypto \<Rightarrow> Envelope \<Rightarrow> hstage \<Rightarrow> bool" where
  "stage_ok cr env H_start \<longleftrightarrow> True"
| "stage_ok cr env H_end \<longleftrightarrow> True"
| "stage_ok cr env H_lookup \<longleftrightarrow> well_formed env"
| "stage_ok cr env H_relookup \<longleftrightarrow> well_formed env"
| "stage_ok cr env H_learn \<longleftrightarrow> well_formed env \<and> learnable cr env"
| "stage_ok cr env (H_verify entry) \<longleftrightarrow> well_formed env \<and> node_id_of cr (PubKey entry) = SenderId env"
| "stage_ok cr env st \<longleftrightarrow> authentic cr env"

definition auth_inv :: "crypto \<Rightarrow> 'w sys \<Rightarrow> bool" where
  "auth_inv cr S \<longleftrightarrow> keys_bound cr (eng_KeyRing (sys_eng S)) \<and>
     (\<forall>i from env st. fmlookup (threads S) i = Some (from, env, st) \<longrightarrow> stage_ok cr env st) \<and>
     (\<forall>x \<in> set (processed S). authentic cr (snd x))"

lemma keys_bound_New [simp]: "keys_bound cr NewKeyRing"
  by (simp add: keys_bound_def kr_defs)

lemma keys_bound_Add [inv_intros]:
  "keys_bound cr kr \<Longrightarrow> node_id_of cr pub = n \<Longrightarrow> keys_bound cr (kr_Add n pub lvl kr)"
  unfolding keys_bound_def by (rule kr.bindings_add)

lemma learnable_bound: "learnable cr env \<Longrightarrow> node_id_of cr (SenderPubkey env) = SenderId env"
  by (simp add: learnable_def node_id_of_def)

lemma handle_step_auth:
  assumes "keys_bound cr (eng_KeyRing e)" and "stage_ok cr env st"
    and "handle_step cr cd rt from env st e w = (st', e', w')"
  shows "keys_bound cr (eng_KeyRing e') \<and> stage_ok cr env st'"
  using assms
  by (cases st)
    (auto simp: split_beta keys_bound_Add learnable_bound authentic_def
       dest!: deliver_eqD relay_eqD split: if_splits option.splits, auto simp: keys_bound_def)

lemma Broadcast_frame [frame_simps]:
  "eng_KeyRing (fst (snd (Broadcast cd rt env e w))) = eng_KeyRing e"
  "Limiter (fst (snd (Broadcast cd rt env e w))) = Limiter e"
  "Seen (fst (snd (Broadcast cd rt env e w))) = snd (seen_Check (MessageId env) (rt_check rt) (Seen e))"
  by (simp_all add: Broadcast_def Let_def split_beta split: option.splits)

lemma auth_inv_step:
  assumes "auth_inv cr S" and "sys_step cr cd S S'"
  shows "auth_inv cr S'"
  using assms(2)
proof (cases rule: sys_step_cases)
  case (Run i frm env st rt st' e' w')
  have ok: "stage_ok cr env st" using assms(1) Run(2) by (auto simp: auth_inv_def)
  then have "keys_bound cr (eng_KeyRing e') \<and> stage_ok cr env st'"
    using handle_step_auth [OF _ _ Run(5)] assms(1) by (auto simp: auth_inv_def)
  moreover have "\<forall>x \<in> set (stage_processed env st). authentic cr (snd x)"
    using ok by (cases st) simp_all
  ultimately show ?thesis using assms(1) Run(1) by (auto simp: auth_inv_def split: if_splits)
next
  case (Publish rt env res e' w')
  then have "eng_KeyRing e' = eng_KeyRing (sys_eng S)"
    using Broadcast_frame(1) [of cd rt env "sys_eng S" "sys_world S"] by simp
  then show ?thesis using assms(1) Publish(1) by (simp add: auth_inv_def)
next
  case (TrustKey pub lvl)
  then show ?thesis using assms(1) keys_bound_Add [of cr _ pub] by (simp add: auth_inv_def)
qed (use assms(1) in \<open>auto simp: auth_inv_def engine_Stop_def split: if_splits\<close>)

text \<open>The seen cache is what the recorded operations make of the empty cache.\<close>

abbreviation cache_run :: "(instant \<times> dedup_op) list \<Rightarrow> SeenCache \<Rightarrow> (instant \<times> string) list \<times> SeenCache" where
  "cache_run \<equiv> dedup_run seen_Check seen_cleanup"

definition trace_inv :: "SeenCache \<Rightarrow> 'w sys \<Rightarrow> bool" where
  "trace_inv c0 S \<longleftrightarrow> Seen (sys_eng S) = snd (cache_run (ops S) c0) \<and>
     sorted (map fst (ops S)) \<and> (\<forall>x \<in> set (ops S). fst x \<le> clock S)"

lemma handle_step_seen:
  assumes "handle_step cr cd rt from env st e w = (st', e', w')"
  shows "Seen e' = snd (cache_run (stage_ops rt env st) (Seen e))"
  using assms
  by (cases st) (auto simp: split_beta dest!: deliver_eqD relay_eqD split: if_splits option.splits)

lemma trace_inv_append:
  assumes "trace_inv c0 S" and "ops S' = ops S @ new" and "Seen (sys_eng S') = snd (cache_run new (Seen (sys_eng S)))"
    and "sorted (map fst new)" and "\<forall>x \<in> set new. clock S \<le> fst x \<and> fst x \<le> clock S'"
    and "clock S \<le> clock S'"
  shows "trace_inv c0 S'"
  using assms by (fastforce simp: trace_inv_def dedup_run_append sorted_append)

lemma stage_ops_times:
  assumes "c \<le> rt_allow rt" and "c \<le> rt_check rt"
  shows "sorted (map fst (stage_ops rt env st))" "c \<le> stage_clock rt st c"
    "\<forall>x \<in> set (stage_ops rt env st). c \<le> fst x \<and> fst x \<le> stage_clock rt st c"
  using assms by (cases st; simp)+

lemma trace_inv_step:
  assumes "trace_inv c0 S" and "sys_step cr cd S S'"
  shows "trace_inv c0 S'"
  using assms(2)
proof (cases rule: sys_step_cases)
  case (Run i frm env st rt st' e' w')
  then show ?thesis
    using stage_ops_times [OF Run(3,4)] handle_step_seen [OF Run(5)]
    by (intro trace_inv_append [OF assms(1), of _ "stage_ops rt env st"]) simp_all
next
  case (Publish rt env res e' w')
  then have "Seen e' = snd (seen_Check (MessageId env) (rt_check rt) (Seen (sys_eng S)))"
    using Broadcast_frame(3) [of cd rt env "sys_eng S" "sys_world S"] by simp
  then show ?thesis using Publish
    by (intro trace_inv_append [OF assms(1), of _ "[(rt_check rt, Check (MessageId env))]"])
      (simp_all add: split_beta)
next
  case (SweepSeen now)
  then show ?thesis by (intro trace_inv_append [OF assms(1), of _ "[(now, Sweep)]"]) simp_all
next
  case (SweepLimiter now)
  then show ?thesis by (intro trace_inv_append [OF assms(1), of _ "[]"]) simp_all
qed (use assms(1) in \<open>auto simp: trace_inv_def engine_Stop_def split: if_splits\<close>)

text \<open>
  Every acceptance by the cache belongs to one goroutine: those between acceptance and delivery
  and the processed messages are distinct acceptances.
\<close>

abbreviation proc_key :: "instant \<times> Envelope \<Rightarrow> instant \<times> string" where
  "proc_key x \<equiv> (fst x, MessageId (snd x))"

definition once_inv :: "SeenCache \<Rightarrow> 'w sys \<Rightarrow> bool" where
  "once_inv c0 S \<longleftrightarrow> distinct (map proc_key (processed S)) \<and>
     set (map proc_key (processed S)) \<subseteq> set (fst (cache_run (ops S) c0)) \<and>
     (\<forall>i from env t. fmlookup (threads S) i = Some (from, env, H_received t) \<longrightarrow>
        (t, MessageId env) \<in> set (fst (cache_run (ops S) c0)) - set (map proc_key (processed S)) \<and>
        (\<forall>j from' env'. fmlookup (threads S) j = Some (from', env', H_received t) \<longrightarrow>
           MessageId env' = MessageId env \<longrightarrow> j = i))"

lemma handle_step_received:
  assumes "handle_step cr cd rt from env st e w = (H_received t, e', w')"
  shows "st = H_check" "t = rt_check rt"
    "fst (cache_run (stage_ops rt env st) (Seen e)) = [(t, MessageId env)]"
  using assms by (cases st; auto simp: split_beta split: if_splits option.splits)+

lemma accepted_fresh:
  assumes "sorted (map fst (ops1 @ ops2))" and "0 \<le> sc_ttl c0"
    and "x \<in> set (fst (cache_run ops2 (snd (cache_run ops1 c0))))"
  shows "x \<notin> set (fst (cache_run ops1 c0))"
  using seen.accepted_apart [OF assms(1), of c0] assms(2,3)
  by (cases x) (fastforce simp: dedup_run_append sorted_wrt_append)

lemma once_inv_quiet:
  assumes "once_inv c0 S" and "threads S' = threads S" and "processed S' = processed S"
    and "ops S' = ops S @ new"
  shows "once_inv c0 S'"
  using assms unfolding once_inv_def by (fastforce simp: dedup_run_append)

lemma once_inv_received:
  assumes "once_inv c0 S" and "fmlookup (threads S) i = Some (frm, env, H_received t)"
    and "st' = H_relay" and "threads S' = fmupd i (frm, env, st') (threads S)"
    and "ops S' = ops S" and "processed S' = processed S @ [(t, env)]"
  shows "once_inv c0 S'"
  using assms unfolding once_inv_def by (auto split: if_splits)

lemma once_inv_accept:
  assumes "once_inv c0 S" and "st' = H_received t" and "threads S' = fmupd i (frm, env, st') (threads S)"
    and "ops S' = ops S @ new" and "processed S' = processed S"
    and "fst (cache_run new (snd (cache_run (ops S) c0))) = [(t, MessageId env)]"
    and "(t, MessageId env) \<notin> set (fst (cache_run (ops S) c0))"
  shows "once_inv c0 S'"
proof -
  have acc: "fst (cache_run (ops S') c0) = fst (cache_run (ops S) c0) @ [(t, MessageId env)]"
    using assms(4,6) by (simp add: dedup_run_append)
  show ?thesis
    using assms(1-3,5,7) unfolding once_inv_def acc
    by (auto split: if_splits) metis
qed

lemma once_inv_other:
  assumes "once_inv c0 S" and "\<forall>t. st' \<noteq> H_received t"
    and "threads S' = fmupd i (frm, env, st') (threads S)"
    and "ops S' = ops S @ new" and "processed S' = processed S"
  shows "once_inv c0 S'"
  using assms unfolding once_inv_def by (fastforce simp: dedup_run_append split: if_splits)

lemma once_inv_step:
  assumes "once_inv c0 S" and "trace_inv c0 S" and "0 \<le> sc_ttl c0" and "sys_step cr cd S S'"
  shows "once_inv c0 S'"
  using assms(4)
proof (cases rule: sys_step_cases)
  case (Arrive i frm env)
  then show ?thesis by (intro once_inv_other [OF assms(1), of H_start _ i frm env "[]"]) simp_all
next
  case (Run i frm env st rt st' e' w')
  have trace: "Seen (sys_eng S) = snd (cache_run (ops S) c0)" using assms(2) by (simp add: trace_inv_def)
  consider (received) t where "st = H_received t" | (accept) t where "st' = H_received t"
    | (other) "\<forall>t. st \<noteq> H_received t" "\<forall>t. st' \<noteq> H_received t" by blast
  then show ?thesis
  proof cases
    case received
    then have "st' = H_relay" using Run(5) by (auto simp: split_beta)
    then show ?thesis using Run received by (intro once_inv_received [OF assms(1), of i frm env t]) simp_all
  next
    case accept
    note acc = handle_step_received [OF Run(5) [unfolded accept]]
    have "trace_inv c0 S'" using trace_inv_step [OF assms(2,4)] .
    then have "sorted (map fst (ops S @ stage_ops rt env st))" using Run(1) by (simp add: trace_inv_def)
    moreover have "(t, MessageId env) \<in>
        set (fst (cache_run (stage_ops rt env st) (snd (cache_run (ops S) c0))))"
      unfolding trace [symmetric] acc(3) by simp
    ultimately have "(t, MessageId env) \<notin> set (fst (cache_run (ops S) c0))"
      by (rule accepted_fresh [OF _ assms(3)])
    then show ?thesis using Run acc accept
      by (intro once_inv_accept [OF assms(1), of st' t _ i frm env "stage_ops rt env st"])
        (simp_all flip: trace)
  next
    case other
    then have "stage_processed env st = []" by (cases st) simp_all
    then show ?thesis using Run other
      by (intro once_inv_other [OF assms(1), of st' _ i frm env "stage_ops rt env st"]) simp_all
  qed
next
  case (Publish rt env res e' w')
  then show ?thesis by (intro once_inv_quiet [OF assms(1)]) simp_all
next
  case (SweepSeen now)
  then show ?thesis by (intro once_inv_quiet [OF assms(1)]) simp_all
qed (use assms(1) in \<open>auto intro: once_inv_quiet [where new = "[]"]\<close>)

lemma sys_reach_inv:
  assumes "sys_reach cr cd (sys_init e w t0) S" and "Seen e = c0" and "0 \<le> sc_ttl c0"
    and "keys_bound cr (eng_KeyRing e)"
  shows "auth_inv cr S \<and> trace_inv c0 S \<and> once_inv c0 S"
  using assms
proof (induction rule: sys_reach.induct)
  case reach_init
  then show ?case by (simp add: sys_init_def auth_inv_def trace_inv_def once_inv_def)
next
  case (reach_step S S')
  then show ?case using auth_inv_step trace_inv_step once_inv_step by blast
qed

section \<open>The handler, check by check\<close>

text \<open>The checks before the rate limiter, and all checks.\<close>

definition verified_by :: "crypto \<Rightarrow> Envelope \<Rightarrow> 'w Engine \<Rightarrow> KeyEntry \<Rightarrow> bool" where
  "verified_by cr env e entry \<longleftrightarrow> well_formed env \<and> \<not> seen_Has (MessageId env) (Seen e) \<and>
     fst (lookup_or_learn cr env (eng_KeyRing e)) = Some entry \<and> VerifyEnvelope cr env (PubKey entry)"

definition admitted :: "crypto \<Rightarrow> runtime \<Rightarrow> Envelope \<Rightarrow> 'w Engine \<Rightarrow> bool" where
  "admitted cr rt env e \<longleftrightarrow> (\<exists>entry. verified_by cr env e entry) \<and>
     fst (rl_Allow (SenderId env) (rt_allow rt) (Limiter e))"

text \<open>The engine after the checks and the test-and-set, before delivery.\<close>

definition accept_state :: "crypto \<Rightarrow> runtime \<Rightarrow> Envelope \<Rightarrow> 'w Engine \<Rightarrow> 'w Engine" where
  "accept_state cr rt env e =
     e\<lparr>eng_KeyRing := snd (lookup_or_learn cr env (eng_KeyRing e)),
       Limiter := snd (rl_Allow (SenderId env) (rt_allow rt) (Limiter e)),
       Seen := snd (seen_Check (MessageId env) (rt_check rt) (Seen e)),
       statsReceived := statsReceived e + 1\<rparr>"

lemma HandleIncoming_admitted:
  assumes "admitted cr rt env e"
  shows "HandleIncoming cr cd rt from env e w =
    (case deliver env (accept_state cr rt env e) w of (e', w') \<Rightarrow> relay cd rt from env e' w')"
  using assms unfolding admitted_def verified_by_def
  by (auto simp: HandleIncoming_def accept_state_def Let_def split_beta)

lemma HandleIncoming_admitted_frame:
  assumes "admitted cr rt env e" and "HandleIncoming cr cd rt from env e w = (e', w')"
  shows "Seen e' = snd (seen_Check (MessageId env) (rt_check rt) (Seen e))"
    "eng_KeyRing e' = snd (lookup_or_learn cr env (eng_KeyRing e))"
    "Limiter e' = snd (rl_Allow (SenderId env) (rt_allow rt) (Limiter e))"
    "eng_done e' = eng_done e"
proof -
  have e': "e' = fst (HandleIncoming cr cd rt from env e w)" using assms(2) by simp
  show "Seen e' = snd (seen_Check (MessageId env) (rt_check rt) (Seen e))"
    "eng_KeyRing e' = snd (lookup_or_learn cr env (eng_KeyRing e))"
    "Limiter e' = snd (rl_Allow (SenderId env) (rt_allow rt) (Limiter e))"
    "eng_done e' = eng_done e"
    unfolding e' HandleIncoming_admitted [OF assms(1)]
    by (simp_all add: split_beta frame_simps accept_state_def)
qed

lemma HandleIncoming_refused:
  assumes "\<not> admitted cr rt env e"
  shows "\<exists>kr rl. HandleIncoming cr cd rt from env e w = (e\<lparr>eng_KeyRing := kr, Limiter := rl\<rparr>, w)"
proof -
  have same: "e = e\<lparr>eng_KeyRing := eng_KeyRing e, Limiter := Limiter e\<rparr>"
    "e\<lparr>eng_KeyRing := kr\<rparr> = e\<lparr>eng_KeyRing := kr, Limiter := Limiter e\<rparr>" for kr
    by simp_all
  consider "\<not> well_formed env \<or> seen_Has (MessageId env) (Seen e)"
    | "well_formed env" "\<not> seen_Has (MessageId env) (Seen e)"
      "fst (lookup_or_learn cr env (eng_KeyRing e)) = None"
    | entry where "well_formed env" "\<not> seen_Has (MessageId env) (Seen e)"
      "fst (lookup_or_learn cr env (eng_KeyRing e)) = Some entry" by fastforce
  then show ?thesis
  proof cases
    case 1
    then have "HandleIncoming cr cd rt from env e w = (e, w)" by (auto simp: HandleIncoming_def)
    then show ?thesis using same(1) by metis
  next
    case 2
    then have "HandleIncoming cr cd rt from env e w =
        (e\<lparr>eng_KeyRing := snd (lookup_or_learn cr env (eng_KeyRing e))\<rparr>, w)"
      by (simp add: HandleIncoming_def Let_def split_beta)
    then show ?thesis using same(2) by metis
  next
    case 3
    show ?thesis
    proof (cases "VerifyEnvelope cr env (PubKey entry)")
      case True
      then have "\<not> fst (rl_Allow (SenderId env) (rt_allow rt) (Limiter e))"
        using assms 3 by (auto simp: admitted_def verified_by_def)
      then show ?thesis using 3 True by (auto simp: HandleIncoming_def Let_def split_beta)
    next
      case False
      then have "HandleIncoming cr cd rt from env e w =
          (e\<lparr>eng_KeyRing := snd (lookup_or_learn cr env (eng_KeyRing e))\<rparr>, w)"
        using 3 by (simp add: HandleIncoming_def Let_def split_beta)
      then show ?thesis using same(2) by metis
    qed
  qed
qed

lemma HandleIncoming_keyring:
  "eng_KeyRing (fst (HandleIncoming cr cd rt from env e w)) = eng_KeyRing e \<or>
   eng_KeyRing (fst (HandleIncoming cr cd rt from env e w)) = snd (lookup_or_learn cr env (eng_KeyRing e))"
  by (simp add: HandleIncoming_def Let_def split_beta frame_simps split: option.splits)

text \<open>A refused rate limit is the only change of the limiter among the refusals.\<close>

lemma HandleIncoming_rate_limited:
  assumes "verified_by cr env e entry" and "rl_Allow (SenderId env) (rt_allow rt) (Limiter e) = (False, rl)"
  shows "HandleIncoming cr cd rt from env e w =
    (e\<lparr>eng_KeyRing := snd (lookup_or_learn cr env (eng_KeyRing e)), Limiter := rl\<rparr>, w)"
  using assms by (simp add: HandleIncoming_def verified_by_def Let_def split_beta)

lemma lookup_or_learn_again:
  assumes "fst (lookup_or_learn cr env kr) = Some entry"
  shows "lookup_or_learn cr env (snd (lookup_or_learn cr env kr)) =
    (Some entry, snd (lookup_or_learn cr env kr))"
  using assms by (auto simp: lookup_or_learn_def Let_def split: option.splits if_splits)

lemma keys_bound_lookup:
  assumes "keys_bound cr kr" and "fst (lookup_or_learn cr env kr) = Some entry"
  shows "node_id_of cr (PubKey entry) = SenderId env"
  using assms keys_bound_Add [OF assms(1) learnable_bound, of env TrustGossipLearned]
  by (auto simp: lookup_or_learn_def Let_def keys_bound_def split: option.splits if_splits)

section \<open>A call without interruption\<close>

text \<open>What the stages of one call add to the processed messages.\<close>

primrec steps_processed ::
  "nat \<Rightarrow> crypto \<Rightarrow> 'r codec \<Rightarrow> runtime \<Rightarrow> node_id \<Rightarrow> Envelope \<Rightarrow> hstage \<Rightarrow> 'w Engine \<Rightarrow> 'w \<Rightarrow>
     (instant \<times> Envelope) list" where
  "steps_processed 0 cr cd rt from env st e w = []"
| "steps_processed (Suc n) cr cd rt from env st e w = stage_processed env st @
     (let (st', e', w') = handle_step cr cd rt from env st e w
      in steps_processed n cr cd rt from env st' e' w')"

lemma steps_processed_end [simp]: "steps_processed n cr cd rt from env H_end e w = []"
  by (induction n) simp_all

lemma processed_relay [simp]: "steps_processed n cr cd rt from env H_relay e w = []"
  by (cases n) (simp_all add: split_beta)

lemma processed_received: "steps_processed (Suc n) cr cd rt from env (H_received t) e w = [(t, env)]"
  by (simp add: split_beta)

lemma processed_check:
  "steps_processed (Suc (Suc n)) cr cd rt from env H_check e w =
     (if seen_Has (MessageId env) (Seen e) then [] else [(rt_check rt, env)])"
  unfolding steps_processed.simps(2) [of "Suc n"] by (simp add: split_beta processed_received)

lemma processed_verify:
  "steps_processed (Suc (Suc (Suc (Suc n)))) cr cd rt from env (H_verify entry) e w =
     (if VerifyEnvelope cr env (PubKey entry) \<and> fst (rl_Allow (SenderId env) (rt_allow rt) (Limiter e)) \<and>
         \<not> seen_Has (MessageId env) (Seen e) then [(rt_check rt, env)] else [])"
  unfolding steps_processed.simps(2) [of "Suc (Suc (Suc n))"] steps_processed.simps(2) [of "Suc (Suc n)"]
  by (simp add: split_beta processed_check)

lemma processed_start:
  "steps_processed 9 cr cd rt from env H_start e w =
     (if admitted cr rt env e then [(rt_check rt, env)] else [])"
proof -
  have nine: "(9::nat) = Suc (Suc (Suc (Suc (Suc (Suc (Suc (Suc (Suc 0))))))))" by simp
  show ?thesis
    unfolding nine steps_processed.simps(2) [of "Suc (Suc (Suc (Suc (Suc (Suc (Suc (Suc 0)))))))"]
      steps_processed.simps(2) [of "Suc (Suc (Suc (Suc (Suc (Suc (Suc 0))))))"]
      steps_processed.simps(2) [of "Suc (Suc (Suc (Suc (Suc (Suc 0)))))"]
      steps_processed.simps(2) [of "Suc (Suc (Suc (Suc (Suc 0))))"]
      admitted_def verified_by_def lookup_or_learn_def
    by (simp add: split_beta Let_def processed_verify processed_check del: steps_processed.simps(2)
        split: option.splits)
qed

text \<open>The stages before the test-and-set: only these can still read the limiter's clock.\<close>

fun early_stage :: "hstage \<Rightarrow> bool" where
  "early_stage H_check = False"
| "early_stage (H_received t) = False"
| "early_stage H_relay = False"
| "early_stage H_end = False"
| "early_stage _ = True"

lemma stage_time_order:
  assumes "handle_step cr cd rt from env st e w = (st', e', w')" and "c \<le> rt_check rt"
    and "rt_allow rt \<le> rt_check rt" and "early_stage st \<longrightarrow> c \<le> rt_allow rt"
  shows "stage_clock rt st c \<le> rt_check rt \<and> (early_stage st' \<longrightarrow> stage_clock rt st c \<le> rt_allow rt)"
  using assms by (cases st) (auto simp: split_beta split: if_splits option.splits)

lemma relay_no_limiter_clock:
  "relay cd (rt\<lparr>rt_allow := t\<rparr>) from env e w = relay cd rt from env e w"
proof -
  have "forwardTo (rt\<lparr>rt_allow := t\<rparr>) raw from e w = forwardTo rt raw from e w" for raw
    by (simp add: forwardTo_def Let_def split_beta)
  then show ?thesis by (simp add: relay_def split: option.splits)
qed

lemma handle_step_late:
  assumes "\<not> early_stage st"
  shows "handle_step cr cd (rt\<lparr>rt_allow := t\<rparr>) from env st e w = handle_step cr cd rt from env st e w \<and>
    stage_clock (rt\<lparr>rt_allow := t\<rparr>) st c = stage_clock rt st c"
  using assms by (cases st) (simp_all add: relay_no_limiter_clock split_beta)

lemma solo_step:
  assumes "sys_reach cr cd S0 S" and "fmlookup (threads S) i = Some (frm, env, st)"
    and "clock S \<le> rt_check rt" and "rt_allow rt \<le> rt_check rt"
    and "early_stage st \<longrightarrow> clock S \<le> rt_allow rt"
    and "handle_step cr cd rt frm env st (sys_eng S) (sys_world S) = (st', e', w')"
  shows "\<exists>S'. sys_reach cr cd S0 S' \<and> fmlookup (threads S') i = Some (frm, env, st') \<and>
    sys_eng S' = e' \<and> sys_world S' = w' \<and> clock S' = stage_clock rt st (clock S) \<and>
    processed S' = processed S @ stage_processed env st \<and> fmdom (threads S') = fmdom (threads S)"
proof -
  define rt' where "rt' = (if early_stage st then rt else rt\<lparr>rt_allow := rt_check rt\<rparr>)"
  have run: "handle_step cr cd rt' frm env st (sys_eng S) (sys_world S) = (st', e', w')"
    and clk: "stage_clock rt' st (clock S) = stage_clock rt st (clock S)"
    using assms(6) by (simp_all add: rt'_def handle_step_late)
  have "clock S \<le> rt_allow rt'" "clock S \<le> rt_check rt'"
    using assms(3,5) by (simp_all add: rt'_def)
  note step = sys_step.Run [OF assms(2) this run]
  show ?thesis
    by (rule exI, intro conjI, rule reach_step [OF assms(1) step])
      (use fmdomI [OF assms(2)] in \<open>auto simp: clk\<close>)
qed

lemma solo_steps:
  assumes "sys_reach cr cd S0 S" and "fmlookup (threads S) i = Some (frm, env, st)"
    and "clock S \<le> rt_check rt" and "rt_allow rt \<le> rt_check rt"
    and "early_stage st \<longrightarrow> clock S \<le> rt_allow rt"
  shows "\<exists>S'. sys_reach cr cd S0 S' \<and>
    fmlookup (threads S') i =
      Some (frm, env, fst (handle_steps n cr cd rt frm env st (sys_eng S) (sys_world S))) \<and>
    (sys_eng S', sys_world S') = snd (handle_steps n cr cd rt frm env st (sys_eng S) (sys_world S)) \<and>
    clock S' \<le> rt_check rt \<and>
    processed S' = processed S @ steps_processed n cr cd rt frm env st (sys_eng S) (sys_world S) \<and>
    fmdom (threads S') = fmdom (threads S)"
  using assms
proof (induction n arbitrary: S st)
  case 0
  then show ?case by (intro exI [of _ S]) simp
next
  case (Suc n)
  obtain st' e' w' where h: "handle_step cr cd rt frm env st (sys_eng S) (sys_world S) = (st', e', w')"
    by (metis prod_cases3)
  from solo_step [OF Suc.prems h] obtain S1 where S1: "sys_reach cr cd S0 S1"
    "fmlookup (threads S1) i = Some (frm, env, st')" "sys_eng S1 = e'" "sys_world S1 = w'"
    "clock S1 = stage_clock rt st (clock S)" "processed S1 = processed S @ stage_processed env st"
    "fmdom (threads S1) = fmdom (threads S)"
    by blast
  note t = stage_time_order [OF h Suc.prems(3,4,5)]
  from Suc.IH [OF S1(1,2)] t Suc.prems(4) show ?case
    unfolding S1(3-7) handle_steps.simps(2) steps_processed.simps(2) h by simp
qed

lemma solo_call:
  assumes "sys_reach cr cd S0 S" and "clock S \<le> rt_allow rt" and "rt_allow rt \<le> rt_check rt"
    and "i |\<notin>| fmdom (threads S)"
  shows "\<exists>S'. sys_reach cr cd S0 S' \<and>
    (sys_eng S', sys_world S') = HandleIncoming cr cd rt from env (sys_eng S) (sys_world S) \<and>
    fmlookup (threads S') i = Some (from, env, H_end) \<and> clock S' \<le> rt_check rt \<and>
    processed S' = processed S @
      (if admitted cr rt env (sys_eng S) then [(rt_check rt, env)] else []) \<and>
    fmdom (threads S') = finsert i (fmdom (threads S))"
proof -
  let ?S1 = "S\<lparr>threads := fmupd i (from, env, H_start) (threads S)\<rparr>"
  have reach: "sys_reach cr cd S0 ?S1" by (rule reach_step [OF assms(1) sys_step.Arrive [OF assms(4)]])
  have nine: "handle_steps 9 cr cd rt from env H_start (sys_eng S) (sys_world S) =
      (H_end, HandleIncoming cr cd rt from env (sys_eng S) (sys_world S))"
    using handle_steps_run [of 0 cr cd rt "from" env "sys_eng S" "sys_world S"] by simp
  from solo_steps [OF reach, of i "from" env H_start rt 9] obtain S' where "sys_reach cr cd S0 S'"
    "fmlookup (threads S') i = Some (from, env, H_end)" "clock S' \<le> rt_check rt"
    "(sys_eng S', sys_world S') = HandleIncoming cr cd rt from env (sys_eng S) (sys_world S)"
    "processed S' = processed S @ (if admitted cr rt env (sys_eng S) then [(rt_check rt, env)] else [])"
    "fmdom (threads S') = finsert i (fmdom (threads S))"
    using assms(2,3) by (auto simp: nine processed_start simp del: handle_steps.simps steps_processed.simps)
  then show ?thesis by blast
qed

section \<open>Sending\<close>

lemma send_each_le: "fst (send_each raw ps w) \<le> length ps"
proof (induction ps arbitrary: w)
  case (Cons p ps)
  then show ?case using Cons [of "snd (ph_Send p raw w)"] by (simp add: split_beta Let_def le_SucI)
qed simp

lemma send_each_append:
  "send_each raw (ps @ qs) w =
     (case send_each raw ps w of (a, w1) \<Rightarrow> case send_each raw qs w1 of (b, w2) \<Rightarrow> (a + b, w2))"
proof (induction ps arbitrary: w)
  case (Cons p ps)
  then show ?case using Cons [of "snd (ph_Send p raw w)"] by (simp add: split_beta Let_def)
qed (simp add: split_beta)

text \<open>
  What the engine relies on when it sends: each peer has a bounded queue, a send appends to the
  queue of the named peer or reports that it is full, and nothing else changes (\<open>rest\<close>).
\<close>

locale message_sink =
  fixes inbox :: "'w \<Rightarrow> node_id \<Rightarrow> bytes list option"
    and send :: "node_id \<Rightarrow> bytes \<Rightarrow> 'w \<Rightarrow> bool \<times> 'w"
    and cap :: nat
    and rest :: "'w \<Rightarrow> 'v"
  assumes send_room: "inbox w n = Some q \<Longrightarrow> length q < cap \<Longrightarrow>
      \<exists>w'. send n raw w = (True, w') \<and> inbox w' = (inbox w)(n \<mapsto> q @ [raw])"
    and send_full: "inbox w n = Some q \<Longrightarrow> \<not> length q < cap \<Longrightarrow> send n raw w = (False, w)"
    and send_rest: "inbox w n = Some q \<Longrightarrow> rest (snd (send n raw w)) = rest w"
begin

lemma send_each_inbox:
  assumes "distinct (map ph_NodeID ps)"
    and "\<And>p. p \<in> set ps \<Longrightarrow> ph_Send p = send (ph_NodeID p)"
    and "\<And>p. p \<in> set ps \<Longrightarrow> inbox w (ph_NodeID p) \<noteq> None"
  shows "fst (send_each raw ps w) = length (filter (\<lambda>p. length (the (inbox w (ph_NodeID p))) < cap) ps) \<and>
    rest (snd (send_each raw ps w)) = rest w \<and>
    (\<forall>n. inbox (snd (send_each raw ps w)) n =
       (if n \<in> ph_NodeID ` set ps
        then map_option (\<lambda>q. if length q < cap then q @ [raw] else q) (inbox w n) else inbox w n))"
  using assms
proof (induction ps arbitrary: w)
  case (Cons p ps)
  let ?n = "ph_NodeID p"
  obtain q where q: "inbox w ?n = Some q" using Cons.prems(3) [of p] by auto
  obtain ok w1 where s: "ph_Send p raw w = (ok, w1)" by fastforce
  have s': "send ?n raw w = (ok, w1)" using s Cons.prems(2) [of p] by simp
  have w1: "ok = (length q < cap)" "rest w1 = rest w"
    "inbox w1 = (if length q < cap then (inbox w)(?n \<mapsto> q @ [raw]) else inbox w)"
    using send_room [OF q, of raw] send_full [OF q, of raw] send_rest [OF q, of raw] s'
    by (cases "length q < cap"; auto)+
  have fresh: "?n \<notin> ph_NodeID ` set ps" using Cons.prems(1) by auto
  have same: "inbox w1 (ph_NodeID p') = inbox w (ph_NodeID p')" if "p' \<in> set ps" for p'
  proof -
    have "ph_NodeID p' \<noteq> ?n" using that fresh by (metis image_eqI)
    then show ?thesis using w1(3) by simp
  qed
  have "filter (\<lambda>p. length (the (inbox w1 (ph_NodeID p))) < cap) ps =
      filter (\<lambda>p. length (the (inbox w (ph_NodeID p))) < cap) ps"
    using same by (intro filter_cong) simp_all
  moreover have "inbox w1 (ph_NodeID p') \<noteq> None" if "p' \<in> set ps" for p'
    using that Cons.prems(3) [of p'] same [OF that] by simp
  ultimately show ?case
    using Cons.IH [of w1] Cons.prems s w1 q fresh
    by (auto simp: split_beta Let_def)
qed simp

end

text \<open>The subset of the peers a message is forwarded to.\<close>

definition forward_set :: "runtime \<Rightarrow> node_id \<Rightarrow> 'w Engine \<Rightarrow> 'w \<Rightarrow> 'w PeerHandle list" where
  "forward_set rt x e w =
     (let candidates = filter (\<lambda>p. ph_NodeID p \<noteq> x) (getPeers e (rt_order rt) w)
      in if length candidates > fanout e then take (fanout e) (Shuffle (rt_draws rt) candidates)
         else candidates)"

lemma forward_set_facts:
  "length (forward_set rt x e w) =
     min (fanout e) (length (filter (\<lambda>p. ph_NodeID p \<noteq> x) (getPeers e (rt_order rt) w)))"
  "set (forward_set rt x e w) \<subseteq> {p \<in> set (getPeers e (rt_order rt) w). ph_NodeID p \<noteq> x}"
  "distinct (getPeers e (rt_order rt) w) \<Longrightarrow> distinct (forward_set rt x e w)"
  by (auto simp: forward_set_def Let_def dest: set_take_subset_elem)

lemma forwardTo_eq:
  "forwardTo rt raw x e w =
     (let ps = forward_set rt x e w; (sent, w') = send_each raw ps w
      in (e\<lparr>statsForwarded := statsForwarded e + of_nat sent,
            statsDropped := statsDropped e + of_nat (length ps - sent)\<rparr>, w'))"
proof (cases "filter (\<lambda>p. ph_NodeID p \<noteq> x) (getPeers e (rt_order rt) w) = []")
  case True
  then show ?thesis by (simp add: forwardTo_def forward_set_def Let_def)
next
  case False
  then show ?thesis
    unfolding forwardTo_def forward_set_def Let_def by (auto simp: split_beta)
qed

section \<open>Properties\<close>

text \<open>
  C1. At most once, under any interleaving. Whatever the order in which concurrent handlers,
  local broadcasts, cleanups and key additions run on a new engine, two processed copies of a
  message were accepted more than the seen cache's lifetime (five minutes) apart, although the
  first duplicate check and the marking are separate lock operations.
\<close>

theorem engine_processes_once:
  assumes "sys_reach cr cd (sys_init ((NewEngine lid gp)\<lparr>handlers := hs\<rparr>) w t0) S"
    and "i < j" and "j < length (processed S)"
    and "MessageId (snd (processed S ! i)) = MessageId (snd (processed S ! j))"
  shows "DefaultSeenTTL < \<bar>fst (processed S ! i) - fst (processed S ! j)\<bar>"
proof -
  let ?c = "NewSeenCache DefaultSeenTTL"
  have "trace_inv ?c S \<and> once_inv ?c S"
    using sys_reach_inv [OF assms(1), of ?c]
    by (simp add: NewEngine_def NewSeenCache_def DefaultSeenTTL_def duration_defs)
  then have sorted: "sorted (map fst (ops S))" and dist: "distinct (map proc_key (processed S))"
    and acc: "set (map proc_key (processed S)) \<subseteq> set (fst (cache_run (ops S) ?c))"
    by (simp_all add: trace_inv_def once_inv_def)
  define t u k where "t = fst (processed S ! i)" "u = fst (processed S ! j)"
    "k = MessageId (snd (processed S ! j))"
  have mem: "proc_key (processed S ! n) \<in> set (fst (cache_run (ops S) ?c))"
    if "n < length (processed S)" for n
    using acc nth_mem [OF that] by auto
  have "(t, k) \<in> set (fst (cache_run (ops S) ?c))" "(u, k) \<in> set (fst (cache_run (ops S) ?c))"
    using mem [of i] mem [of j] assms(2-4) by (simp_all add: t_u_k_def)
  moreover have "(t, k) \<noteq> (u, k)"
    using dist assms(2-4) nth_eq_iff_index_eq [OF dist, of i j] by (simp add: t_u_k_def)
  ultimately obtain a b where ab: "a \<noteq> b" "a < length (fst (cache_run (ops S) ?c))"
    "b < length (fst (cache_run (ops S) ?c))" "fst (cache_run (ops S) ?c) ! a = (t, k)"
    "fst (cache_run (ops S) ?c) ! b = (u, k)"
    by (metis in_set_conv_nth)
  then show ?thesis
    using sorted_wrt_nth_less [OF seen.accepted_apart [OF sorted, of ?c], of a b]
      sorted_wrt_nth_less [OF seen.accepted_apart [OF sorted, of ?c], of b a]
    by (cases "a < b") (simp_all add: NewSeenCache_def t_u_k_def(1,2))
qed

text \<open>
  C2. Authenticity, under any interleaving: every processed envelope is well formed and carries
  a valid signature under a key whose hash is the sender identifier. This holds from the start on,
  whichever keys the envelopes brought along, provided the transport adds only keys it has hashed.
\<close>

theorem engine_processed_authentic:
  assumes "sys_reach cr cd (sys_init ((NewEngine lid gp)\<lparr>handlers := hs\<rparr>) w t0) S"
    and "(t, env) \<in> set (processed S)"
  shows "\<exists>pub. node_id_of cr pub = SenderId env \<and> VerifyEnvelope cr env pub \<and>
    MessageId env \<noteq> [] \<and> length (MessageId env) \<le> MaxFieldLen \<and>
    length (Payload env) \<le> MaxGossipPayload"
proof -
  have "auth_inv cr S"
    using sys_reach_inv [OF assms(1) refl]
    by (simp add: NewEngine_def NewSeenCache_def DefaultSeenTTL_def duration_defs)
  then show ?thesis
    using assms(2) by (fastforce simp: auth_inv_def authentic_def well_formed_def)
qed

text \<open>
  C11. The interleaved stages are the handler. From every reachable state, an arriving message
  whose goroutine runs without interruption leads to a reachable state with exactly the engine and
  node state \<^verbatim>\<open>HandleIncoming\<close> returns, after at most nine stages, and the envelope is recorded as
  processed exactly when all checks admit it.
\<close>

theorem solo_call_is_interleaving:
  assumes "sys_reach cr cd S0 S" and "clock S \<le> rt_allow rt" and "rt_allow rt \<le> rt_check rt"
    and "i |\<notin>| fmdom (threads S)"
  shows "\<exists>S'. sys_reach cr cd S0 S' \<and>
    (sys_eng S', sys_world S') = HandleIncoming cr cd rt from env (sys_eng S) (sys_world S) \<and>
    fmlookup (threads S') i = Some (from, env, H_end) \<and> clock S' \<le> rt_check rt \<and>
    processed S' = processed S @
      (if admitted cr rt env (sys_eng S) then [(rt_check rt, env)] else [])"
  using solo_call [OF assms] by blast

text \<open>
  C3. Nothing happens before all checks have passed. If a call changes the rest of the node, the
  seen cache or a counter, then the envelope was well formed and new, verified under the key stored
  or just learned for its sender, which hashes to the sender identifier, and within the sender's
  rate. After such a call the message counts as seen.
\<close>

theorem effects_need_all_checks:
  assumes "HandleIncoming cr cd rt from env e w = (e', w')" and "keys_bound cr (eng_KeyRing e)"
    and "w' \<noteq> w \<or> Seen e' \<noteq> Seen e \<or> engine_Stats e' \<noteq> engine_Stats e"
  shows "well_formed env \<and> \<not> seen_Has (MessageId env) (Seen e) \<and>
    (\<exists>entry. kr_Lookup (SenderId env) (eng_KeyRing e') = Some entry \<and>
       node_id_of cr (PubKey entry) = SenderId env \<and> VerifyEnvelope cr env (PubKey entry)) \<and>
    fst (rl_Allow (SenderId env) (rt_allow rt) (Limiter e)) \<and>
    seen_Has (MessageId env) (Seen e')"
proof -
  have adm: "admitted cr rt env e"
  proof (rule ccontr)
    assume "\<not> admitted cr rt env e"
    from HandleIncoming_refused [OF this, of cd "from" w] assms(1,3) show False
      by (auto simp: engine_Stats_def)
  qed
  then obtain entry where v: "verified_by cr env e entry" by (auto simp: admitted_def)
  have "Seen e' = snd (seen_Check (MessageId env) (rt_check rt) (Seen e))"
    and "eng_KeyRing e' = snd (lookup_or_learn cr env (eng_KeyRing e))"
    using HandleIncoming_admitted_frame [OF adm assms(1)] by simp_all
  moreover have "kr_Lookup (SenderId env) (snd (lookup_or_learn cr env (eng_KeyRing e))) = Some entry"
    using v lookup_or_learn_again [of cr env "eng_KeyRing e" entry]
    by (auto simp: verified_by_def lookup_or_learn_def Let_def split: option.splits if_splits)
  ultimately show ?thesis
    using adm v keys_bound_lookup [OF assms(2)]
    by (auto simp: admitted_def verified_by_def seen_Has_iff)
qed

text \<open>
  C12. Forwarding. An admitted message with a hop count above one is, after local delivery, sent
  to \<open>min fanout n\<close> of the \<open>n\<close> connected peers other than the one it came from, to each at most
  once, and what is sent decodes to the same envelope with the hop count one lower; a message with
  a hop count of at most one is delivered and not sent to anyone.
\<close>

theorem admitted_message_forwarded:
  assumes "admitted cr rt env e" and "codec_ok cd"
    and "env_Marshal cd (env\<lparr>HopCount := HopCount env - 1\<rparr>) = Some raw"
  shows "(let w1 = snd (deliver env (accept_state cr rt env e) w);
              others = filter (\<lambda>p. ph_NodeID p \<noteq> from) (getPeers e (rt_order rt) w1)
          in \<exists>ps. snd (HandleIncoming cr cd rt from env e w) = snd (send_each raw ps w1) \<and>
               length ps = (if HopCount env \<le> 1 then 0 else min (fanout e) (length others)) \<and>
               set ps \<subseteq> set others \<and> (distinct others \<longrightarrow> distinct ps)) \<and>
    (HopCount env > 1 \<longrightarrow>
       (\<exists>env'. env_Unmarshal cd raw = Some env' \<and> unat (HopCount env') = unat (HopCount env) - 1 \<and>
          (\<forall>pub. VerifyEnvelope cr env' pub = VerifyEnvelope cr env pub)))"
proof -
  let ?e1 = "fst (deliver env (accept_state cr rt env e) w)"
    and ?w1 = "snd (deliver env (accept_state cr rt env e) w)"
  let ?others = "filter (\<lambda>p. ph_NodeID p \<noteq> from) (getPeers e (rt_order rt) ?w1)"
  let ?ps = "if HopCount env \<le> 1 then [] else forward_set rt from ?e1 ?w1"
  have frame: "getPeers ?e1 = getPeers e" "fanout ?e1 = fanout e"
    by (simp_all add: frame_simps accept_state_def)
  have "snd (HandleIncoming cr cd rt from env e w) = snd (send_each raw ?ps ?w1)"
    using assms(3) unfolding HandleIncoming_admitted [OF assms(1)]
    by (simp add: split_beta relay_def forwardTo_eq Let_def)
  moreover have "length ?ps = (if HopCount env \<le> 1 then 0 else min (fanout e) (length ?others))"
    by (simp add: forward_set_facts(1) frame)
  moreover have "set ?ps \<subseteq> set ?others" "distinct ?others \<longrightarrow> distinct ?ps"
    using forward_set_facts(2) [of rt "from" ?e1 ?w1]
    by (auto simp: forward_set_def Let_def frame dest: set_take_subset_elem)
  moreover have "unat (HopCount env - 1) = unat (HopCount env) - 1" if "HopCount env > 1"
  proof -
    have "HopCount env \<noteq> 0" using that by auto
    then show ?thesis by (rule unat_minus_one)
  qed
  ultimately show ?thesis
    using codec_okD(1) [OF assms(2,3)] by (auto simp: Let_def)
qed

text \<open>
  C36. The fields the signature leaves out are taken as they come. A relay may set the hop count of an
  admitted envelope to any value and its \<^verbatim>\<open>sender_pubkey\<close> to any bytes of any length: at a node that knows
  the sender's key the altered envelope passes the same checks, has the same effect on the node, and, with
  the chosen bytes and the chosen count less one, is what the node forwards. So the configured maximum of
  hops does not bound what others send, and the payload limit does not bound what a message can carry.
\<close>

theorem unsigned_fields_unchecked:
  fixes e :: "'w Engine"
  assumes "codec_ok cd" and "admitted cr rt env e" and "kr_Lookup (SenderId env) (eng_KeyRing e) = Some entry"
    and "h > 1" and "env_Marshal cd (env\<lparr>HopCount := h - 1, SenderPubkey := k\<rparr>) = Some raw"
  shows "admitted cr rt (env\<lparr>HopCount := h, SenderPubkey := k\<rparr>) e \<and>
    HandleIncoming cr cd rt from (env\<lparr>HopCount := h, SenderPubkey := k\<rparr>) e w =
      (case deliver env (accept_state cr rt env e) w of (e1, w1) \<Rightarrow> forwardTo rt raw from e1 w1) \<and>
    (\<exists>env'. env_Unmarshal cd raw = Some env' \<and> HopCount env' = h - 1 \<and> SenderPubkey env' = k \<and>
       (\<forall>pub. VerifyEnvelope cr env' pub = VerifyEnvelope cr env pub))"
proof -
  let ?env = "env\<lparr>HopCount := h, SenderPubkey := k\<rparr>"
  have found: "lookup_or_learn cr ?env (eng_KeyRing e) = lookup_or_learn cr env (eng_KeyRing e)"
    using assms(3) by (simp add: lookup_or_learn_def)
  have adm: "admitted cr rt ?env e"
    using assms(2) found by (simp add: admitted_def verified_by_def well_formed_def)
  have "accept_state cr rt ?env e = accept_state cr rt env e" using found by (simp add: accept_state_def)
  moreover have "deliver ?env (accept_state cr rt env e) w = deliver env (accept_state cr rt env e) w"
    by (auto simp: deliver_def split: option.split)
  ultimately have "HandleIncoming cr cd rt from ?env e w =
      (case deliver env (accept_state cr rt env e) w of (e1, w1) \<Rightarrow> relay cd rt from ?env e1 w1)"
    by (simp only: HandleIncoming_admitted [OF adm])
  moreover have swap: "env\<lparr>SenderPubkey := k, HopCount := h - 1\<rparr> = env\<lparr>HopCount := h - 1, SenderPubkey := k\<rparr>"
    by (cases env) simp
  have "relay cd rt from ?env e1 w1 = forwardTo rt raw from e1 w1" for e1 and w1 :: 'w
    using assms(4,5) by (simp add: relay_def swap) (simp add: not_le [symmetric])
  ultimately show ?thesis
    using adm codec_okD(1) [OF assms(1,5)] by (auto simp: split_beta)
qed

text \<open>
  Accounting of a broadcast: it is handed to every connected peer, the returned pair counts
  the peers that took it and all peers, the counters grow by the accepted and the refused sends
  (modulo \<open>2^64\<close>), and a copy that comes back within the cache's lifetime changes nothing.
\<close>

theorem broadcast_accounting:
  assumes "env_Marshal cd env = Some raw" and "Broadcast cd rt env e w = ((sent, n), e', w')"
  shows "n = length (getPeers e (rt_order rt) w) \<and> sent \<le> n \<and>
    (sent, w') = send_each raw (getPeers e (rt_order rt) w) w \<and>
    statsBroadcast e' = statsBroadcast e + of_nat sent \<and>
    statsDropped e' = statsDropped e + of_nat (n - sent) \<and>
    HandleIncoming cr cd rt' from env e' w'' = (e', w'')"
proof -
  have "seen_Has (MessageId env) (Seen e')"
    using Broadcast_frame(3) [of cd rt env e w] assms(2) by (simp add: seen_Has_after_Check)
  then have "HandleIncoming cr cd rt' from env e' w'' = (e', w'')" by (simp add: HandleIncoming_def)
  moreover have "fst (send_each raw (getPeers e (rt_order rt) w) w) \<le> length (getPeers e (rt_order rt) w)"
    by (rule send_each_le)
  ultimately show ?thesis
    using assms by (auto simp: Broadcast_def Let_def split_beta split: if_splits)
qed

text \<open>
  A message refused only by the rate limit is not lost: offering the same envelope again one
  second or more later, to the engine that refused it, has it accepted and delivered to its handler.
\<close>

theorem rate_limited_message_retried:
  assumes "verified_by cr env e entry" and "limiter_inv (Limiter e)"
    and "\<not> fst (rl_Allow (SenderId env) (rt_allow rt) (Limiter e))"
    and "limiter_until (rt_allow rt) (Limiter e)"
    and "rt_allow rt + Second \<le> rt_allow rt'" and "fmlookup (handlers e) (MsgType env) = Some h"
    and "HandleIncoming cr cd rt from env e w = (e1, w1)"
    and "HandleIncoming cr cd rt' from' env e1 w' = (e2, w2)"
  shows "w1 = w \<and>
    (\<exists>e3. (e2, w2) = relay cd rt' from' env e3 (h (SenderId env) (Payload env) w')) \<and>
    seen_Has (MessageId env) (Seen e2) \<and> statsReceived e2 = statsReceived e + 1"
proof -
  let ?l = "snd (rl_Allow (SenderId env) (rt_allow rt) (Limiter e))"
  have "rl_Allow (SenderId env) (rt_allow rt) (Limiter e) = (False, ?l)"
    using assms(3) by (simp add: prod_eq_iff)
  from HandleIncoming_rate_limited [OF assms(1) this, of cd "from" w]
  have e1: "e1 = e\<lparr>eng_KeyRing := snd (lookup_or_learn cr env (eng_KeyRing e)), Limiter := ?l\<rparr>"
    and w1: "w1 = w" using assms(7) by simp_all
  obtain st where st: "fmlookup (rl_senders ?l) (SenderId env) = Some st" "lastCheck st = rt_allow rt"
    using assms(3) by (auto simp: rl_Allow_unfold split: option.splits)
  have "fst (rl_Allow (SenderId env) (rt_allow rt') ?l)"
    using allow_after_second [OF limiter_inv_Allow [OF assms(2,4)] st(1)] st(2) assms(5) by simp
  moreover have "verified_by cr env e1 entry"
    using assms(1) lookup_or_learn_again [of cr env "eng_KeyRing e" entry]
    by (simp add: verified_by_def e1)
  ultimately have "admitted cr rt' env e1" by (auto simp: admitted_def e1)
  from HandleIncoming_admitted [OF this, of cd from' w'] assms(6,8)
  obtain e3 where r: "relay cd rt' from' env e3 (h (SenderId env) (Payload env) w') = (e2, w2)"
    and e3: "Seen e3 = snd (seen_Check (MessageId env) (rt_check rt') (Seen e))"
      "statsReceived e3 = statsReceived e + 1"
    by (auto simp: deliver_def accept_state_def e1)
  have "statsReceived e2 = statsReceived e3"
    using r relay_frame(4) [of cd rt' from' env e3 "h (SenderId env) (Payload env) w'"] by simp
  then show ?thesis
    using r e3 w1 relay_eqD [OF r] by (auto simp: seen_Has_after_Check intro: sym)
qed

section \<open>Witnesses\<close>

text \<open>
  A node whose outside world is the log of what was sent to whom and delivered; three peers take
  everything but peer \<open>''p3''\<close>, whose buffer is full.
\<close>

type_synonym demo_world = "(node_id \<times> bytes) list"

definition demo_peer :: "node_id \<Rightarrow> demo_world PeerHandle" where
  "demo_peer n = \<lparr>ph_NodeID = n,
     ph_Send = (\<lambda>raw w. if n = ''p3'' then (False, w) else (True, w @ [(n, raw)]))\<rparr>"

definition demo_engine :: "demo_world Engine" where
  "demo_engine = RegisterHandler 3 (\<lambda>sender payload w. w @ [(sender, payload)])
     (NewEngine ''me'' (\<lambda>ks w. map demo_peer ks))"

text \<open>An instance of the parameters: the message is one byte per hop.\<close>

definition demo_sender :: node_id where
  "demo_sender = node_id_of demo_crypto (replicate 32 7)"

definition demo_msg :: Envelope where
  "demo_msg = SignEnvelope demo_crypto (zero_Envelope\<lparr>MessageId := ''m1'', SenderId := demo_sender,
     MsgType := 3, HopCount := 2, Payload := [1, 2], SenderPubkey := replicate 32 7\<rparr>) (replicate 64 0)"

definition demo_codec :: "unit codec" where
  "demo_codec = \<lparr>env_Marshal = (\<lambda>e. if e = demo_msg\<lparr>HopCount := 1\<rparr> then Some [1]
       else if e = demo_msg then Some [2] else None),
     env_Unmarshal = (\<lambda>b. if b = [1] then Some (demo_msg\<lparr>HopCount := 1\<rparr>)
       else if b = [2] then Some demo_msg else None),
     hello_Marshal = (\<lambda>_. None), hello_Unmarshal = (\<lambda>_. None),
     chat_Marshal = (\<lambda>_. None), chat_Unmarshal = (\<lambda>_. None),
     px_Marshal = (\<lambda>_. None), px_Unmarshal = (\<lambda>_. None),
     json_Marshal = (\<lambda>_. None), json_Unmarshal = (\<lambda>_. None)\<rparr>"

definition demo_rt :: "instant \<Rightarrow> runtime" where
  "demo_rt t = \<lparr>rt_allow = t, rt_check = t, rt_order = [''p1'', ''p2'', ''p3'', ''p4''], rt_draws = (\<lambda>i. 0)\<rparr>"

definition demo_entry :: KeyEntry where
  "demo_entry = \<lparr>PubKey = replicate 32 7, ke_TrustLevel = TrustGossipLearned\<rparr>"

lemma demo_well_formed: "well_formed demo_msg"
proof -
  have "length demo_sender = 64" by (simp add: demo_sender_def node_id_of_def demo_crypto_def)
  then show ?thesis
    by (auto simp: well_formed_def demo_msg_def frame_simps zero_Envelope_def engine_consts)
qed

lemma demo_verifies: "VerifyEnvelope demo_crypto demo_msg (replicate 32 7)"
proof -
  have "keypair_ok demo_crypto (replicate 64 0) (replicate 32 7)"
    by (simp add: keypair_ok_def demo_crypto_def key_size_defs)
  then show ?thesis unfolding demo_msg_def by (rule verify_signed)
qed

lemma demo_lookup:
  "lookup_or_learn demo_crypto demo_msg NewKeyRing =
     (Some demo_entry, kr_Add demo_sender (replicate 32 7) TrustGossipLearned NewKeyRing)"
  by (simp add: lookup_or_learn_def learnable_def demo_msg_def frame_simps kr_defs demo_entry_def
      demo_sender_def node_id_of_def zero_Envelope_def key_size_defs)

lemma demo_verified:
  assumes "eng_KeyRing e = NewKeyRing" and "\<not> seen_Has ''m1'' (Seen e)"
  shows "verified_by demo_crypto demo_msg e demo_entry"
proof -
  have "MessageId demo_msg = ''m1''" by (simp add: demo_msg_def frame_simps)
  then show ?thesis
    using assms demo_well_formed demo_verifies by (simp add: verified_by_def demo_lookup demo_entry_def)
qed

lemma demo_admitted: "admitted demo_crypto (demo_rt t) demo_msg demo_engine"
proof -
  have "verified_by demo_crypto demo_msg demo_engine demo_entry"
    by (rule demo_verified) (simp_all add: demo_engine_def RegisterHandler_def NewEngine_def seen_defs)
  then show ?thesis
    by (auto simp: admitted_def demo_engine_def RegisterHandler_def NewEngine_def NewRateLimiter_def
        rl_Allow_unfold)
qed

abbreviation demo_start :: "demo_world sys" where
  "demo_start \<equiv> sys_init demo_engine [] 0"

lemma demo_engine_eq:
  "demo_engine = (NewEngine ''me'' (\<lambda>ks w. map demo_peer ks))
     \<lparr>handlers := fmupd 3 (\<lambda>sender payload w. w @ [(sender, payload)]) fmempty\<rparr>"
  by (simp add: demo_engine_def RegisterHandler_def NewEngine_def)

lemma demo_limiter: "limiter_inv (NewRateLimiter 10)" "limiter_until t (NewRateLimiter 10)"
  using limiter_inv_New [of 10] is_f64_int [of 10] by simp_all

text \<open>The message is processed, forgotten by a cleanup six minutes later, and processed again.\<close>

lemma demo_twice:
  "\<exists>S. sys_reach demo_crypto demo_codec demo_start S \<and>
     processed S = [(0, demo_msg), (6 * Minute, demo_msg)]"
proof -
  let ?m = "6 * Minute"
  obtain S1 where S1: "sys_reach demo_crypto demo_codec demo_start S1" "clock S1 \<le> 0"
      "processed S1 = [(0, demo_msg)]" "fmdom (threads S1) = {|0|}"
      "HandleIncoming demo_crypto demo_codec (demo_rt 0) ''p2'' demo_msg demo_engine [] =
       (sys_eng S1, sys_world S1)"
    using solo_call [OF reach_init, of demo_start "demo_rt 0" 0 demo_crypto demo_codec "''p2''" demo_msg]
      demo_admitted [of 0] by (auto simp: sys_init_def demo_rt_def)
  note fr = HandleIncoming_admitted_frame [OF demo_admitted S1(5)]
  define S2 where "S2 = S1\<lparr>sys_eng := (sys_eng S1)\<lparr>Seen := seen_cleanup ?m (Seen (sys_eng S1))\<rparr>,
    clock := ?m, ops := ops S1 @ [(?m, Sweep)]\<rparr>"
  have S2: "sys_reach demo_crypto demo_codec demo_start S2"
    unfolding S2_def using S1(2) fr(4)
    by (intro reach_step [OF S1(1)] sys_step.SweepSeen)
      (simp_all add: duration_defs demo_engine_eq NewEngine_def)
  have "verified_by demo_crypto demo_msg (sys_eng S2) demo_entry"
    using lookup_or_learn_again [of demo_crypto demo_msg NewKeyRing demo_entry] demo_well_formed
      demo_verifies fr(1,2)
    by (simp add: verified_by_def S2_def demo_lookup demo_entry_def demo_engine_eq NewEngine_def
        seen_Has_iff seen_defs Let_def demo_rt_def DefaultSeenTTL_def duration_defs)
  moreover have "fst (rl_Allow (SenderId demo_msg) ?m (Limiter (sys_eng S2)))"
    using allow_after_second [OF limiter_inv_Allow [OF demo_limiter]]  fr(3)
    by (simp add: S2_def demo_engine_eq NewEngine_def DefaultMaxPerSec_def demo_rt_def)
      (simp add: rl_Allow_unfold NewRateLimiter_def duration_defs)
  ultimately have "admitted demo_crypto (demo_rt ?m) demo_msg (sys_eng S2)"
    by (auto simp: admitted_def demo_rt_def)
  then show ?thesis
    using solo_call [OF S2, of "demo_rt ?m" 1 "''p2''" demo_msg] S1(3,4)
    by (auto simp: S2_def demo_rt_def)
qed

theorem engine_processes_once_witness:
  "\<exists>S. sys_reach demo_crypto demo_codec demo_start S \<and> length (processed S) = 2 \<and>
     MessageId (snd (processed S ! 0)) = MessageId (snd (processed S ! 1)) \<and>
     DefaultSeenTTL < \<bar>fst (processed S ! 0) - fst (processed S ! 1)\<bar>"
proof -
  obtain S where S: "sys_reach demo_crypto demo_codec demo_start S"
    "processed S = [(0, demo_msg), (6 * Minute, demo_msg)]"
    using demo_twice by blast
  then show ?thesis
    using engine_processes_once [OF S(1) [unfolded demo_engine_eq], of 0 1]
    by (intro exI [of _ S]) simp
qed

theorem engine_processed_authentic_witness:
  "\<exists>pub. node_id_of demo_crypto pub = SenderId demo_msg \<and> VerifyEnvelope demo_crypto demo_msg pub"
proof -
  obtain S where S: "sys_reach demo_crypto demo_codec demo_start S"
    "processed S = [(0, demo_msg), (6 * Minute, demo_msg)]"
    using demo_twice by blast
  then show ?thesis
    using engine_processed_authentic [OF S(1) [unfolded demo_engine_eq], of 0 demo_msg] by auto
qed

theorem solo_call_is_interleaving_witness:
  "\<exists>S'. sys_reach demo_crypto demo_codec demo_start S' \<and>
    (sys_eng S', sys_world S') = HandleIncoming demo_crypto demo_codec (demo_rt 0) ''p2'' demo_msg
      demo_engine [] \<and> processed S' = [(0, demo_msg)]"
  using solo_call_is_interleaving [OF reach_init, of demo_start "demo_rt 0" 0 demo_crypto demo_codec
      "''p2''" demo_msg] demo_admitted [of 0]
  by (auto simp: sys_init_def demo_rt_def)

theorem effects_need_all_checks_witness:
  "seen_Has ''m1'' (Seen (fst (HandleIncoming demo_crypto demo_codec (demo_rt 0) ''p2'' demo_msg
     demo_engine []))) \<and> \<not> seen_Has ''m1'' (Seen demo_engine)"
proof -
  obtain e' w' where h: "HandleIncoming demo_crypto demo_codec (demo_rt 0) ''p2'' demo_msg
    demo_engine [] = (e', w')" by fastforce
  have mid: "MessageId demo_msg = ''m1''" by (simp add: demo_msg_def frame_simps)
  have "\<not> seen_Has ''m1'' (Seen demo_engine)" "seen_Has ''m1'' (Seen e')"
    using HandleIncoming_admitted_frame(1) [OF demo_admitted h]
    by (simp_all add: mid seen_Has_after_Check demo_engine_eq NewEngine_def seen_defs)
  moreover have "keys_bound demo_crypto (eng_KeyRing demo_engine)"
    by (simp add: demo_engine_eq NewEngine_def)
  ultimately show ?thesis using effects_need_all_checks [OF h] mid h by auto
qed

lemma demo_codec_ok: "codec_ok demo_codec"
  by (simp add: codec_ok_def demo_codec_def)

theorem admitted_message_forwarded_witness:
  "\<exists>env'. env_Unmarshal demo_codec [1] = Some env' \<and> unat (HopCount env') = 1"
proof -
  have hop: "HopCount demo_msg = 2" by (simp add: demo_msg_def frame_simps)
  have "env_Marshal demo_codec (demo_msg\<lparr>HopCount := HopCount demo_msg - 1\<rparr>) = Some [1]"
    by (simp add: hop demo_codec_def)
  from admitted_message_forwarded [OF demo_admitted [of 0] demo_codec_ok this, of "[]" "''p2''"]
  show ?thesis by (auto simp: hop)
qed

definition demo_forged :: "u32 \<Rightarrow> Envelope" where
  "demo_forged h = demo_msg\<lparr>HopCount := h, SenderPubkey := replicate 100 7\<rparr>"

definition demo_forge_codec :: "unit codec" where
  "demo_forge_codec = demo_codec\<lparr>env_Marshal := (\<lambda>e. if e = demo_forged 4294967294 then Some [3] else None),
     env_Unmarshal := (\<lambda>b. if b = [3] then Some (demo_forged 4294967294) else None)\<rparr>"

text \<open>The engine once it has learned the sender's key.\<close>

definition demo_knowing :: "demo_world Engine" where
  "demo_knowing = demo_engine\<lparr>eng_KeyRing := kr_Add demo_sender (replicate 32 7) TrustGossipLearned NewKeyRing\<rparr>"

theorem unsigned_fields_unchecked_witness:
  "admitted demo_crypto (demo_rt 0) (demo_msg\<lparr>HopCount := 4294967295, SenderPubkey := replicate 100 7\<rparr>) demo_knowing \<and>
   (\<exists>env'. env_Unmarshal demo_forge_codec [3] = Some env' \<and> HopCount env' = 4294967294 \<and> length (SenderPubkey env') = 100)"
proof -
  have cd: "codec_ok demo_forge_codec" by (simp add: codec_ok_def demo_forge_codec_def demo_codec_def)
  have sender: "SenderId demo_msg = demo_sender" by (simp add: demo_msg_def frame_simps)
  have known: "kr_Lookup (SenderId demo_msg) (eng_KeyRing demo_knowing) = Some demo_entry"
    by (simp add: sender demo_knowing_def kr_defs demo_entry_def)
  have "verified_by demo_crypto demo_msg demo_knowing demo_entry"
    using known demo_well_formed demo_verifies
    by (simp add: verified_by_def lookup_or_learn_def demo_entry_def, simp add: demo_knowing_def demo_engine_eq NewEngine_def seen_defs)
  moreover have "fst (rl_Allow (SenderId demo_msg) (rt_allow (demo_rt 0)) (Limiter demo_knowing))"
    by (simp add: demo_knowing_def demo_engine_eq NewEngine_def rl_Allow_unfold NewRateLimiter_def)
  ultimately have adm: "admitted demo_crypto (demo_rt 0) demo_msg demo_knowing" by (auto simp: admitted_def)
  have raw: "env_Marshal demo_forge_codec (demo_msg\<lparr>HopCount := 4294967295 - 1, SenderPubkey := replicate 100 7\<rparr>) = Some [3]"
    by (simp add: demo_forge_codec_def demo_forged_def)
  from unsigned_fields_unchecked [OF cd adm known _ raw, of "''p2''" "[]"] show ?thesis by auto
qed

theorem broadcast_accounting_witness:
  "fst (Broadcast demo_codec (demo_rt 0) demo_msg demo_engine []) = (3, 4) \<and>
   statsDropped (fst (snd (Broadcast demo_codec (demo_rt 0) demo_msg demo_engine []))) = 1"
proof -
  have m: "env_Marshal demo_codec demo_msg = Some [2]"
  proof -
    have "HopCount demo_msg = 2" by (simp add: demo_msg_def frame_simps)
    then have "demo_msg \<noteq> demo_msg\<lparr>HopCount := 1\<rparr>" by (auto dest: arg_cong [where f = HopCount])
    then show ?thesis by (simp add: demo_codec_def)
  qed
  obtain sent n e' w' where b: "Broadcast demo_codec (demo_rt 0) demo_msg demo_engine [] = ((sent, n), e', w')"
    by (metis prod_cases3 surj_pair)
  note acc = broadcast_accounting [OF m b, of demo_crypto "demo_rt 0" "''p1''" "[]"]
  have "(sent, w') = (3, [(''p1'', [2]), (''p2'', [2]), (''p4'', [2])])" "n = 4"
    using acc by (simp_all add: demo_engine_eq NewEngine_def demo_rt_def demo_peer_def)
  then show ?thesis using acc b by (simp add: demo_engine_eq NewEngine_def)
qed

definition demo_limited :: "demo_world Engine" where
  "demo_limited = demo_engine\<lparr>Limiter := (NewRateLimiter 10)\<lparr>rl_senders :=
     fmupd demo_sender \<lparr>tokens = 0, lastCheck = 0\<rparr> fmempty\<rparr>\<rparr>"

theorem rate_limited_message_retried_witness:
  "\<exists>e1. HandleIncoming demo_crypto demo_codec (demo_rt 0) ''p2'' demo_msg demo_limited [] = (e1, []) \<and>
     seen_Has ''m1'' (Seen (fst (HandleIncoming demo_crypto demo_codec (demo_rt Second) ''p4'' demo_msg e1 [])))"
proof -
  obtain e1 w1 where 1: "HandleIncoming demo_crypto demo_codec (demo_rt 0) ''p2'' demo_msg demo_limited [] = (e1, w1)"
    by fastforce
  obtain e2 w2 where 2: "HandleIncoming demo_crypto demo_codec (demo_rt Second) ''p4'' demo_msg e1 [] = (e2, w2)"
    by fastforce
  have msg: "MessageId demo_msg = ''m1''" "SenderId demo_msg = demo_sender" "MsgType demo_msg = 3"
    by (simp_all add: demo_msg_def frame_simps)
  have v: "verified_by demo_crypto demo_msg demo_limited demo_entry"
    by (rule demo_verified) (simp_all add: demo_limited_def demo_engine_eq NewEngine_def seen_defs)
  have inv: "limiter_inv (Limiter demo_limited)"
    using demo_limiter(1) is_f64_int [of 0]
    by (auto simp: demo_limited_def limiter_inv_def limiter_wf_def NewRateLimiter_def)
  have refuse: "\<not> fst (rl_Allow (SenderId demo_msg) (rt_allow (demo_rt 0)) (Limiter demo_limited))"
    using limiter_wfD(2) [of "NewRateLimiter 10"] demo_limiter(1)
    by (simp add: msg demo_limited_def demo_rt_def rl_Allow_unfold refilled_def Let_def f64_op_defs
        limiter_inv_def)
  have until: "limiter_until (rt_allow (demo_rt 0)) (Limiter demo_limited)"
    by (simp add: limiter_until_def demo_limited_def demo_rt_def)
  have "fmlookup (handlers demo_limited) (MsgType demo_msg) \<noteq> None"
    by (simp add: msg demo_limited_def demo_engine_eq)
  then obtain h where "fmlookup (handlers demo_limited) (MsgType demo_msg) = Some h" by blast
  from rate_limited_message_retried [OF v inv refuse until _ this 1 2] 1 2 msg
  show ?thesis by (simp add: demo_rt_def)
qed

end
