(* ===== verification/Identity.thy ===== *)
theory Identity
  imports Envelope
begin

text \<open>
  The node's identity (\<^verbatim>\<open>internal/identity/identity.go\<close>) and the derivation of its X25519 keys
  (\<^verbatim>\<open>internal/crypto/keys.go\<close>). Reading and writing the key files is in \<^verbatim>\<open>KeyFile\<close>; an identity is
  what \<^verbatim>\<open>fromKeyPair\<close> makes of a key pair, without the signer for the SSH library.
\<close>

record Identity =
  PrivateKey :: bytes
  PublicKey :: bytes
  NodeID :: node_id

definition fromKeyPair :: "crypto \<Rightarrow> bytes \<Rightarrow> bytes \<Rightarrow> Identity" where
  "fromKeyPair cr priv pub =
     \<lparr>PrivateKey = priv, PublicKey = pub, NodeID = hex_EncodeToString (sha256 cr pub)\<rparr>"

text \<open>\<^verbatim>\<open>PrivateKey.Seed\<close> is the first half of the private key.\<close>

definition EdPrivateToX25519 :: "crypto \<Rightarrow> bytes \<Rightarrow> bytes" where
  "EdPrivateToX25519 cr edPriv = take 32 (sha512 cr (take 32 edPriv))"

definition EdPublicToX25519 :: "crypto \<Rightarrow> bytes \<Rightarrow> bytes option" where
  "EdPublicToX25519 cr edPub = map_option (BytesMontgomery cr) (edwards25519_SetBytes cr edPub)"

definition EdToNoiseKeypair :: "crypto \<Rightarrow> Identity \<Rightarrow> (bytes \<times> bytes) option" where
  "EdToNoiseKeypair cr i =
     (let priv = EdPrivateToX25519 cr (PrivateKey i) in
      case EdPublicToX25519 cr (PublicKey i) of None \<Rightarrow> None | Some pub \<Rightarrow> Some (priv, pub))"

text \<open>A usable identity: a matching key pair and the identifier derived from its public half.\<close>

definition identity_ok :: "crypto \<Rightarrow> Identity \<Rightarrow> bool" where
  "identity_ok cr i \<longleftrightarrow> keypair_ok cr (PrivateKey i) (PublicKey i) \<and>
     i = fromKeyPair cr (PrivateKey i) (PublicKey i)"

lemma fromKeyPair_id [simp]: "NodeID (fromKeyPair cr priv pub) = node_id_of cr pub"
  by (simp add: fromKeyPair_def node_id_of_def)

lemma identity_okD:
  assumes "identity_ok cr i"
  shows "keypair_ok cr (PrivateKey i) (PublicKey i)" "NodeID i = node_id_of cr (PublicKey i)"
    "length (PublicKey i) = PublicKeySize"
  using assms fromKeyPair_id [of cr "PrivateKey i" "PublicKey i"]
  by (auto simp: identity_ok_def keypair_ok_def)

end
