(* ===== verification/Frame.thy ===== *)
theory Frame
  imports GoLib
begin

text \<open>
  The wire framing of \<^verbatim>\<open>internal/transport/frame.go\<close>: two bytes of magic, two of version, four of
  length, then the payload. \<open>WriteFrame\<close> takes the writer's \<^verbatim>\<open>Write\<close> as an argument and
  \<open>ReadFrame\<close> the reader's \<^verbatim>\<open>io.ReadFull\<close>, so both are used over a plain stream and over the
  encrypted connection of \<^verbatim>\<open>noise.go\<close>; the reader's laws are the locale \<open>byte_source\<close>, in which
  the facts about \<open>ReadFrame\<close> are proved once.
\<close>

section \<open>Operations\<close>

definition Magic :: u16 where "Magic = 0x4D49"
definition Version :: u16 where "Version = 0x0001"
definition MaxPayload :: nat where "MaxPayload = 2 ^ 20"
definition HeaderSize :: nat where "HeaderSize = 8"

datatype ('e) frame_error =
    WritePayloadTooLarge nat
  | WriteFailed 'e
  | ReadingHeader 'e
  | InvalidMagic u16
  | UnsupportedVersion u16
  | ReadPayloadTooLarge u32
  | ReadingPayload 'e

text \<open>The buffer that is handed to the writer in one \<^verbatim>\<open>Write\<close> call.\<close>

definition frame_buf :: "bytes \<Rightarrow> bytes" where
  "frame_buf payload =
     PutUint16 Magic @ PutUint16 Version @ PutUint32 (of_nat (length payload)) @ payload"

definition WriteFrame ::
  "(bytes \<Rightarrow> 'w \<Rightarrow> 'e + 'w) \<Rightarrow> bytes \<Rightarrow> 'w \<Rightarrow> 'e frame_error + 'w" where
  "WriteFrame write payload w =
     (if length payload > MaxPayload then Inl (WritePayloadTooLarge (length payload))
      else (case write (frame_buf payload) w of
              Inl e \<Rightarrow> Inl (WriteFailed e)
            | Inr w' \<Rightarrow> Inr w'))"

definition ReadFrame ::
  "(nat \<Rightarrow> 's \<Rightarrow> 'e + bytes \<times> 's) \<Rightarrow> 's \<Rightarrow> 'e frame_error + bytes \<times> 's" where
  "ReadFrame read_full r =
     (case read_full HeaderSize r of
        Inl e \<Rightarrow> Inl (ReadingHeader e)
      | Inr (hdr, r1) \<Rightarrow>
          (let magic = Uint16 (take 2 hdr) in
           if magic \<noteq> Magic then Inl (InvalidMagic magic)
           else (let version = Uint16 (take 2 (drop 2 hdr)) in
             if version \<noteq> Version then Inl (UnsupportedVersion version)
             else (let len = Uint32 (take 4 (drop 4 hdr)) in
               if len > of_nat MaxPayload then Inl (ReadPayloadTooLarge len)
               else (case read_full (unat len) r1 of
                       Inl e \<Rightarrow> Inl (ReadingPayload e)
                     | Inr (payload, r2) \<Rightarrow> Inr (payload, r2))))))"

text \<open>The writer of an in-memory stream, and reading a given number of frames in a row.\<close>

definition stream_Write :: "bytes \<Rightarrow> bytes \<Rightarrow> io_error + bytes" where
  "stream_Write b w = Inr (w @ b)"

primrec ReadFrames ::
  "(nat \<Rightarrow> 's \<Rightarrow> 'e + bytes \<times> 's) \<Rightarrow> nat \<Rightarrow> 's \<Rightarrow> 'e frame_error + bytes list \<times> 's" where
  "ReadFrames rf 0 r = Inr ([], r)"
| "ReadFrames rf (Suc n) r =
     (case ReadFrame rf r of
        Inl e \<Rightarrow> Inl e
      | Inr (p, r1) \<Rightarrow>
          (case ReadFrames rf n r1 of Inl e \<Rightarrow> Inl e | Inr (ps, r2) \<Rightarrow> Inr (p # ps, r2)))"

lemmas frame_const_defs = Magic_def Version_def MaxPayload_def HeaderSize_def

section \<open>Lemmas\<close>

lemma length_frame_buf [simp]: "length (frame_buf p) = HeaderSize + length p"
  by (simp add: frame_buf_def HeaderSize_def)

definition frame_header :: "nat \<Rightarrow> bytes" where
  "frame_header n = PutUint16 Magic @ PutUint16 Version @ PutUint32 (of_nat n)"

lemma frame_buf_header: "frame_buf p = frame_header (length p) @ p"
  by (simp add: frame_buf_def frame_header_def)

lemma length_frame_header [simp]: "length (frame_header n) = HeaderSize"
  by (simp add: frame_header_def HeaderSize_def)

lemma frame_header_fields:
  "Uint16 (take 2 (frame_header n)) = Magic"
  "Uint16 (take 2 (drop 2 (frame_header n))) = Version"
  "Uint32 (take 4 (drop 4 (frame_header n))) = of_nat n"
  by (simp_all add: frame_header_def)

lemma frame_length_word:
  assumes "n \<le> MaxPayload"
  shows "unat (of_nat n :: u32) = n" and "\<not> of_nat MaxPayload < (of_nat n :: u32)"
proof -
  show n: "unat (of_nat n :: u32) = n"
    using assms by (simp add: unat_of_nat MaxPayload_def)
  show "\<not> of_nat MaxPayload < (of_nat n :: u32)"
    using assms by (simp add: word_less_nat_alt n) (simp add: unat_of_nat MaxPayload_def)
qed

lemma header_of_fields:
  assumes "length hdr = HeaderSize" and "Uint16 (take 2 hdr) = Magic"
    and "Uint16 (take 2 (drop 2 hdr)) = Version"
  shows "hdr = frame_header (unat (Uint32 (take 4 (drop 4 hdr))))"
proof -
  have "PutUint16 Magic = take 2 hdr"
    using assms PutUint16_Uint16 [of "take 2 hdr"] by (simp add: HeaderSize_def)
  moreover have "PutUint16 Version = take 2 (drop 2 hdr)"
    using assms PutUint16_Uint16 [of "take 2 (drop 2 hdr)"] by (simp add: HeaderSize_def)
  moreover have "PutUint32 (Uint32 (take 4 (drop 4 hdr))) = take 4 (drop 4 hdr)"
    using assms PutUint32_Uint32 [of "take 4 (drop 4 hdr)"] by (simp add: HeaderSize_def)
  moreover have "hdr = take 2 hdr @ take 2 (drop 2 hdr) @ take 4 (drop 4 hdr)"
    using assms(1) append_take_drop_id [of 2 hdr] append_take_drop_id [of 2 "drop 2 hdr"]
    by (simp add: HeaderSize_def)
  ultimately show ?thesis by (simp add: frame_header_def)
qed

context byte_source
begin

lemma ReadFrame_frame:
  assumes "pending s = frame_buf p @ rest" and "length p \<le> MaxPayload"
  shows "\<exists>s'. ReadFrame read_full s = Inr (p, s') \<and> pending s' = rest"
proof -
  have "pending s = frame_header (length p) @ p @ rest"
    using assms(1) by (simp add: frame_buf_header)
  from read_appended [OF this] obtain s1 where
    1: "read_full HeaderSize s = Inr (frame_header (length p), s1)" "pending s1 = p @ rest"
    by auto
  from read_appended [OF 1(2)] obtain s2 where
    2: "read_full (length p) s1 = Inr (p, s2)" "pending s2 = rest"
    by auto
  show ?thesis
    using 1 2 frame_length_word [OF assms(2)]
    by (simp add: ReadFrame_def frame_header_fields Let_def)
qed

lemma ReadFrame_success:
  assumes "ReadFrame read_full s = Inr (p, s')"
  shows "pending s = frame_buf p @ pending s' \<and> length p \<le> MaxPayload"
proof -
  obtain hdr s1 where h: "read_full HeaderSize s = Inr (hdr, s1)"
    and magic: "Uint16 (take 2 hdr) = Magic"
    and version: "Uint16 (take 2 (drop 2 hdr)) = Version"
    and len: "\<not> of_nat MaxPayload < Uint32 (take 4 (drop 4 hdr))"
    and p: "read_full (unat (Uint32 (take 4 (drop 4 hdr)))) s1 = Inr (p, s')"
    using assms by (auto simp: ReadFrame_def Let_def split: sum.splits prod.splits if_splits)
  have s: "length hdr = HeaderSize" "pending s = hdr @ pending s1"
    using read_result [OF h] by simp_all
  have s1: "unat (Uint32 (take 4 (drop 4 hdr))) = length p" "pending s1 = p @ pending s'"
    using read_result [OF p] by simp_all
  have "unat (of_nat MaxPayload :: u32) = MaxPayload"
    by (rule frame_length_word) simp
  then have "length p \<le> MaxPayload"
    using len s1(1) by (simp add: word_less_nat_alt)
  moreover have "hdr = frame_header (length p)"
    using header_of_fields [OF s(1) magic version] s1(1) by simp
  ultimately show ?thesis using s s1 by (simp add: frame_buf_header)
qed

lemma ReadFrames_frames:
  assumes "pending s = concat (map frame_buf ps) @ rest"
    and "list_all (\<lambda>p. length p \<le> MaxPayload) ps"
  shows "\<exists>s'. ReadFrames read_full (length ps) s = Inr (ps, s') \<and> pending s' = rest"
  using assms
proof (induction ps arbitrary: s)
  case (Cons p ps)
  then obtain s1 where 1: "ReadFrame read_full s = Inr (p, s1)"
    "pending s1 = concat (map frame_buf ps) @ rest"
    using ReadFrame_frame [of s p "concat (map frame_buf ps) @ rest"] by auto
  from Cons.IH [OF 1(2)] Cons.prems 1 show ?case by auto
qed auto

end

section \<open>Properties\<close>

text \<open>
  A stream is a sequence of frames: whatever payloads within the limit are written one after
  the other, reading the same number of frames from the resulting bytes, followed by anything,
  gives exactly those payloads in order and leaves the rest of the stream unread.
\<close>

theorem frames_roundtrip:
  assumes "list_all (\<lambda>p. length p \<le> MaxPayload) ps"
  shows "ReadFrames stream_ReadFull (length ps) (concat (map frame_buf ps) @ rest) = Inr (ps, rest)"
  using stream.ReadFrames_frames [of _ ps rest] assms by auto

text \<open>
  C35. \<open>ReadFrame\<close> accepts nothing else: it succeeds exactly when the stream starts with the
  frame \<open>WriteFrame\<close> produces for a payload it accepts.
\<close>

theorem ReadFrame_accepts_exactly_written_frames:
  "ReadFrame stream_ReadFull s = Inr (p, rest) \<longleftrightarrow>
     (\<exists>b. WriteFrame stream_Write p [] = Inr b \<and> s = b @ rest)"
proof
  assume "ReadFrame stream_ReadFull s = Inr (p, rest)"
  from stream.ReadFrame_success [OF this]
  show "\<exists>b. WriteFrame stream_Write p [] = Inr b \<and> s = b @ rest"
    by (simp add: WriteFrame_def stream_Write_def)
next
  assume "\<exists>b. WriteFrame stream_Write p [] = Inr b \<and> s = b @ rest"
  then show "ReadFrame stream_ReadFull s = Inr (p, rest)"
    using stream.ReadFrame_frame [of s p rest]
    by (auto simp: WriteFrame_def stream_Write_def split: if_splits)
qed

section \<open>Witnesses\<close>

theorem frames_roundtrip_witness:
  "ReadFrames stream_ReadFull (length [[1, 2], [] :: bytes]) (concat (map frame_buf [[1, 2], []]) @ [9]) =
     Inr ([[1, 2], []], [9])"
proof -
  have "list_all (\<lambda>p. length p \<le> MaxPayload) [[1, 2], [] :: bytes]"
    by (simp add: MaxPayload_def)
  from frames_roundtrip [OF this, of "[9]"] show ?thesis .
qed

end
