(* ===== verification/Noise.thy ===== *)
theory Noise
  imports Frame
begin

text \<open>
  The encrypted connection of \<^verbatim>\<open>internal/transport/noise.go\<close>. The Noise library is a parameter:
  \<open>noise_lib\<close> holds its cipher states' \<^verbatim>\<open>Encrypt\<close> and \<^verbatim>\<open>Decrypt\<close> and its handshake state's
  operations (\<^const>\<open>None\<close> is a returned error). A connection records the bytes that arrived and
  were not read yet (\<open>nc_in\<close>) and the bytes written so far (\<open>nc_out\<close>); once the connection is closed,
  writing fails and nothing more arrives, so reading is left with what was decrypted before. A failed read ends the connection in every caller, so its partial
  consumption of the stream is not tracked.

  The connection is shown to satisfy the \<open>byte_source\<close> contract for its decrypted contents, so
  every fact about \<open>ReadFrame\<close> holds over it.
\<close>

section \<open>Operations\<close>

record ('h, 'c) noise_lib =
  Encrypt :: "'c \<Rightarrow> bytes \<Rightarrow> (bytes \<times> 'c) option"
  Decrypt :: "'c \<Rightarrow> bytes \<Rightarrow> (bytes \<times> 'c) option"
  NewHandshakeState :: "bool \<Rightarrow> bytes \<times> bytes \<Rightarrow> 'h option"
  WriteMessage :: "'h \<Rightarrow> (bytes \<times> 'c \<times> 'c \<times> 'h) option"
  ReadMessage :: "'h \<Rightarrow> bytes \<Rightarrow> ('c \<times> 'c \<times> 'h) option"
  hs_PeerStatic :: "'h \<Rightarrow> bytes"

record 'c noiseConn =
  nc_send :: 'c
  nc_recv :: 'c
  nc_readBuf :: bytes
  nc_in :: bytes
  nc_out :: bytes
  nc_open :: bool
  nc_peerStatic :: bytes

datatype noise_error =
    ConnRead io_error
  | ConnWrite
  | NoiseEncrypt
  | NoiseDecrypt
  | NoiseMessageTooLarge u32
  | HandshakeConfig
  | HandshakeMessageTooLarge nat
  | NoiseWriteMsg nat
  | NoiseReadMsg nat

definition conn_Write :: "bytes \<Rightarrow> 'c noiseConn \<Rightarrow> noise_error + 'c noiseConn" where
  "conn_Write b nc =
     (if nc_open nc then Inr (nc\<lparr>nc_out := nc_out nc @ b\<rparr>) else Inl ConnWrite)"

definition noise_Write ::
  "('h, 'c) noise_lib \<Rightarrow> bytes \<Rightarrow> 'c noiseConn \<Rightarrow> noise_error + 'c noiseConn" where
  "noise_Write nl p nc =
     (case Encrypt nl (nc_send nc) p of
        None \<Rightarrow> Inl NoiseEncrypt
      | Some (ciphertext, c) \<Rightarrow>
          (case conn_Write (PutUint32 (of_nat (length ciphertext))) (nc\<lparr>nc_send := c\<rparr>) of
             Inl e \<Rightarrow> Inl e
           | Inr nc1 \<Rightarrow> conn_Write ciphertext nc1))"

definition maxNoiseMsg :: nat where
  "maxNoiseMsg = MaxPayload + HeaderSize + 16"

text \<open>The message-reading part of \<^verbatim>\<open>Read\<close>: one length-prefixed ciphertext, decrypted.\<close>

definition next_message ::
  "('h, 'c) noise_lib \<Rightarrow> 'c \<Rightarrow> bytes \<Rightarrow> noise_error + bytes \<times> 'c \<times> bytes" where
  "next_message nl c s =
     (case stream_ReadFull 4 s of
        Inl e \<Rightarrow> Inl (ConnRead e)
      | Inr (lenBuf, s1) \<Rightarrow>
          (let msgLen = Uint32 lenBuf in
           if msgLen > of_nat maxNoiseMsg then Inl (NoiseMessageTooLarge msgLen)
           else (case stream_ReadFull (unat msgLen) s1 of
                   Inl e \<Rightarrow> Inl (ConnRead e)
                 | Inr (ciphertext, s2) \<Rightarrow>
                     (case Decrypt nl c ciphertext of
                        None \<Rightarrow> Inl NoiseDecrypt
                      | Some (plaintext, c') \<Rightarrow> Inr (plaintext, c', s2)))))"

text \<open>\<^verbatim>\<open>Read(p)\<close> with \<open>n = len(p)\<close>: the bytes copied into \<^verbatim>\<open>p\<close> and the new connection state.\<close>

definition noise_Read ::
  "('h, 'c) noise_lib \<Rightarrow> nat \<Rightarrow> 'c noiseConn \<Rightarrow> noise_error + bytes \<times> 'c noiseConn" where
  "noise_Read nl n nc =
     (if nc_readBuf nc \<noteq> [] then
        Inr (take n (nc_readBuf nc), nc\<lparr>nc_readBuf := drop n (nc_readBuf nc)\<rparr>)
      else
        (case next_message nl (nc_recv nc) (nc_in nc) of
           Inl e \<Rightarrow> Inl e
         | Inr (plaintext, c, s) \<Rightarrow>
             Inr (take n plaintext,
                  nc\<lparr>nc_recv := c, nc_in := s, nc_readBuf := drop n plaintext\<rparr>)))"

text \<open>
  \<^verbatim>\<open>io.ReadFull(nc, buf)\<close>: \<^verbatim>\<open>Read\<close> is called until the buffer is full or an error occurs; an end
  of file after some bytes becomes \<^verbatim>\<open>ErrUnexpectedEOF\<close>. A message may decrypt to nothing, so the
  number of calls is not bounded by the buffer's size; the loop ends because every call consumes
  buffered or arrived bytes.
\<close>

lemma next_message_consumes:
  "next_message nl c s = Inr (pt, c', s') \<Longrightarrow> length s' < length s"
  by (auto simp: next_message_def stream_ReadFull_def Let_def
      split: if_splits option.splits prod.splits)

function noise_ReadLoop ::
  "('h, 'c) noise_lib \<Rightarrow> nat \<Rightarrow> bytes \<Rightarrow> 'c noiseConn \<Rightarrow> noise_error + bytes \<times> 'c noiseConn" where
  "noise_ReadLoop nl n acc nc =
     (if n = 0 then Inr (acc, nc)
      else (case noise_Read nl n nc of
              Inl e \<Rightarrow>
                Inl (if e = ConnRead EOF \<and> acc \<noteq> [] then ConnRead ErrUnexpectedEOF else e)
            | Inr (bs, nc') \<Rightarrow> noise_ReadLoop nl (n - length bs) (acc @ bs) nc'))"
  by pat_completeness auto
termination
  by (relation "measures [\<lambda>(nl, n, acc, nc). length (nc_in nc), \<lambda>(nl, n, acc, nc). length (nc_readBuf nc)]")
    (auto simp: noise_Read_def dest: next_message_consumes split: if_splits sum.splits prod.splits)

declare noise_ReadLoop.simps [simp del]

definition noise_ReadFull ::
  "('h, 'c) noise_lib \<Rightarrow> nat \<Rightarrow> 'c noiseConn \<Rightarrow> noise_error + bytes \<times> 'c noiseConn" where
  "noise_ReadFull nl n nc = noise_ReadLoop nl n [] nc"

text \<open>Closing the socket loses the bytes that were not read; those already decrypted stay in the buffer.\<close>

definition noise_Close :: "'c noiseConn \<Rightarrow> 'c noiseConn" where
  "noise_Close nc = nc\<lparr>nc_open := False, nc_in := []\<rparr>"

section \<open>The handshake\<close>

definition writeHandshakeMsg :: "bytes \<Rightarrow> bytes \<Rightarrow> noise_error + bytes" where
  "writeHandshakeMsg w msg =
     (if length msg > 0xFFFF then Inl (HandshakeMessageTooLarge (length msg))
      else Inr (w @ PutUint16 (of_nat (length msg)) @ msg))"

definition readHandshakeMsg :: "bytes \<Rightarrow> noise_error + bytes \<times> bytes" where
  "readHandshakeMsg r =
     (case stream_ReadFull 2 r of
        Inl e \<Rightarrow> Inl (ConnRead e)
      | Inr (lenBuf, r1) \<Rightarrow>
          (case stream_ReadFull (unat (Uint16 lenBuf)) r1 of
             Inl e \<Rightarrow> Inl (ConnRead e)
           | Inr (msg, r2) \<Rightarrow> Inr (msg, r2)))"

text \<open>
  \<open>Handshake nl initiator key s\<close>: \<open>s\<close> are the bytes the other side sends during and after the
  handshake. The result is the connection, whose \<open>nc_out\<close> are the handshake bytes written.
\<close>

definition new_noiseConn :: "'c \<Rightarrow> 'c \<Rightarrow> bytes \<Rightarrow> bytes \<Rightarrow> bytes \<Rightarrow> 'c noiseConn" where
  "new_noiseConn send recv inb outb ps =
     \<lparr>nc_send = send, nc_recv = recv, nc_readBuf = [], nc_in = inb, nc_out = outb,
      nc_open = True, nc_peerStatic = ps\<rparr>"

definition hs_send ::
  "('h, 'c) noise_lib \<Rightarrow> nat \<Rightarrow> 'h \<Rightarrow> bytes \<Rightarrow> noise_error + 'c \<times> 'c \<times> 'h \<times> bytes" where
  "hs_send nl k hs w =
     (case WriteMessage nl hs of
        None \<Rightarrow> Inl (NoiseWriteMsg k)
      | Some (msg, cs1, cs2, hs') \<Rightarrow>
          (case writeHandshakeMsg w msg of
             Inl e \<Rightarrow> Inl e
           | Inr w' \<Rightarrow> Inr (cs1, cs2, hs', w')))"

definition hs_receive ::
  "('h, 'c) noise_lib \<Rightarrow> nat \<Rightarrow> 'h \<Rightarrow> bytes \<Rightarrow> noise_error + 'c \<times> 'c \<times> 'h \<times> bytes" where
  "hs_receive nl k hs r =
     (case readHandshakeMsg r of
        Inl e \<Rightarrow> Inl e
      | Inr (msg, r') \<Rightarrow>
          (case ReadMessage nl hs msg of
             None \<Rightarrow> Inl (NoiseReadMsg k)
           | Some (cs1, cs2, hs') \<Rightarrow> Inr (cs1, cs2, hs', r')))"

definition Handshake ::
  "('h, 'c) noise_lib \<Rightarrow> bool \<Rightarrow> bytes \<times> bytes \<Rightarrow> bytes \<Rightarrow> noise_error + 'c noiseConn \<times> bytes" where
  "Handshake nl initiator staticKey s =
     (case NewHandshakeState nl initiator staticKey of
        None \<Rightarrow> Inl HandshakeConfig
      | Some hs \<Rightarrow>
          (if initiator then
             (case hs_send nl 1 hs [] of
                Inl e \<Rightarrow> Inl e
              | Inr (_, _, hs1, w1) \<Rightarrow>
                  (case hs_receive nl 2 hs1 s of
                     Inl e \<Rightarrow> Inl e
                   | Inr (_, _, hs2, s1) \<Rightarrow>
                       (case hs_send nl 3 hs2 w1 of
                          Inl e \<Rightarrow> Inl e
                        | Inr (cs1, cs2, hs3, w2) \<Rightarrow>
                            Inr (new_noiseConn cs1 cs2 s1 w2 (hs_PeerStatic nl hs3),
                                 hs_PeerStatic nl hs3))))
           else
             (case hs_receive nl 1 hs s of
                Inl e \<Rightarrow> Inl e
              | Inr (_, _, hs1, s1) \<Rightarrow>
                  (case hs_send nl 2 hs1 [] of
                     Inl e \<Rightarrow> Inl e
                   | Inr (_, _, hs2, w1) \<Rightarrow>
                       (case hs_receive nl 3 hs2 s1 of
                          Inl e \<Rightarrow> Inl e
                        | Inr (cs1, cs2, hs3, s2) \<Rightarrow>
                            Inr (new_noiseConn cs2 cs1 s2 w1 (hs_PeerStatic nl hs3),
                                 hs_PeerStatic nl hs3))))))"

section \<open>The decrypted contents of a connection\<close>

function plain_contents :: "('h, 'c) noise_lib \<Rightarrow> 'c \<Rightarrow> bytes \<Rightarrow> bytes" where
  "plain_contents nl c s =
     (case next_message nl c s of
        Inl e \<Rightarrow> []
      | Inr (pt, c', s') \<Rightarrow> pt @ plain_contents nl c' s')"
  by pat_completeness auto
termination
  by (relation "measure (\<lambda>(nl, c, s). length s)") (auto dest: next_message_consumes)

declare plain_contents.simps [simp del]

definition noise_pending :: "('h, 'c) noise_lib \<Rightarrow> 'c noiseConn \<Rightarrow> bytes" where
  "noise_pending nl nc = nc_readBuf nc @ plain_contents nl (nc_recv nc) (nc_in nc)"

lemma noise_Read_ok:
  assumes "noise_Read nl n nc = Inr (bs, nc')"
  shows "noise_pending nl nc = bs @ noise_pending nl nc'" and "length bs \<le> n"
  using assms plain_contents.simps [of nl "nc_recv nc" "nc_in nc"]
  by (auto simp: noise_Read_def noise_pending_def split: if_splits sum.splits prod.splits)

lemma noise_Read_error:
  "noise_Read nl n nc = Inl e \<Longrightarrow> noise_pending nl nc = []"
  using plain_contents.simps [of nl "nc_recv nc" "nc_in nc"]
  by (auto simp: noise_Read_def noise_pending_def split: if_splits sum.splits prod.splits)

lemma noise_ReadLoop_enough:
  "n \<le> length (noise_pending nl nc) \<Longrightarrow>
     \<exists>nc'. noise_ReadLoop nl n acc nc = Inr (acc @ take n (noise_pending nl nc), nc') \<and>
           noise_pending nl nc' = drop n (noise_pending nl nc)"
proof (induction nl n acc nc rule: noise_ReadLoop.induct)
  case (1 nl n acc nc)
  show ?case
  proof (cases "n = 0")
    case True
    then show ?thesis by (simp add: noise_ReadLoop.simps)
  next
    case False
    then obtain bs nc1 where r: "noise_Read nl n nc = Inr (bs, nc1)"
      using "1.prems" noise_Read_error [of nl n nc] by (cases "noise_Read nl n nc") auto
    note ok = noise_Read_ok [OF r]
    have "n - length bs \<le> length (noise_pending nl nc1)"
      using "1.prems" ok by simp
    from "1.IH" [OF False r refl this] obtain nc' where
      "noise_ReadLoop nl (n - length bs) (acc @ bs) nc1 =
         Inr ((acc @ bs) @ take (n - length bs) (noise_pending nl nc1), nc')"
      "noise_pending nl nc' = drop (n - length bs) (noise_pending nl nc1)"
      by blast
    then show ?thesis
      using False r ok by (simp add: noise_ReadLoop.simps [of nl n acc nc])
  qed
qed

lemma noise_ReadLoop_short:
  "length (noise_pending nl nc) < n \<Longrightarrow> \<exists>e. noise_ReadLoop nl n acc nc = Inl e"
proof (induction nl n acc nc rule: noise_ReadLoop.induct)
  case (1 nl n acc nc)
  then have n: "n \<noteq> 0" by simp
  show ?case
  proof (cases "noise_Read nl n nc")
    case (Inl e)
    then show ?thesis using n by (simp add: noise_ReadLoop.simps [of nl n acc nc])
  next
    case (Inr p)
    obtain bs nc1 where p: "p = (bs, nc1)" by (cases p)
    have r: "noise_Read nl n nc = Inr (bs, nc1)" using Inr p by simp
    have "length (noise_pending nl nc1) < n - length bs"
      using "1.prems" noise_Read_ok [OF r] by simp
    from "1.IH" [OF n r refl this] n r show ?thesis
      by (simp add: noise_ReadLoop.simps [of nl n acc nc])
  qed
qed

interpretation noise: byte_source "noise_ReadFull nl" "noise_pending nl" for nl
  by unfold_locales
    (use noise_ReadLoop_enough [of _ nl _ "[]"] noise_ReadLoop_short [of nl _ _ "[]"]
     in \<open>simp_all add: noise_ReadFull_def\<close>)

section \<open>Frames over the encrypted connection\<close>

primrec noise_WriteFrames ::
  "('h, 'c) noise_lib \<Rightarrow> bytes list \<Rightarrow> 'c noiseConn \<Rightarrow> noise_error frame_error + 'c noiseConn" where
  "noise_WriteFrames nl [] nc = Inr nc"
| "noise_WriteFrames nl (p # ps) nc =
     (case WriteFrame (noise_Write nl) p nc of
        Inl e \<Rightarrow> Inl e
      | Inr nc' \<Rightarrow> noise_WriteFrames nl ps nc')"

text \<open>
  The documented behaviour of a pair of cipher states, one encrypting and one decrypting: related
  states stay related, decryption inverts encryption, and a ciphertext is 16 bytes (the Poly1305
  tag) longer than its plaintext.
\<close>

definition paired_states :: "('h, 'c) noise_lib \<Rightarrow> ('c \<Rightarrow> 'c \<Rightarrow> bool) \<Rightarrow> bool" where
  "paired_states nl R \<longleftrightarrow>
     (\<forall>c d p. R c d \<longrightarrow>
        (\<exists>ct c' d'. Encrypt nl c p = Some (ct, c') \<and> length ct = length p + 16 \<and>
                    Decrypt nl d ct = Some (p, d') \<and> R c' d'))"

lemma next_message_written:
  assumes "length ct \<le> maxNoiseMsg" and "Decrypt nl d ct = Some (p, d')"
  shows "next_message nl d (PutUint32 (of_nat (length ct)) @ ct @ rest) = Inr (p, d', rest)"
proof -
  have "unat (of_nat (length ct) :: u32) = length ct"
    using assms(1) by (simp add: unat_of_nat maxNoiseMsg_def MaxPayload_def HeaderSize_def)
  moreover have "unat (of_nat maxNoiseMsg :: u32) = maxNoiseMsg"
    by (simp add: unat_of_nat maxNoiseMsg_def MaxPayload_def HeaderSize_def)
  ultimately show ?thesis
    using assms by (simp add: next_message_def stream_ReadFull_def word_less_nat_alt)
qed

lemma noise_WriteFrames_contents:
  assumes "paired_states nl R" and "R (nc_send a) d" and "nc_open a"
    and "list_all (\<lambda>p. length p \<le> MaxPayload) ps"
  shows "\<exists>a' w. noise_WriteFrames nl ps a = Inr a' \<and> nc_out a' = nc_out a @ w \<and>
    plain_contents nl d w = concat (map frame_buf ps)"
  using assms(2-)
proof (induction ps arbitrary: a d)
  case Nil
  have "plain_contents nl d [] = []"
    by (simp add: plain_contents.simps next_message_def stream_ReadFull_def)
  then show ?case by simp
next
  case (Cons p ps)
  obtain ct c' d' where e: "Encrypt nl (nc_send a) (frame_buf p) = Some (ct, c')"
    and len: "length ct = length (frame_buf p) + 16"
    and dec: "Decrypt nl d ct = Some (frame_buf p, d')" and r: "R c' d'"
    using assms(1) Cons.prems(1) unfolding paired_states_def by blast
  define a1 where
    "a1 = a\<lparr>nc_send := c', nc_out := nc_out a @ PutUint32 (of_nat (length ct)) @ ct\<rparr>"
  have w1: "WriteFrame (noise_Write nl) p a = Inr a1"
    using Cons.prems(2,3) e by (simp add: WriteFrame_def noise_Write_def conn_Write_def a1_def)
  obtain a' w where IH: "noise_WriteFrames nl ps a1 = Inr a'" "nc_out a' = nc_out a1 @ w"
    "plain_contents nl d' w = concat (map frame_buf ps)"
    using Cons.IH [of a1 d'] r Cons.prems by (auto simp: a1_def)
  have "length ct \<le> maxNoiseMsg" using len Cons.prems(3) by (simp add: maxNoiseMsg_def)
  from next_message_written [OF this dec, of w] have
    "plain_contents nl d (PutUint32 (of_nat (length ct)) @ ct @ w) =
       concat (map frame_buf (p # ps))"
    using IH(3) by (simp add: plain_contents.simps [of nl d])
  then show ?case
    using w1 IH by (intro exI [of _ a'] exI [of _ "PutUint32 (of_nat (length ct)) @ ct @ w"])
      (simp add: a1_def)
qed

lemma writeHandshakeMsg_ok:
  "length m \<le> 0xFFFF \<Longrightarrow> writeHandshakeMsg w m = Inr (w @ PutUint16 (of_nat (length m)) @ m)"
  by (simp add: writeHandshakeMsg_def)

lemma readHandshakeMsg_written:
  "length m \<le> 0xFFFF \<Longrightarrow> readHandshakeMsg (PutUint16 (of_nat (length m)) @ m @ r) = Inr (m, r)"
  by (simp add: readHandshakeMsg_def stream_ReadFull_def unat_of_nat)

text \<open>Both sides of an accepted exchange, with the bytes they write.\<close>

definition hs_frame :: "bytes \<Rightarrow> bytes" where
  "hs_frame msg = PutUint16 (of_nat (length msg)) @ msg"

lemma handshake_run:
  assumes "NewHandshakeState nl True ki = Some i0" and "NewHandshakeState nl False kr = Some r0"
    and "WriteMessage nl i0 = Some (m1, x1, x2, i1)" and "ReadMessage nl r0 m1 = Some (x3, x4, r1)"
    and "WriteMessage nl r1 = Some (m2, x5, x6, r2)" and "ReadMessage nl i1 m2 = Some (x7, x8, i2)"
    and "WriteMessage nl i2 = Some (m3, ci1, ci2, i3)"
    and "ReadMessage nl r2 m3 = Some (cr1, cr2, r3)"
    and "length m1 \<le> 0xFFFF" and "length m2 \<le> 0xFFFF" and "length m3 \<le> 0xFFFF"
  shows "Handshake nl True ki (hs_frame m2 @ di) =
      Inr (new_noiseConn ci1 ci2 di (hs_frame m1 @ hs_frame m3) (hs_PeerStatic nl i3), hs_PeerStatic nl i3)"
    "Handshake nl False kr ((hs_frame m1 @ hs_frame m3) @ dr) =
      Inr (new_noiseConn cr2 cr1 dr (hs_frame m2) (hs_PeerStatic nl r3), hs_PeerStatic nl r3)"
  using assms readHandshakeMsg_written [simplified, of m2 di]
    readHandshakeMsg_written [simplified, of m1 "hs_frame m3 @ dr"] readHandshakeMsg_written [simplified, of m3 dr]
  by (simp_all add: Handshake_def hs_send_def hs_receive_def writeHandshakeMsg_ok hs_frame_def)

section \<open>Properties\<close>

text \<open>
  C18. Reliable delivery over the encrypted connection. With paired cipher states, all payloads
  within the frame limit can be written, and reading as many frames on the other side, after any
  fragmentation into buffered partial reads, returns exactly those payloads in order with nothing
  left over.
\<close>

theorem noise_frames_delivered:
  assumes "paired_states nl R" and "R (nc_send a) (nc_recv b)"
    and "nc_open a" and "nc_out a = []" and "nc_readBuf b = []"
    and "list_all (\<lambda>p. length p \<le> MaxPayload) ps"
  shows "\<exists>a' b'. noise_WriteFrames nl ps a = Inr a' \<and>
    ReadFrames (noise_ReadFull nl) (length ps) (b\<lparr>nc_in := nc_out a'\<rparr>) = Inr (ps, b') \<and>
    noise_pending nl b' = []"
proof -
  obtain a' where a': "noise_WriteFrames nl ps a = Inr a'"
    "plain_contents nl (nc_recv b) (nc_out a') = concat (map frame_buf ps)"
    using noise_WriteFrames_contents [OF assms(1,2,3,6)] assms(4) by auto
  have "noise_pending nl (b\<lparr>nc_in := nc_out a'\<rparr>) = concat (map frame_buf ps) @ []"
    using a'(2) assms(5) by (simp add: noise_pending_def)
  from noise.ReadFrames_frames [OF this assms(6)] a'(1) show ?thesis by auto
qed

section \<open>Witnesses\<close>

text \<open>
  A toy library: ciphertexts are the plaintext and 16 tag bytes, and cipher states count messages;
  a handshake state counts the messages exchanged.
\<close>

definition demo_noise :: "(nat, nat) noise_lib" where
  "demo_noise = \<lparr>Encrypt = (\<lambda>c p. Some (p @ replicate 16 (of_nat c), Suc c)),
     Decrypt = (\<lambda>c ct. Some (take (length ct - 16) ct, Suc c)),
     NewHandshakeState = (\<lambda>i k. Some 0),
     WriteMessage = (\<lambda>h. Some ([of_nat h], 10, 20, Suc h)),
     ReadMessage = (\<lambda>h m. Some (10, 20, Suc h)),
     hs_PeerStatic = (\<lambda>h. [5])\<rparr>"

theorem noise_frames_delivered_witness:
  "\<exists>a' b'. noise_WriteFrames demo_noise [[1], [2, 3]] (new_noiseConn 10 20 [] [] [5]) = Inr a' \<and>
    ReadFrames (noise_ReadFull demo_noise) (length [[1], [2, 3] :: bytes])
      ((new_noiseConn 20 10 [] [] [5])\<lparr>nc_in := nc_out a'\<rparr>) = Inr ([[1], [2, 3]], b') \<and>
    noise_pending demo_noise b' = []"
proof -
  have p: "paired_states demo_noise (=)"
    by (simp add: paired_states_def demo_noise_def)
  show ?thesis
    by (rule noise_frames_delivered [OF p]) (simp_all add: new_noiseConn_def MaxPayload_def)
qed

end
