(* ===== verification/Peer.thy ===== *)
theory Peer
  imports Identity Noise SeenCache
begin

text \<open>
  One peer connection (\<^verbatim>\<open>internal/transport/peer.go\<close>) on top of the encrypted connection.

  The callbacks \<^verbatim>\<open>onPeerExchange\<close> and \<^verbatim>\<open>onGossipMessage\<close> that the manager sets are flags here; what
  \<^verbatim>\<open>recvLoop\<close> hands to them is returned as a \<open>recv_action\<close>, and the manager's model carries it out.
  Deadlines only bound how long a read or write may block: an expired deadline is an error of the
  underlying connection, like its end. The loops are given by their iterations (\<open>send_iter\<close>,
  \<open>recv_iter\<close>) and by \<open>recvLoop\<close>, which runs until the arrived bytes are used up.
\<close>

section \<open>Data\<close>

definition MsgTypePeerHello :: u32 where "MsgTypePeerHello = 1"
definition MsgTypePeerHelloAck :: u32 where "MsgTypePeerHelloAck = 2"
definition MsgTypeChat :: u32 where "MsgTypeChat = 3"
definition MsgTypePeerExchange :: u32 where "MsgTypePeerExchange = 4"
definition MsgTypeKeepalive :: u32 where "MsgTypeKeepalive = 5"
definition seenTTL :: duration where "seenTTL = 5 * Minute"
definition defaultIdleTimeout :: duration where "defaultIdleTimeout = 60 * Second"
definition defaultKeepaliveInterval :: duration where "defaultKeepaliveInterval = 20 * Second"
definition defaultWriteTimeout :: duration where "defaultWriteTimeout = 10 * Second"
definition defaultHandshakeTimeout :: duration where "defaultHandshakeTimeout = 10 * Second"
definition sendChCap :: nat where "sendChCap = 64"

lemmas msg_type_defs = MsgTypePeerHello_def MsgTypePeerHelloAck_def MsgTypeChat_def
  MsgTypePeerExchange_def MsgTypeKeepalive_def

record 'c Peer =
  p_NodeID :: node_id
  edPubKey :: bytes
  p_conn :: "'c noiseConn"
  peerX25519 :: bytes
  p_localID :: Identity
  p_initiator :: bool
  remoteReachable :: bool
  remoteListenAddr :: string
  has_onPeerExchange :: bool
  has_onGossipMessage :: bool
  sendCh :: "bytes list"
  p_done :: bool
  idleTimeout :: duration
  keepaliveInterval :: duration
  writeTimeout :: duration
  handshakeTimeout :: duration
  p_seen :: "(string, instant) fmap"

record HelloConfig =
  hc_Tags :: "string list"
  hc_Reachable :: bool
  hc_ListenAddr :: string

datatype hello_error =
    MarshalHello
  | MarshalEnvelope
  | WriteHello "noise_error frame_error"
  | ReadHelloFrame "noise_error frame_error"
  | UnmarshalHelloEnvelope
  | UnexpectedMsgType u32 u32
  | UnmarshalHello
  | InvalidHelloSignature node_id
  | SenderIdMismatch node_id node_id
  | NodeIdMismatch node_id node_id
  | ConvertPeerKey
  | X25519Mismatch

section \<open>Hello exchange\<close>

definition newPeer :: "'c noiseConn \<Rightarrow> bytes \<Rightarrow> Identity \<Rightarrow> bool \<Rightarrow> 'c Peer" where
  "newPeer conn px lid init =
     \<lparr>p_NodeID = [], edPubKey = [], p_conn = conn, peerX25519 = px, p_localID = lid,
      p_initiator = init, remoteReachable = False, remoteListenAddr = [], has_onPeerExchange = False,
      has_onGossipMessage = False, sendCh = [], p_done = False, idleTimeout = defaultIdleTimeout,
      keepaliveInterval = defaultKeepaliveInterval, writeTimeout = defaultWriteTimeout,
      handshakeTimeout = defaultHandshakeTimeout, p_seen = fmempty\<rparr>"

definition sendHello ::
  "crypto \<Rightarrow> 'r codec \<Rightarrow> ('h, 'c) noise_lib \<Rightarrow> string \<Rightarrow> PeerHello \<Rightarrow> u32 \<Rightarrow> 'c Peer \<Rightarrow> hello_error + 'c Peer" where
  "sendHello cr cd nl uuid hello msgType p =
     (case hello_Marshal cd hello of
        None \<Rightarrow> Inl MarshalHello
      | Some payload \<Rightarrow>
          (let env = SignEnvelope cr (zero_Envelope\<lparr>MessageId := uuid, SenderId := NodeID (p_localID p),
                 MsgType := msgType, HopCount := 1, Payload := payload\<rparr>) (PrivateKey (p_localID p)) in
           case env_Marshal cd env of
             None \<Rightarrow> Inl MarshalEnvelope
           | Some envBytes \<Rightarrow>
               (case WriteFrame (noise_Write nl) envBytes (p_conn p) of
                  Inl e \<Rightarrow> Inl (WriteHello e)
                | Inr nc \<Rightarrow> Inr (p\<lparr>p_conn := nc\<rparr>))))"

definition recvHello ::
  "crypto \<Rightarrow> 'r codec \<Rightarrow> ('h, 'c) noise_lib \<Rightarrow> u32 \<Rightarrow> 'c Peer \<Rightarrow> hello_error + PeerHello \<times> 'c Peer" where
  "recvHello cr cd nl expectedType p =
     (case ReadFrame (noise_ReadFull nl) (p_conn p) of
        Inl e \<Rightarrow> Inl (ReadHelloFrame e)
      | Inr (data, nc) \<Rightarrow>
          (case env_Unmarshal cd data of
             None \<Rightarrow> Inl UnmarshalHelloEnvelope
           | Some env \<Rightarrow>
               if MsgType env \<noteq> expectedType then Inl (UnexpectedMsgType expectedType (MsgType env))
               else
                 (case hello_Unmarshal cd (Payload env) of
                    None \<Rightarrow> Inl UnmarshalHello
                  | Some hello \<Rightarrow>
                      if \<not> VerifyEnvelope cr env (hello_Ed25519Pubkey hello)
                      then Inl (InvalidHelloSignature (hello_NodeId hello))
                      else if SenderId env \<noteq> hello_NodeId hello
                      then Inl (SenderIdMismatch (SenderId env) (hello_NodeId hello))
                      else Inr (hello, p\<lparr>p_conn := nc\<rparr>))))"

definition verifyPeerIdentity :: "crypto \<Rightarrow> PeerHello \<Rightarrow> 'c Peer \<Rightarrow> hello_error + 'c Peer" where
  "verifyPeerIdentity cr hello p =
     (let pubKey = hello_Ed25519Pubkey hello; expectedNodeID = hex_EncodeToString (sha256 cr pubKey) in
      if hello_NodeId hello \<noteq> expectedNodeID then Inl (NodeIdMismatch (hello_NodeId hello) expectedNodeID)
      else
        (case EdPublicToX25519 cr pubKey of
           None \<Rightarrow> Inl ConvertPeerKey
         | Some x25519Pub \<Rightarrow>
             if x25519Pub \<noteq> peerX25519 p then Inl X25519Mismatch
             else Inr (p\<lparr>p_NodeID := hello_NodeId hello, edPubKey := pubKey,
                         remoteReachable := hello_Reachable hello,
                         remoteListenAddr := hello_ListenAddr hello\<rparr>)))"

definition local_hello :: "HelloConfig \<Rightarrow> 'c Peer \<Rightarrow> PeerHello" where
  "local_hello cfg p =
     \<lparr>hello_NodeId = NodeID (p_localID p), hello_Version = ''0.1.0'', hello_Tags = hc_Tags cfg,
      hello_Reachable = hc_Reachable cfg, hello_ListenAddr = hc_ListenAddr cfg,
      hello_Ed25519Pubkey = PublicKey (p_localID p)\<rparr>"

definition ExchangeHello ::
  "crypto \<Rightarrow> 'r codec \<Rightarrow> ('h, 'c) noise_lib \<Rightarrow> string \<Rightarrow> HelloConfig \<Rightarrow> 'c Peer \<Rightarrow> hello_error + 'c Peer" where
  "ExchangeHello cr cd nl uuid cfg p =
     (if p_initiator p then
        (case sendHello cr cd nl uuid (local_hello cfg p) MsgTypePeerHello p of
           Inl e \<Rightarrow> Inl e
         | Inr p1 \<Rightarrow>
             (case recvHello cr cd nl MsgTypePeerHelloAck p1 of
                Inl e \<Rightarrow> Inl e
              | Inr (ack, p2) \<Rightarrow> verifyPeerIdentity cr ack p2))
      else
        (case recvHello cr cd nl MsgTypePeerHello p of
           Inl e \<Rightarrow> Inl e
         | Inr (hello, p1) \<Rightarrow>
             (case verifyPeerIdentity cr hello p1 of
                Inl e \<Rightarrow> Inl e
              | Inr p2 \<Rightarrow> sendHello cr cd nl uuid (local_hello cfg p) MsgTypePeerHelloAck p2)))"

section \<open>Sending\<close>

definition SendRaw :: "bytes \<Rightarrow> 'c Peer \<Rightarrow> bool \<times> 'c Peer" where
  "SendRaw data p =
     (if length (sendCh p) < sendChCap then (True, p\<lparr>sendCh := sendCh p @ [data]\<rparr>) else (False, p))"

definition peer_Close :: "'c Peer \<Rightarrow> 'c Peer" where
  "peer_Close p = (if p_done p then p else p\<lparr>p_done := True, p_conn := noise_Close (p_conn p)\<rparr>)"

datatype send_error = WriteFrameError "noise_error frame_error" | MarshalKeepalive

definition sendWithDeadline ::
  "('h, 'c) noise_lib \<Rightarrow> bytes \<Rightarrow> 'c Peer \<Rightarrow> send_error + 'c Peer" where
  "sendWithDeadline nl data p =
     (case WriteFrame (noise_Write nl) data (p_conn p) of
        Inl e \<Rightarrow> Inl (WriteFrameError e)
      | Inr nc \<Rightarrow> Inr (p\<lparr>p_conn := nc\<rparr>))"

definition writeKeepalive ::
  "'r codec \<Rightarrow> ('h, 'c) noise_lib \<Rightarrow> 'c Peer \<Rightarrow> send_error + 'c Peer" where
  "writeKeepalive cd nl p =
     (case env_Marshal cd (zero_Envelope\<lparr>MsgType := MsgTypeKeepalive\<rparr>) of
        None \<Rightarrow> Inl MarshalKeepalive
      | Some data \<Rightarrow> sendWithDeadline nl data p)"

text \<open>
  One iteration of \<^verbatim>\<open>sendLoop\<close>, by the case its \<^verbatim>\<open>select\<close> picks: \<^const>\<open>None\<close> in the result is the
  loop's return of nil.
\<close>

datatype send_case = SendData | KeepaliveTimer | SendDone

definition send_iter ::
  "'r codec \<Rightarrow> ('h, 'c) noise_lib \<Rightarrow> send_case \<Rightarrow> 'c Peer \<Rightarrow> send_error + 'c Peer option" where
  "send_iter cd nl c p =
     (case c of
        SendData \<Rightarrow>
          (case sendCh p of
             [] \<Rightarrow> Inr (Some p)
           | data # rest \<Rightarrow> map_sum id Some (sendWithDeadline nl data (p\<lparr>sendCh := rest\<rparr>)))
      | KeepaliveTimer \<Rightarrow> map_sum id Some (writeKeepalive cd nl p)
      | SendDone \<Rightarrow> (if p_done p then Inr None else Inr (Some p)))"

section \<open>Receiving\<close>

definition isDuplicate :: "string \<Rightarrow> instant \<Rightarrow> 'c Peer \<Rightarrow> bool \<times> 'c Peer" where
  "isDuplicate messageID now p =
     (case fmlookup (p_seen p) messageID of
        Some _ \<Rightarrow> (True, p)
      | None \<Rightarrow> (False, p\<lparr>p_seen := fmupd messageID now (p_seen p)\<rparr>))"

definition cleanupSeen :: "instant \<Rightarrow> 'c Peer \<Rightarrow> 'c Peer" where
  "cleanupSeen now p = p\<lparr>p_seen := map_sweep (\<lambda>t. t < now - seenTTL) (p_seen p)\<rparr>"

definition cleanupSeenLoop :: "instant list \<Rightarrow> 'c Peer \<Rightarrow> 'c Peer" where
  "cleanupSeenLoop ticks p = fold cleanupSeen ticks p"

text \<open>What a received frame makes the peer hand to the manager.\<close>

datatype recv_action =
    NoAction
  | CallPeerExchange node_id "PeerInfo list"
  | CallGossip node_id Envelope

definition handlePeerExchange :: "'r codec \<Rightarrow> Envelope \<Rightarrow> 'c Peer \<Rightarrow> recv_action" where
  "handlePeerExchange cd env p =
     (case px_Unmarshal cd (Payload env) of
        None \<Rightarrow> NoAction
      | Some peers \<Rightarrow> if has_onPeerExchange p then CallPeerExchange (p_NodeID p) peers else NoAction)"

definition dispatch ::
  "crypto \<Rightarrow> 'r codec \<Rightarrow> instant \<Rightarrow> bytes \<Rightarrow> 'c Peer \<Rightarrow> recv_action \<times> 'c Peer" where
  "dispatch cr cd now data p =
     (case env_Unmarshal cd data of
        None \<Rightarrow> (NoAction, p)
      | Some env \<Rightarrow>
          if MsgType env = MsgTypeKeepalive then (NoAction, p)
          else if MsgType env = MsgTypePeerExchange then
            (case isDuplicate (MessageId env) now p of
               (True, p1) \<Rightarrow> (NoAction, p1)
             | (False, p1) \<Rightarrow>
                 if \<not> VerifyEnvelope cr env (edPubKey p1) then (NoAction, p1)
                 else if SenderId env \<noteq> p_NodeID p1 then (NoAction, p1)
                 else (handlePeerExchange cd env p1, p1))
          else if MsgType env = MsgTypePeerHello \<or> MsgType env = MsgTypePeerHelloAck then (NoAction, p)
          else if has_onGossipMessage p then (CallGossip (p_NodeID p) env, p) else (NoAction, p))"

datatype recv_result = LoopReturnsNil | LoopFails "noise_error frame_error" | LoopContinues

text \<open>One iteration of \<^verbatim>\<open>recvLoop\<close>.\<close>

definition recv_iter ::
  "crypto \<Rightarrow> 'r codec \<Rightarrow> ('h, 'c) noise_lib \<Rightarrow> instant \<Rightarrow> 'c Peer \<Rightarrow> recv_result \<times> recv_action \<times> 'c Peer" where
  "recv_iter cr cd nl now p =
     (case ReadFrame (noise_ReadFull nl) (p_conn p) of
        Inl e \<Rightarrow> (if p_done p then LoopReturnsNil else LoopFails e, NoAction, p)
      | Inr (data, nc) \<Rightarrow>
          (let (act, p1) = dispatch cr cd now data (p\<lparr>p_conn := nc\<rparr>) in (LoopContinues, act, p1)))"

lemma dispatch_frame:
  "p_conn (snd (dispatch cr cd now data p)) = p_conn p"
  "p_NodeID (snd (dispatch cr cd now data p)) = p_NodeID p"
  "edPubKey (snd (dispatch cr cd now data p)) = edPubKey p"
  "has_onGossipMessage (snd (dispatch cr cd now data p)) = has_onGossipMessage p"
  "has_onPeerExchange (snd (dispatch cr cd now data p)) = has_onPeerExchange p"
  by (auto simp: dispatch_def isDuplicate_def split: option.splits)

lemma dispatch_conn:
  "dispatch cr cd now data (p\<lparr>p_conn := nc\<rparr>) =
     (case dispatch cr cd now data p of (act, p1) \<Rightarrow> (act, p1\<lparr>p_conn := nc\<rparr>))"
  by (auto simp: dispatch_def isDuplicate_def handlePeerExchange_def split: option.splits)

lemma recv_iter_consumes:
  assumes "recv_iter cr cd nl now p = (LoopContinues, act, p1)"
  shows "length (noise_pending nl (p_conn p1)) < length (noise_pending nl (p_conn p))"
proof -
  obtain data nc where r: "ReadFrame (noise_ReadFull nl) (p_conn p) = Inr (data, nc)"
    and p1: "p1 = snd (dispatch cr cd now data (p\<lparr>p_conn := nc\<rparr>))"
    using assms by (auto simp: recv_iter_def split_beta split: sum.splits if_splits)
  have "p_conn p1 = nc" unfolding p1 dispatch_frame by simp
  then show ?thesis using noise.ReadFrame_success [OF r] by (simp add: HeaderSize_def)
qed

text \<open>
  The whole receive loop over the bytes that arrive before the connection ends; the clock of the
  \<open>i\<close>-th iteration is \<open>clk i\<close>. It ends because every iteration consumes a frame.
\<close>

function recvLoop ::
  "crypto \<Rightarrow> 'r codec \<Rightarrow> ('h, 'c) noise_lib \<Rightarrow> (nat \<Rightarrow> instant) \<Rightarrow> 'c Peer \<Rightarrow>
     recv_result \<times> recv_action list \<times> 'c Peer" where
  "recvLoop cr cd nl clk p =
     (case recv_iter cr cd nl (clk 0) p of
        (res, act, p1) \<Rightarrow>
          if res = LoopContinues then
            (case recvLoop cr cd nl (\<lambda>i. clk (Suc i)) p1 of (r, acts, p2) \<Rightarrow> (r, act # acts, p2))
          else (res, [], p1))"
  by pat_completeness auto
termination
  by (relation "measure (\<lambda>(cr, cd, nl, clk, p). length (noise_pending nl (p_conn p)))")
    (auto dest: recv_iter_consumes [OF sym])

declare recvLoop.simps [simp del]

text \<open>Dispatching a sequence of frames.\<close>

primrec dispatch_all ::
  "crypto \<Rightarrow> 'r codec \<Rightarrow> bytes list \<Rightarrow> (nat \<Rightarrow> instant) \<Rightarrow> 'c Peer \<Rightarrow> recv_action list \<times> 'c Peer" where
  "dispatch_all cr cd [] clk p = ([], p)"
| "dispatch_all cr cd (d # ds) clk p =
     (case dispatch cr cd (clk 0) d p of
        (act, p1) \<Rightarrow> (case dispatch_all cr cd ds (\<lambda>i. clk (Suc i)) p1 of (acts, p2) \<Rightarrow> (act # acts, p2)))"

text \<open>Iterations of \<^verbatim>\<open>sendLoop\<close> that take queued data.\<close>

primrec send_queued ::
  "'r codec \<Rightarrow> ('h, 'c) noise_lib \<Rightarrow> nat \<Rightarrow> 'c Peer \<Rightarrow> send_error + 'c Peer" where
  "send_queued cd nl 0 p = Inr p"
| "send_queued cd nl (Suc n) p =
     (case send_iter cd nl SendData p of
        Inl e \<Rightarrow> Inl e
      | Inr None \<Rightarrow> Inr p
      | Inr (Some p1) \<Rightarrow> send_queued cd nl n p1)"

section \<open>The per-connection duplicate filter\<close>

interpretation pseen: dedup_cache p_seen "\<lambda>p. seenTTL" isDuplicate cleanupSeen
  by unfold_locales (auto simp: isDuplicate_def cleanupSeen_def)

section \<open>The connection under reads and writes\<close>

lemma noise_Read_frame:
  "noise_Read nl n nc = Inr (bs, nc') \<Longrightarrow>
     nc_send nc' = nc_send nc \<and> nc_out nc' = nc_out nc \<and> nc_open nc' = nc_open nc"
  by (auto simp: noise_Read_def split: if_splits sum.splits)

lemma noise_ReadLoop_frame:
  "noise_ReadLoop nl n acc nc = Inr (bs, nc') \<Longrightarrow>
     nc_send nc' = nc_send nc \<and> nc_out nc' = nc_out nc \<and> nc_open nc' = nc_open nc"
proof (induction nl n acc nc rule: noise_ReadLoop.induct)
  case (1 nl n acc nc)
  show ?case
  proof (cases "n = 0")
    case True
    then show ?thesis using "1.prems" by (simp add: noise_ReadLoop.simps)
  next
    case False
    with "1.prems" obtain b nc1 where r: "noise_Read nl n nc = Inr (b, nc1)"
      "noise_ReadLoop nl (n - length b) (acc @ b) nc1 = Inr (bs, nc')"
      by (auto simp: noise_ReadLoop.simps [of nl n acc nc] split: sum.splits)
    from "1.IH" [OF False r(1) refl r(2)] noise_Read_frame [OF r(1)] show ?thesis by simp
  qed
qed

lemma ReadFrame_noise_frame:
  assumes "ReadFrame (noise_ReadFull nl) nc = Inr (data, nc')"
  shows "nc_send nc' = nc_send nc" "nc_out nc' = nc_out nc" "nc_open nc' = nc_open nc"
  using assms
  by (auto simp: ReadFrame_def noise_ReadFull_def Let_def
      dest!: noise_ReadLoop_frame split: sum.splits if_splits)

lemma noise_Write_frame:
  assumes "noise_Write nl b nc = Inr nc'"
  shows "nc_recv nc' = nc_recv nc \<and> nc_in nc' = nc_in nc \<and> nc_readBuf nc' = nc_readBuf nc \<and>
    nc_open nc' = nc_open nc"
  using assms by (auto simp: noise_Write_def conn_Write_def split: option.splits if_splits)

text \<open>The bytes a frame is written as depend on the cipher state only.\<close>

lemma WriteFrame_noise:
  assumes "paired_states nl R" and "R c d" and "length data \<le> MaxPayload"
  shows "\<exists>w c'. plain_contents nl d w = frame_buf data \<and>
    (\<forall>nc. nc_send nc = c \<longrightarrow> nc_open nc \<longrightarrow>
       WriteFrame (noise_Write nl) data nc = Inr (nc\<lparr>nc_send := c', nc_out := nc_out nc @ w\<rparr>))"
proof -
  obtain ct c' d' where e: "Encrypt nl c (frame_buf data) = Some (ct, c')"
    and len: "length ct = length (frame_buf data) + 16"
    and dec: "Decrypt nl d ct = Some (frame_buf data, d')"
    using assms(1,2) unfolding paired_states_def by blast
  have "length ct \<le> maxNoiseMsg" using len assms(3) by (simp add: maxNoiseMsg_def)
  from next_message_written [OF this dec, of "[]"]
  have "plain_contents nl d (PutUint32 (of_nat (length ct)) @ ct) = frame_buf data @ plain_contents nl d' []"
    by (simp add: plain_contents.simps [of nl d])
  moreover have "plain_contents nl d' [] = []"
    by (simp add: plain_contents.simps next_message_def stream_ReadFull_def)
  moreover have "WriteFrame (noise_Write nl) data nc =
      Inr (nc\<lparr>nc_send := c', nc_out := nc_out nc @ PutUint32 (of_nat (length ct)) @ ct\<rparr>)"
    if "nc_send nc = c" "nc_open nc" for nc
    using that e assms(3) by (simp add: WriteFrame_def noise_Write_def conn_Write_def)
  ultimately show ?thesis by (intro exI [of _ "PutUint32 (of_nat (length ct)) @ ct"] exI [of _ c']) simp
qed

lemma ReadFrame_noise:
  assumes "nc_readBuf nc = []" and "plain_contents nl (nc_recv nc) (nc_in nc) = frame_buf data"
    and "length data \<le> MaxPayload"
  shows "\<exists>nc'. ReadFrame (noise_ReadFull nl) nc = Inr (data, nc') \<and> nc_send nc' = nc_send nc \<and>
    nc_out nc' = nc_out nc \<and> nc_open nc' = nc_open nc"
proof -
  have "noise_pending nl nc = frame_buf data @ []" using assms(1,2) by (simp add: noise_pending_def)
  from noise.ReadFrame_frame [OF this assms(3)] obtain nc' where
    "ReadFrame (noise_ReadFull nl) nc = Inr (data, nc')" by blast
  with ReadFrame_noise_frame [OF this] show ?thesis by blast
qed

section \<open>Hello messages\<close>

definition hello_env :: "crypto \<Rightarrow> string \<Rightarrow> Identity \<Rightarrow> u32 \<Rightarrow> bytes \<Rightarrow> Envelope" where
  "hello_env cr uuid i msgType payload =
     SignEnvelope cr (zero_Envelope\<lparr>MessageId := uuid, SenderId := NodeID i, MsgType := msgType,
       HopCount := 1, Payload := payload\<rparr>) (PrivateKey i)"

text \<open>The parts of a hello that its receiver can parse, and the bytes it is sent as.\<close>

definition hello_bytes :: "crypto \<Rightarrow> 'r codec \<Rightarrow> string \<Rightarrow> Identity \<Rightarrow> u32 \<Rightarrow> PeerHello \<Rightarrow> bytes option" where
  "hello_bytes cr cd uuid i msgType hello =
     (case hello_Marshal cd hello of None \<Rightarrow> None
      | Some payload \<Rightarrow> env_Marshal cd (hello_env cr uuid i msgType payload))"

lemma sendHello_alt:
  assumes "hello_bytes cr cd uuid (p_localID p) msgType hello = Some b"
  shows "sendHello cr cd nl uuid hello msgType p =
    (case WriteFrame (noise_Write nl) b (p_conn p) of
       Inl e \<Rightarrow> Inl (WriteHello e) | Inr nc \<Rightarrow> Inr (p\<lparr>p_conn := nc\<rparr>))"
  using assms by (auto simp: sendHello_def hello_bytes_def hello_env_def Let_def split: option.splits)

lemma recvHello_sent:
  assumes "hello_bytes cr cd uuid i msgType hello = Some b" and "codec_ok cd" and "identity_ok cr i"
    and "hello_NodeId hello = NodeID i" and "hello_Ed25519Pubkey hello = PublicKey i"
    and "ReadFrame (noise_ReadFull nl) (p_conn p) = Inr (b, nc)"
  shows "recvHello cr cd nl msgType p = Inr (hello, p\<lparr>p_conn := nc\<rparr>)"
proof -
  obtain payload where p: "hello_Marshal cd hello = Some payload"
    "env_Marshal cd (hello_env cr uuid i msgType payload) = Some b"
    using assms(1) by (auto simp: hello_bytes_def split: option.splits)
  have "VerifyEnvelope cr (hello_env cr uuid i msgType payload) (PublicKey i)"
    unfolding hello_env_def by (rule verify_signed [OF identity_okD(1) [OF assms(3)]])
  then show ?thesis
    using codec_okD(1) [OF assms(2) p(2)] codec_okD(2) [OF assms(2) p(1)] assms(4-6)
    by (simp add: recvHello_def hello_env_def frame_simps)
qed

lemma verifyPeerIdentity_ok:
  assumes "identity_ok cr i" and "hello_NodeId hello = NodeID i" and "hello_Ed25519Pubkey hello = PublicKey i"
    and "EdPublicToX25519 cr (PublicKey i) = Some (peerX25519 p)"
  shows "verifyPeerIdentity cr hello p =
    Inr (p\<lparr>p_NodeID := NodeID i, edPubKey := PublicKey i, remoteReachable := hello_Reachable hello,
           remoteListenAddr := hello_ListenAddr hello\<rparr>)"
  using assms identity_okD(2) [OF assms(1)] by (simp add: verifyPeerIdentity_def node_id_of_def Let_def)

lemma verifyPeerIdentity_result:
  assumes "verifyPeerIdentity cr hello p = Inr p'"
  shows "p_NodeID p' = node_id_of cr (edPubKey p')" "EdPublicToX25519 cr (edPubKey p') = Some (peerX25519 p)"
    "edPubKey p' = hello_Ed25519Pubkey hello" "p_NodeID p' = hello_NodeId hello"
    "peerX25519 p' = peerX25519 p" "p_localID p' = p_localID p"
  using assms
  by (auto simp: verifyPeerIdentity_def node_id_of_def Let_def split: if_splits option.splits)

lemma recvHello_result:
  assumes "recvHello cr cd nl msgType p = Inr (hello, p')"
  shows "\<exists>env. MsgType env = msgType \<and> VerifyEnvelope cr env (hello_Ed25519Pubkey hello) \<and>
    SenderId env = hello_NodeId hello \<and> hello_Unmarshal cd (Payload env) = Some hello"
    "peerX25519 p' = peerX25519 p" "p_localID p' = p_localID p"
  using assms by (auto simp: recvHello_def split: sum.splits option.splits if_splits)

lemma sendHello_frame:
  assumes "sendHello cr cd nl uuid hello msgType p = Inr p'"
  shows "\<exists>nc. p' = p\<lparr>p_conn := nc\<rparr>"
  using assms by (auto simp: sendHello_def Let_def split: sum.splits option.splits)

section \<open>Sending and receiving in sequence\<close>

lemma send_queued_contents:
  assumes "paired_states nl R" and "R (nc_send (p_conn p)) d" and "nc_open (p_conn p)"
    and "sendCh p = ds" and "list_all (\<lambda>x. length x \<le> MaxPayload) ds"
  shows "\<exists>p' w. send_queued cd nl (length ds) p = Inr p' \<and> sendCh p' = [] \<and>
    nc_out (p_conn p') = nc_out (p_conn p) @ w \<and> plain_contents nl d w = concat (map frame_buf ds)"
proof -
  obtain nc w where nc: "noise_WriteFrames nl ds (p_conn p) = Inr nc"
    "nc_out nc = nc_out (p_conn p) @ w" "plain_contents nl d w = concat (map frame_buf ds)"
    using noise_WriteFrames_contents [OF assms(1,2,3,5)] by blast
  have "send_queued cd nl (length ds) q = Inr (q\<lparr>sendCh := [], p_conn := nc'\<rparr>)"
    if "noise_WriteFrames nl ds (p_conn q) = Inr nc'" "sendCh q = ds" for q nc'
    using that
  proof (induction ds arbitrary: q)
    case (Cons x ds)
    then obtain nc1 where "WriteFrame (noise_Write nl) x (p_conn q) = Inr nc1"
      "noise_WriteFrames nl ds nc1 = Inr nc'" by (auto split: sum.splits)
    then show ?case
      using Cons.IH [of "q\<lparr>sendCh := ds, p_conn := nc1\<rparr>"] Cons.prems(2)
      by (simp add: send_iter_def sendWithDeadline_def)
  qed simp
  from this [OF nc(1) assms(4)] nc show ?thesis by auto
qed

lemma recvLoop_frames:
  assumes "noise_pending nl (p_conn p) = concat (map frame_buf ds)"
    and "list_all (\<lambda>x. length x \<le> MaxPayload) ds" and "\<not> p_done p"
  shows "\<exists>e p'. recvLoop cr cd nl clk p = (LoopFails e, fst (dispatch_all cr cd ds clk p), p')"
  using assms
proof (induction ds arbitrary: p clk)
  case Nil
  then have "\<exists>e. noise_ReadFull nl HeaderSize (p_conn p) = Inl e"
    by (intro noise.read_short) (simp add: HeaderSize_def)
  then show ?case
    using Nil.prems(3) by (auto simp: recvLoop.simps [of cr cd nl clk p] recv_iter_def ReadFrame_def)
next
  case (Cons x ds)
  from noise.ReadFrame_frame [of nl "p_conn p" x "concat (map frame_buf ds)"] Cons.prems
  obtain nc where nc: "ReadFrame (noise_ReadFull nl) (p_conn p) = Inr (x, nc)"
    "noise_pending nl nc = concat (map frame_buf ds)" by auto
  obtain act p1 where d: "dispatch cr cd (clk 0) x p = (act, p1)" by fastforce
  have it: "recv_iter cr cd nl (clk 0) p = (LoopContinues, act, p1\<lparr>p_conn := nc\<rparr>)"
    using nc(1) d by (simp add: recv_iter_def dispatch_conn)
  have "p_done p1 = p_done p"
    using d by (auto simp: dispatch_def isDuplicate_def split: option.splits if_splits)
  with Cons.IH [of "p1\<lparr>p_conn := nc\<rparr>" "\<lambda>i. clk (Suc i)"] nc(2) Cons.prems obtain e p' where
    IH: "recvLoop cr cd nl (\<lambda>i. clk (Suc i)) (p1\<lparr>p_conn := nc\<rparr>) =
      (LoopFails e, fst (dispatch_all cr cd ds (\<lambda>i. clk (Suc i)) (p1\<lparr>p_conn := nc\<rparr>)), p')" by auto
  have "fst (dispatch_all cr cd ds c (q\<lparr>p_conn := nc\<rparr>)) = fst (dispatch_all cr cd ds c q)" for c q
    by (induction ds arbitrary: c q) (simp_all add: dispatch_conn split_beta)
  then show ?case using IH it d by (simp add: recvLoop.simps [of cr cd nl clk p] split_beta)
qed

lemma hello_exchange_run:
  assumes "paired_states nl R" and "codec_ok cd"
    and "identity_ok cr (p_localID a)" and "identity_ok cr (p_localID b)"
    and "p_initiator a" and "\<not> p_initiator b"
    and "EdPublicToX25519 cr (PublicKey (p_localID b)) = Some (peerX25519 a)"
    and "EdPublicToX25519 cr (PublicKey (p_localID a)) = Some (peerX25519 b)"
    and "R (nc_send (p_conn a)) (nc_recv (p_conn b))" and "R (nc_send (p_conn b)) (nc_recv (p_conn a))"
    and "nc_open (p_conn a)" and "nc_open (p_conn b)"
    and "nc_readBuf (p_conn a) = []" and "nc_readBuf (p_conn b) = []"
    and "hello_bytes cr cd ua (p_localID a) MsgTypePeerHello (local_hello ca a) = Some ba"
    and "hello_bytes cr cd ub (p_localID b) MsgTypePeerHelloAck (local_hello cb b) = Some bb"
    and "length ba \<le> MaxPayload" and "length bb \<le> MaxPayload"
  shows "\<exists>wa wb a' b'.
    ExchangeHello cr cd nl ua ca (a\<lparr>p_conn := (p_conn a)\<lparr>nc_in := wb\<rparr>\<rparr>) = Inr a' \<and>
    ExchangeHello cr cd nl ub cb (b\<lparr>p_conn := (p_conn b)\<lparr>nc_in := wa\<rparr>\<rparr>) = Inr b' \<and>
    nc_out (p_conn a') = nc_out (p_conn a) @ wa \<and> nc_out (p_conn b') = nc_out (p_conn b) @ wb \<and>
    p_NodeID a' = NodeID (p_localID b) \<and> edPubKey a' = PublicKey (p_localID b) \<and>
    remoteReachable a' = hc_Reachable cb \<and> remoteListenAddr a' = hc_ListenAddr cb \<and>
    p_NodeID b' = NodeID (p_localID a) \<and> edPubKey b' = PublicKey (p_localID a) \<and>
    remoteReachable b' = hc_Reachable ca \<and> remoteListenAddr b' = hc_ListenAddr ca"
proof -
  obtain wa sa where wa: "plain_contents nl (nc_recv (p_conn b)) wa = frame_buf ba"
    "\<And>nc. nc_send nc = nc_send (p_conn a) \<Longrightarrow> nc_open nc \<Longrightarrow>
       WriteFrame (noise_Write nl) ba nc = Inr (nc\<lparr>nc_send := sa, nc_out := nc_out nc @ wa\<rparr>)"
    using WriteFrame_noise [OF assms(1,9,17)] by blast
  obtain wb sb where wb: "plain_contents nl (nc_recv (p_conn a)) wb = frame_buf bb"
    "\<And>nc. nc_send nc = nc_send (p_conn b) \<Longrightarrow> nc_open nc \<Longrightarrow>
       WriteFrame (noise_Write nl) bb nc = Inr (nc\<lparr>nc_send := sb, nc_out := nc_out nc @ wb\<rparr>)"
    using WriteFrame_noise [OF assms(1,10,18)] by blast
  define a1 where "a1 = a\<lparr>p_conn := (p_conn a)\<lparr>nc_in := wb, nc_send := sa, nc_out := nc_out (p_conn a) @ wa\<rparr>\<rparr>"
  have s1: "sendHello cr cd nl ua (local_hello ca a) MsgTypePeerHello (a\<lparr>p_conn := (p_conn a)\<lparr>nc_in := wb\<rparr>\<rparr>)
      = Inr a1"
    using sendHello_alt [of cr cd ua "a\<lparr>p_conn := (p_conn a)\<lparr>nc_in := wb\<rparr>\<rparr>" MsgTypePeerHello
        "local_hello ca a" ba nl] assms(11,15)
      wa(2) [of "(p_conn a)\<lparr>nc_in := wb\<rparr>"] by (simp add: a1_def)
  obtain nca where ra: "ReadFrame (noise_ReadFull nl) (p_conn a1) = Inr (bb, nca)" "nc_out nca = nc_out (p_conn a) @ wa"
    using ReadFrame_noise [OF _ _ assms(18), of "p_conn a1" nl] wb(1) assms(13) by (auto simp: a1_def)
  obtain ncb where rb: "ReadFrame (noise_ReadFull nl) ((p_conn b)\<lparr>nc_in := wa\<rparr>) = Inr (ba, ncb)"
    "nc_send ncb = nc_send (p_conn b)" "nc_out ncb = nc_out (p_conn b)" "nc_open ncb"
    using ReadFrame_noise [OF _ _ assms(17), of "(p_conn b)\<lparr>nc_in := wa\<rparr>" nl] wa(1) assms(12,14) by auto
  have a': "recvHello cr cd nl MsgTypePeerHelloAck a1 = Inr (local_hello cb b, a1\<lparr>p_conn := nca\<rparr>)"
    by (rule recvHello_sent [OF assms(16,2,4) _ _ ra(1)]) (simp_all add: local_hello_def)
  have b1: "recvHello cr cd nl MsgTypePeerHello (b\<lparr>p_conn := (p_conn b)\<lparr>nc_in := wa\<rparr>\<rparr>) =
      Inr (local_hello ca a, b\<lparr>p_conn := ncb\<rparr>)"
    using recvHello_sent [OF assms(15,2,3) _ _, of nl "b\<lparr>p_conn := (p_conn b)\<lparr>nc_in := wa\<rparr>\<rparr>" ncb] rb(1)
    by (simp add: local_hello_def)
  note va = verifyPeerIdentity_ok [OF assms(4), of "local_hello cb b" "a1\<lparr>p_conn := nca\<rparr>"]
  note vb = verifyPeerIdentity_ok [OF assms(3), of "local_hello ca a" "b\<lparr>p_conn := ncb\<rparr>"]
  define b2 where "b2 = b\<lparr>p_conn := ncb, p_NodeID := NodeID (p_localID a), edPubKey := PublicKey (p_localID a),
    remoteReachable := hc_Reachable ca, remoteListenAddr := hc_ListenAddr ca\<rparr>"
  have s2: "sendHello cr cd nl ub (local_hello cb b) MsgTypePeerHelloAck b2 =
      Inr (b2\<lparr>p_conn := ncb\<lparr>nc_send := sb, nc_out := nc_out (p_conn b) @ wb\<rparr>\<rparr>)"
    using sendHello_alt [of cr cd ub b2 MsgTypePeerHelloAck "local_hello cb b" bb nl] assms(16) wb(2) [OF rb(2,4)] rb(3) by (simp add: b2_def)
  have A: "ExchangeHello cr cd nl ua ca (a\<lparr>p_conn := (p_conn a)\<lparr>nc_in := wb\<rparr>\<rparr>) =
      Inr (a1\<lparr>p_conn := nca, p_NodeID := NodeID (p_localID b), edPubKey := PublicKey (p_localID b),
        remoteReachable := hc_Reachable cb, remoteListenAddr := hc_ListenAddr cb\<rparr>)"
    using s1 a' va assms(5,7) by (simp add: ExchangeHello_def local_hello_def a1_def)
  have B: "ExchangeHello cr cd nl ub cb (b\<lparr>p_conn := (p_conn b)\<lparr>nc_in := wa\<rparr>\<rparr>) =
      Inr (b2\<lparr>p_conn := ncb\<lparr>nc_send := sb, nc_out := nc_out (p_conn b) @ wb\<rparr>\<rparr>)"
    using b1 vb s2 assms(6,8) by (simp add: ExchangeHello_def local_hello_def b2_def)
  show ?thesis
    by (intro exI conjI, rule A, rule B) (simp_all add: ra(2) b2_def)
qed

section \<open>Properties\<close>

text \<open>
  C10. A completed hello exchange authenticates the peer: its node identifier is the hash of the
  Ed25519 key it presented, that key maps to the X25519 key which the Noise handshake authenticated,
  and a hello of the expected type naming this identifier carries a valid signature under the key.
\<close>

theorem hello_authenticates_peer:
  assumes "ExchangeHello cr cd nl uuid cfg p = Inr p'"
  shows "p_NodeID p' = node_id_of cr (edPubKey p') \<and>
    EdPublicToX25519 cr (edPubKey p') = Some (peerX25519 p) \<and>
    (\<exists>env. MsgType env = (if p_initiator p then MsgTypePeerHelloAck else MsgTypePeerHello) \<and>
       SenderId env = p_NodeID p' \<and> VerifyEnvelope cr env (edPubKey p'))"
proof (cases "p_initiator p")
  case True
  then obtain p1 hello p2 where 1: "sendHello cr cd nl uuid (local_hello cfg p) MsgTypePeerHello p = Inr p1"
    and 2: "recvHello cr cd nl MsgTypePeerHelloAck p1 = Inr (hello, p2)"
    and 3: "verifyPeerIdentity cr hello p2 = Inr p'"
    using assms by (auto simp: ExchangeHello_def split: sum.splits prod.splits)
  obtain nc where "p1 = p\<lparr>p_conn := nc\<rparr>" using sendHello_frame [OF 1] by blast
  then show ?thesis
    using True recvHello_result [OF 2] verifyPeerIdentity_result [OF 3] by auto
next
  case False
  then obtain hello p1 p2 where 1: "recvHello cr cd nl MsgTypePeerHello p = Inr (hello, p1)"
    and 2: "verifyPeerIdentity cr hello p1 = Inr p2"
    and 3: "sendHello cr cd nl uuid (local_hello cfg p) MsgTypePeerHelloAck p2 = Inr p'"
    using assms by (auto simp: ExchangeHello_def split: sum.splits prod.splits)
  obtain nc where "p' = p2\<lparr>p_conn := nc\<rparr>" using sendHello_frame [OF 3] by blast
  then show ?thesis
    using False recvHello_result [OF 1] verifyPeerIdentity_result [OF 2] by auto
qed

text \<open>
  What reaches the manager. A peer exchange is handed over only if it is signed under the
  connected peer's own key, names the peer as its sender and was not handed in before; everything
  of another type except keepalives and hellos goes to the gossip engine, attributed to this peer.
\<close>

theorem dispatch_checks:
  assumes "env_Unmarshal cd data = Some env"
  shows "(\<forall>n infos. fst (dispatch cr cd now data p) = CallPeerExchange n infos \<longrightarrow>
      MsgType env = MsgTypePeerExchange \<and> n = p_NodeID p \<and> SenderId env = p_NodeID p \<and>
      VerifyEnvelope cr env (edPubKey p) \<and> px_Unmarshal cd (Payload env) = Some infos \<and>
      fmlookup (p_seen p) (MessageId env) = None \<and>
      fst (dispatch cr cd now' data (snd (dispatch cr cd now data p))) = NoAction) \<and>
    (fst (dispatch cr cd now data p) = CallGossip (p_NodeID p) env \<longleftrightarrow>
      has_onGossipMessage p \<and> MsgType env \<notin> {MsgTypePeerHello, MsgTypePeerHelloAck,
        MsgTypePeerExchange, MsgTypeKeepalive})"
  using assms
  by (auto simp: dispatch_def isDuplicate_def handlePeerExchange_def split: option.splits if_splits)

text \<open>
  C19. Ordered, complete delivery between two peers: what is queued on one side, written by its
  send loop and read by the other side's receive loop reaches the other side's dispatcher exactly
  once, in order and unchanged, and the receive loop ends.
\<close>

theorem queued_messages_dispatched:
  assumes "paired_states nl R" and "R (nc_send (p_conn a)) (nc_recv (p_conn b))"
    and "nc_open (p_conn a)" and "nc_out (p_conn a) = []" and "nc_readBuf (p_conn b) = []"
    and "list_all (\<lambda>x. length x \<le> MaxPayload) (sendCh a)" and "\<not> p_done b"
  shows "\<exists>a' e b'. send_queued cd nl (length (sendCh a)) a = Inr a' \<and> sendCh a' = [] \<and>
    recvLoop cr cd nl clk (b\<lparr>p_conn := (p_conn b)\<lparr>nc_in := nc_out (p_conn a')\<rparr>\<rparr>) =
      (LoopFails e, fst (dispatch_all cr cd (sendCh a) clk
         (b\<lparr>p_conn := (p_conn b)\<lparr>nc_in := nc_out (p_conn a')\<rparr>\<rparr>)), b')"
proof -
  obtain a' where a': "send_queued cd nl (length (sendCh a)) a = Inr a'" "sendCh a' = []"
    "plain_contents nl (nc_recv (p_conn b)) (nc_out (p_conn a')) = concat (map frame_buf (sendCh a))"
    using send_queued_contents [OF assms(1,2,3) refl assms(6)] assms(4) by auto
  let ?b = "b\<lparr>p_conn := (p_conn b)\<lparr>nc_in := nc_out (p_conn a')\<rparr>\<rparr>"
  have "noise_pending nl (p_conn ?b) = concat (map frame_buf (sendCh a))"
    using a'(3) assms(5) by (simp add: noise_pending_def)
  from recvLoop_frames [OF this assms(6)] assms(7) a'(1,2) show ?thesis by auto
qed

section \<open>Witnesses\<close>

definition demo_id :: "byte \<Rightarrow> Identity" where
  "demo_id x = fromKeyPair demo_crypto (replicate 64 x) (replicate 32 x)"

definition demo_cfg :: HelloConfig where
  "demo_cfg = \<lparr>hc_Tags = [''t''], hc_Reachable = True, hc_ListenAddr = ''a:1''\<rparr>"

definition demo_a :: "nat Peer" where
  "demo_a = newPeer (new_noiseConn 10 20 [] [] (replicate 32 2)) (replicate 32 2) (demo_id 1) True"

definition demo_b :: "nat Peer" where
  "demo_b = newPeer (new_noiseConn 20 10 [] [] (replicate 32 1)) (replicate 32 1) (demo_id 2) False"

definition demo_hello_a :: Envelope where
  "demo_hello_a = hello_env demo_crypto ''u1'' (demo_id 1) MsgTypePeerHello [1]"

definition demo_hello_b :: Envelope where
  "demo_hello_b = hello_env demo_crypto ''u2'' (demo_id 2) MsgTypePeerHelloAck [2]"

definition demo_px :: Envelope where
  "demo_px = hello_env demo_crypto ''u3'' (demo_id 2) MsgTypePeerExchange [9]"

definition demo_wire :: "unit codec" where
  "demo_wire = \<lparr>env_Marshal = (\<lambda>e. if e = demo_hello_a then Some [3]
       else if e = demo_hello_b then Some [4] else if e = demo_px then Some [5] else None),
     env_Unmarshal = (\<lambda>b. if b = [3] then Some demo_hello_a
       else if b = [4] then Some demo_hello_b else if b = [5] then Some demo_px else None),
     hello_Marshal = (\<lambda>h. if h = local_hello demo_cfg demo_a then Some [1]
       else if h = local_hello demo_cfg demo_b then Some [2] else None),
     hello_Unmarshal = (\<lambda>b. if b = [1] then Some (local_hello demo_cfg demo_a)
       else if b = [2] then Some (local_hello demo_cfg demo_b) else None),
     chat_Marshal = (\<lambda>_. None), chat_Unmarshal = (\<lambda>_. None),
     px_Marshal = (\<lambda>_. None), px_Unmarshal = (\<lambda>b. if b = [9] then Some [] else None),
     json_Marshal = (\<lambda>_. None), json_Unmarshal = (\<lambda>_. None)\<rparr>"

lemma demo_wire_ok: "codec_ok demo_wire"
  by (simp add: codec_ok_def demo_wire_def)

lemma demo_id_ok: "identity_ok demo_crypto (demo_id x)"
  by (simp add: identity_ok_def demo_id_def fromKeyPair_def keypair_ok_def demo_crypto_def key_size_defs)

lemma demo_paired: "paired_states demo_noise (=)"
  by (simp add: paired_states_def demo_noise_def)

lemma demo_hellos_differ: "local_hello demo_cfg demo_a \<noteq> local_hello demo_cfg demo_b" "demo_hello_b \<noteq> demo_hello_a"
proof -
  have "hello_Ed25519Pubkey (local_hello demo_cfg demo_a) \<noteq> hello_Ed25519Pubkey (local_hello demo_cfg demo_b)"
    by (simp add: local_hello_def demo_a_def demo_b_def newPeer_def demo_id_def fromKeyPair_def)
  then show "local_hello demo_cfg demo_a \<noteq> local_hello demo_cfg demo_b" by metis
  have "MsgType demo_hello_b \<noteq> MsgType demo_hello_a"
    by (simp add: demo_hello_a_def demo_hello_b_def hello_env_def frame_simps msg_type_defs)
  then show "demo_hello_b \<noteq> demo_hello_a" by metis
qed

lemma demo_hello_bytes:
  "hello_bytes demo_crypto demo_wire ''u1'' (p_localID demo_a) MsgTypePeerHello (local_hello demo_cfg demo_a) = Some [3]"
  "hello_bytes demo_crypto demo_wire ''u2'' (p_localID demo_b) MsgTypePeerHelloAck (local_hello demo_cfg demo_b) = Some [4]"
  using demo_hellos_differ
  by (simp_all add: hello_bytes_def demo_wire_def demo_a_def demo_b_def newPeer_def
      flip: demo_hello_a_def demo_hello_b_def)

lemma demo_peers:
  "p_localID demo_a = demo_id 1" "p_localID demo_b = demo_id 2" "p_initiator demo_a" "\<not> p_initiator demo_b"
  "EdPublicToX25519 demo_crypto (PublicKey (demo_id 2)) = Some (peerX25519 demo_a)"
  "EdPublicToX25519 demo_crypto (PublicKey (demo_id 1)) = Some (peerX25519 demo_b)"
  "p_conn demo_a = new_noiseConn 10 20 [] [] (replicate 32 2)"
  "p_conn demo_b = new_noiseConn 20 10 [] [] (replicate 32 1)"
  by (simp_all add: demo_a_def demo_b_def newPeer_def demo_id_def fromKeyPair_def EdPublicToX25519_def
      demo_crypto_def)

theorem hello_authenticates_peer_witness:
  "\<exists>wa b'. ExchangeHello demo_crypto demo_wire demo_noise ''u2'' demo_cfg
      (demo_b\<lparr>p_conn := (p_conn demo_b)\<lparr>nc_in := wa\<rparr>\<rparr>) = Inr b' \<and>
    p_NodeID b' = node_id_of demo_crypto (edPubKey b')"
proof -
  have "\<exists>wa wb a' b'.
    ExchangeHello demo_crypto demo_wire demo_noise ''u1'' demo_cfg
      (demo_a\<lparr>p_conn := (p_conn demo_a)\<lparr>nc_in := wb\<rparr>\<rparr>) = Inr a' \<and>
    ExchangeHello demo_crypto demo_wire demo_noise ''u2'' demo_cfg
      (demo_b\<lparr>p_conn := (p_conn demo_b)\<lparr>nc_in := wa\<rparr>\<rparr>) = Inr b' \<and>
    nc_out (p_conn a') = nc_out (p_conn demo_a) @ wa \<and> nc_out (p_conn b') = nc_out (p_conn demo_b) @ wb \<and>
    p_NodeID a' = NodeID (p_localID demo_b) \<and> edPubKey a' = PublicKey (p_localID demo_b) \<and>
    remoteReachable a' = hc_Reachable demo_cfg \<and> remoteListenAddr a' = hc_ListenAddr demo_cfg \<and>
    p_NodeID b' = NodeID (p_localID demo_a) \<and> edPubKey b' = PublicKey (p_localID demo_a) \<and>
    remoteReachable b' = hc_Reachable demo_cfg \<and> remoteListenAddr b' = hc_ListenAddr demo_cfg"
    by (rule hello_exchange_run [OF demo_paired demo_wire_ok _ _ _ _ _ _ _ _ _ _ _ _ demo_hello_bytes])
      (simp_all add: demo_peers demo_id_ok new_noiseConn_def MaxPayload_def)
  then obtain wa b' where b': "ExchangeHello demo_crypto demo_wire demo_noise ''u2'' demo_cfg
      (demo_b\<lparr>p_conn := (p_conn demo_b)\<lparr>nc_in := wa\<rparr>\<rparr>) = Inr b'" by blast
  from hello_authenticates_peer [OF b'] b' show ?thesis by blast
qed

text \<open>The connection to node 2 after the hello exchange, with the manager's callbacks set.\<close>

definition demo_ready :: "nat Peer" where
  "demo_ready = demo_a\<lparr>p_NodeID := NodeID (demo_id 2), edPubKey := PublicKey (demo_id 2),
     has_onPeerExchange := True, has_onGossipMessage := True\<rparr>"

theorem dispatch_checks_witness:
  "fst (dispatch demo_crypto demo_wire 7 [5] demo_ready) = CallPeerExchange (NodeID (demo_id 2)) [] \<and>
   fst (dispatch demo_crypto demo_wire 8 [5] (snd (dispatch demo_crypto demo_wire 7 [5] demo_ready))) = NoAction"
proof -
  have u: "env_Unmarshal demo_wire [5] = Some demo_px" by (simp add: demo_wire_def)
  have v: "VerifyEnvelope demo_crypto demo_px (PublicKey (demo_id 2))"
    unfolding demo_px_def hello_env_def by (rule verify_signed [OF identity_okD(1) [OF demo_id_ok]])
  have "fst (dispatch demo_crypto demo_wire 7 [5] demo_ready) = CallPeerExchange (NodeID (demo_id 2)) []"
    using v
    by (simp add: dispatch_def u isDuplicate_def handlePeerExchange_def demo_ready_def demo_a_def newPeer_def
        demo_wire_def, simp add: demo_px_def hello_env_def frame_simps msg_type_defs)
  then show ?thesis using dispatch_checks [OF u, of demo_crypto 7 demo_ready 8] by blast
qed

theorem queued_messages_dispatched_witness:
  "\<exists>a' e b'. send_queued demo_wire demo_noise (length [[5], [6] :: bytes]) (demo_a\<lparr>sendCh := [[5], [6]]\<rparr>) = Inr a' \<and>
    recvLoop demo_crypto demo_wire demo_noise (\<lambda>i. int i)
      (demo_b\<lparr>p_conn := (p_conn demo_b)\<lparr>nc_in := nc_out (p_conn a')\<rparr>\<rparr>) =
    (LoopFails e, fst (dispatch_all demo_crypto demo_wire [[5], [6]] (\<lambda>i. int i)
         (demo_b\<lparr>p_conn := (p_conn demo_b)\<lparr>nc_in := nc_out (p_conn a')\<rparr>\<rparr>)), b')"
proof -
  let ?a = "demo_a\<lparr>sendCh := [[5], [6]]\<rparr>"
  have q: "sendCh ?a = [[5], [6]]" by simp
  have "(nc_send (p_conn ?a)) = (nc_recv (p_conn demo_b))" "nc_open (p_conn ?a)" "nc_out (p_conn ?a) = []"
    "nc_readBuf (p_conn demo_b) = []" "list_all (\<lambda>x. length x \<le> MaxPayload) (sendCh ?a)" "\<not> p_done demo_b"
    by (simp_all add: demo_peers new_noiseConn_def MaxPayload_def, simp add: demo_b_def newPeer_def)
  from queued_messages_dispatched [OF demo_paired this, of demo_wire demo_crypto "\<lambda>i. int i"]
  show ?thesis unfolding q by blast
qed

end
