(* ===== verification/PartyLine.thy ===== *)
theory PartyLine
  imports Prelude "HOL-Library.Sublist"
begin

text \<open>
  The chat hub (\<^verbatim>\<open>internal/partyline/partyline.go\<close>).

  Sessions are shared by pointer between the hub and its users, so they live in a store
  (\<open>hub_heap\<close>) under an address, and the session map goes from identifiers to addresses.
  A bounded channel that is written with \<^verbatim>\<open>select ... default\<close> drops what does not fit: \<^verbatim>\<open>Session.Send\<close>
  and \<^verbatim>\<open>remoteSend\<close> are lists of at most 64 elements. The channel \<^verbatim>\<open>broadcast\<close> is written with a plain
  send, which waits instead of dropping: the list \<open>hub_broadcast\<close> holds the buffered messages and
  behind them those of the waiting senders. \<open>hub_case\<close> is the case the \<^verbatim>\<open>select\<close> of \<^verbatim>\<open>Run\<close> picks, with
  the order in which a \<^verbatim>\<open>range\<close> over the sessions visits them. A run-time panic is an error value.
\<close>

section \<open>Data\<close>

record Session =
  ses_ID :: u64
  ses_Nick :: string
  ses_Send :: "string list"
  ses_closed :: bool

record RemoteMsg =
  rm_Nick :: string
  rm_Text :: string

record bcastMsg =
  bm_from :: "nat option"
  bm_text :: string
  bm_system :: bool

record Hub =
  nodeName :: string
  hub_sessions :: "(u64, nat) fmap"
  hub_heap :: "(nat, Session) fmap"
  hub_next :: nat
  sessionCounter :: u64
  hub_broadcast :: "bcastMsg list"
  remoteSend :: "RemoteMsg list option"
  stop_closed :: bool
  hub_running :: bool

datatype hub_panic = NilDereference | SendOnClosed | CloseOfClosed

definition ChanCap :: nat where "ChanCap = 64"

section \<open>Operations\<close>

definition NewHub :: "string \<Rightarrow> Hub" where
  "NewHub name = \<lparr>nodeName = name, hub_sessions = fmempty, hub_heap = fmempty, hub_next = 0,
     sessionCounter = 0, hub_broadcast = [], remoteSend = None, stop_closed = False, hub_running = True\<rparr>"

definition NodeName :: "Hub \<Rightarrow> string" where
  "NodeName h = nodeName h"

definition SetRemoteSend :: "Hub \<Rightarrow> Hub" where
  "SetRemoteSend h = h\<lparr>remoteSend := Some []\<rparr>"

definition hub_Stop :: "Hub \<Rightarrow> hub_panic + Hub" where
  "hub_Stop h = (if stop_closed h then Inl CloseOfClosed else Inr (h\<lparr>stop_closed := True\<rparr>))"

definition hub_Broadcast :: "nat \<Rightarrow> string \<Rightarrow> Hub \<Rightarrow> Hub" where
  "hub_Broadcast from text h =
     h\<lparr>hub_broadcast := hub_broadcast h @ [\<lparr>bm_from = Some from, bm_text = text, bm_system = False\<rparr>]\<rparr>"

definition SystemMessage :: "string \<Rightarrow> Hub \<Rightarrow> Hub" where
  "SystemMessage text h =
     h\<lparr>hub_broadcast := hub_broadcast h @ [\<lparr>bm_from = None, bm_text = text, bm_system = True\<rparr>]\<rparr>"

definition chat_line :: "string \<Rightarrow> string \<Rightarrow> string" where
  "chat_line nick text = ''['' @ nick @ ''] '' @ text"

definition DeliverRemote :: "string \<Rightarrow> string \<Rightarrow> Hub \<Rightarrow> Hub" where
  "DeliverRemote nick text h =
     h\<lparr>hub_broadcast := hub_broadcast h @
        [\<lparr>bm_from = None, bm_text = chat_line nick text, bm_system = True\<rparr>]\<rparr>"

text \<open>A user takes a line from its session, or the transport a message from \<^verbatim>\<open>remoteSend\<close>.\<close>

definition session_recv :: "nat \<Rightarrow> Hub \<Rightarrow> Hub" where
  "session_recv a h = (case fmlookup (hub_heap h) a of None \<Rightarrow> h
     | Some s \<Rightarrow> h\<lparr>hub_heap := fmupd a (s\<lparr>ses_Send := tl (ses_Send s)\<rparr>) (hub_heap h)\<rparr>)"

definition remote_recv :: "Hub \<Rightarrow> (RemoteMsg \<times> Hub) option" where
  "remote_recv h = (case remoteSend h of Some (m # ms) \<Rightarrow> Some (m, h\<lparr>remoteSend := Some ms\<rparr>) | _ \<Rightarrow> None)"

text \<open>\<^verbatim>\<open>sendAll\<close>: the sessions in the order of the map iteration, skipping the excluded identifier.\<close>

fun sendAll ::
  "u64 list \<Rightarrow> (u64, nat) fmap \<Rightarrow> u64 option \<Rightarrow> string \<Rightarrow> (nat, Session) fmap \<Rightarrow>
     hub_panic + (nat, Session) fmap" where
  "sendAll [] sessions exclude line heap = Inr heap"
| "sendAll (k # ks) sessions exclude line heap =
     (case fmlookup sessions k of
        None \<Rightarrow> sendAll ks sessions exclude line heap
      | Some a \<Rightarrow>
          (case fmlookup heap a of
             None \<Rightarrow> Inl NilDereference
           | Some s \<Rightarrow>
               if exclude = Some (ses_ID s) then sendAll ks sessions exclude line heap
               else if ses_closed s then Inl SendOnClosed
               else if length (ses_Send s) < ChanCap then
                 sendAll ks sessions exclude line
                   (fmupd a (s\<lparr>ses_Send := ses_Send s @ [line]\<rparr>) heap)
               else sendAll ks sessions exclude line heap))"

text \<open>Closing the channels of all sessions at the end of \<^verbatim>\<open>Run\<close>.\<close>

fun closeAll :: "u64 list \<Rightarrow> (u64, nat) fmap \<Rightarrow> (nat, Session) fmap \<Rightarrow> hub_panic + (nat, Session) fmap" where
  "closeAll [] sessions heap = Inr heap"
| "closeAll (k # ks) sessions heap =
     (case fmlookup sessions k of
        None \<Rightarrow> closeAll ks sessions heap
      | Some a \<Rightarrow>
          (case fmlookup heap a of
             None \<Rightarrow> Inl NilDereference
           | Some s \<Rightarrow>
               if ses_closed s then Inl CloseOfClosed
               else closeAll ks sessions (fmupd a (s\<lparr>ses_closed := True\<rparr>) heap)))"

datatype hub_case =
    CJoin string
  | CLeave nat
  | CBroadcast
  | CWho
  | CSetNick nat string
  | CStop

definition with_heap :: "Hub \<Rightarrow> hub_panic + (nat, Session) fmap \<Rightarrow> hub_panic + Hub" where
  "with_heap h r = (case r of Inl p \<Rightarrow> Inl p | Inr heap \<Rightarrow> Inr (h\<lparr>hub_heap := heap\<rparr>))"

definition join_line :: "string \<Rightarrow> string" where
  "join_line nick = ''* '' @ nick @ '' joined the partyline''"

definition leave_line :: "string \<Rightarrow> string" where
  "leave_line nick = ''* '' @ nick @ '' left the partyline''"

definition nick_line :: "string \<Rightarrow> string \<Rightarrow> string" where
  "nick_line old nick = ''* '' @ old @ '' is now known as '' @ nick"

text \<open>The bounded, non-blocking send to the transport.\<close>

definition push_remote :: "RemoteMsg \<Rightarrow> Hub \<Rightarrow> Hub" where
  "push_remote m h =
     (case remoteSend h of
        None \<Rightarrow> h
      | Some q \<Rightarrow> if length q < ChanCap then h\<lparr>remoteSend := Some (q @ [m])\<rparr> else h)"

definition hub_join :: "u64 list \<Rightarrow> string \<Rightarrow> Hub \<Rightarrow> hub_panic + Hub" where
  "hub_join ks nick h =
     (let i = sessionCounter h + 1; a = hub_next h;
          s = \<lparr>ses_ID = i, ses_Nick = nick, ses_Send = [], ses_closed = False\<rparr>;
          h1 = h\<lparr>sessionCounter := i, hub_next := Suc a, hub_sessions := fmupd i a (hub_sessions h),
                 hub_heap := fmupd a s (hub_heap h)\<rparr>
      in with_heap h1 (sendAll ks (hub_sessions h1) None (join_line nick) (hub_heap h1)))"

definition hub_leave :: "u64 list \<Rightarrow> nat \<Rightarrow> Hub \<Rightarrow> hub_panic + Hub" where
  "hub_leave ks a h =
     (case fmlookup (hub_heap h) a of
        None \<Rightarrow> Inl NilDereference
      | Some s \<Rightarrow>
          (case fmlookup (hub_sessions h) (ses_ID s) of
             None \<Rightarrow> Inr h
           | Some _ \<Rightarrow>
               if ses_closed s then Inl CloseOfClosed
               else
                 (let h1 = h\<lparr>hub_sessions := fmdrop (ses_ID s) (hub_sessions h),
                             hub_heap := fmupd a (s\<lparr>ses_closed := True\<rparr>) (hub_heap h)\<rparr>
                  in with_heap h1
                       (sendAll ks (hub_sessions h1) None (leave_line (ses_Nick s)) (hub_heap h1)))))"

definition hub_handle_broadcast :: "u64 list \<Rightarrow> bcastMsg \<Rightarrow> Hub \<Rightarrow> hub_panic + Hub" where
  "hub_handle_broadcast ks msg h =
     (case bm_from msg of
        None \<Rightarrow>
          (if bm_system msg
           then with_heap h (sendAll ks (hub_sessions h) None (bm_text msg) (hub_heap h))
           else Inl NilDereference)
      | Some a \<Rightarrow>
          (case fmlookup (hub_heap h) a of
             None \<Rightarrow> Inl NilDereference
           | Some s \<Rightarrow>
               (let line = (if bm_system msg then bm_text msg else chat_line (ses_Nick s) (bm_text msg)) in
                case with_heap h (sendAll ks (hub_sessions h) (Some (ses_ID s)) line (hub_heap h)) of
                  Inl p \<Rightarrow> Inl p
                | Inr h1 \<Rightarrow>
                    Inr (if bm_system msg then h1
                         else push_remote \<lparr>rm_Nick = ses_Nick s, rm_Text = bm_text msg\<rparr> h1))))"

definition hub_setNick :: "u64 list \<Rightarrow> nat \<Rightarrow> string \<Rightarrow> Hub \<Rightarrow> hub_panic + Hub" where
  "hub_setNick ks a nick h =
     (case fmlookup (hub_heap h) a of
        None \<Rightarrow> Inl NilDereference
      | Some s \<Rightarrow>
          (let h1 = h\<lparr>hub_heap := fmupd a (s\<lparr>ses_Nick := nick\<rparr>) (hub_heap h)\<rparr>
           in with_heap h1 (sendAll ks (hub_sessions h1) None (nick_line (ses_Nick s) nick) (hub_heap h1))))"

definition who_nicks :: "u64 list \<Rightarrow> Hub \<Rightarrow> string list" where
  "who_nicks ks h = map ses_Nick (List.map_filter (fmlookup (hub_heap h)) (map_range ks (hub_sessions h)))"

text \<open>One iteration of the loop of \<^verbatim>\<open>Run\<close>; a case whose channel is not ready is not picked.\<close>

fun hub_Run :: "u64 list \<Rightarrow> hub_case \<Rightarrow> Hub \<Rightarrow> hub_panic + Hub" where
  "hub_Run ks c h =
     (if \<not> hub_running h then Inr h
      else
        (case c of
           CJoin nick \<Rightarrow> hub_join ks nick h
         | CLeave a \<Rightarrow> hub_leave ks a h
         | CBroadcast \<Rightarrow>
             (case hub_broadcast h of
                [] \<Rightarrow> Inr h
              | msg # rest \<Rightarrow> hub_handle_broadcast ks msg (h\<lparr>hub_broadcast := rest\<rparr>))
         | CWho \<Rightarrow> Inr h
         | CSetNick a nick \<Rightarrow> hub_setNick ks a nick h
         | CStop \<Rightarrow>
             (if stop_closed h then
                (case closeAll ks (hub_sessions h) (hub_heap h) of
                   Inl p \<Rightarrow> Inl p
                 | Inr heap \<Rightarrow> Inr (h\<lparr>hub_heap := heap, hub_running := False\<rparr>))
              else Inr h)))"

section \<open>Runs\<close>

text \<open>
  Everything that acts on the hub: an iteration of its loop, the calls of the users and of the
  transport, and the receiving ends of its channels.
\<close>

datatype hub_op =
    OpCase "u64 list" hub_case
  | OpBroadcast nat string
  | OpSystem string
  | OpRemote string string
  | OpRecv nat
  | OpTake
  | OpStop

fun hub_apply :: "hub_op \<Rightarrow> Hub \<Rightarrow> hub_panic + Hub" where
  "hub_apply (OpCase ks c) h = hub_Run ks c h"
| "hub_apply (OpBroadcast a text) h = Inr (hub_Broadcast a text h)"
| "hub_apply (OpSystem text) h = Inr (SystemMessage text h)"
| "hub_apply (OpRemote nick text) h = Inr (DeliverRemote nick text h)"
| "hub_apply (OpRecv a) h = Inr (session_recv a h)"
| "hub_apply OpTake h = Inr (case remote_recv h of None \<Rightarrow> h | Some (m, h') \<Rightarrow> h')"
| "hub_apply OpStop h = hub_Stop h"

text \<open>
  What callers keep to: sessions come from \<^verbatim>\<open>Join\<close>, \<^verbatim>\<open>Stop\<close> is called once, and fewer than \<open>2^64\<close>
  sessions are ever made.
\<close>

fun op_ok :: "hub_op \<Rightarrow> Hub \<Rightarrow> bool" where
  "op_ok (OpCase ks c) h \<longleftrightarrow> distinct ks \<and>
     (case c of CJoin nick \<Rightarrow> Suc (hub_next h) < 2 ^ 64 | CLeave a \<Rightarrow> a < hub_next h
        | CSetNick a nick \<Rightarrow> a < hub_next h | _ \<Rightarrow> True)"
| "op_ok (OpBroadcast a text) h \<longleftrightarrow> a < hub_next h"
| "op_ok OpStop h \<longleftrightarrow> \<not> stop_closed h"
| "op_ok _ h \<longleftrightarrow> True"

fun hub_exec :: "hub_op list \<Rightarrow> Hub \<Rightarrow> hub_panic + Hub" where
  "hub_exec [] h = Inr h"
| "hub_exec (op # ops) h = (case hub_apply op h of Inl p \<Rightarrow> Inl p | Inr h' \<Rightarrow> hub_exec ops h')"

fun ops_ok :: "hub_op list \<Rightarrow> Hub \<Rightarrow> bool" where
  "ops_ok [] h \<longleftrightarrow> True"
| "ops_ok (op # ops) h \<longleftrightarrow> op_ok op h \<and> (case hub_apply op h of Inl p \<Rightarrow> True | Inr h' \<Rightarrow> ops_ok ops h')"

section \<open>Sending to the sessions\<close>

text \<open>The session map leads to open sessions with the right identifier.\<close>

definition good_map :: "(u64, nat) fmap \<Rightarrow> (nat, Session) fmap \<Rightarrow> bool" where
  "good_map sessions heap \<longleftrightarrow>
     (\<forall>k a. fmlookup sessions k = Some a \<longrightarrow>
        (\<exists>s. fmlookup heap a = Some s \<and> ses_ID s = k \<and> \<not> ses_closed s))"

definition accept_line :: "string \<Rightarrow> Session \<Rightarrow> Session" where
  "accept_line line s = (if length (ses_Send s) < ChanCap then s\<lparr>ses_Send := ses_Send s @ [line]\<rparr> else s)"

definition listening :: "u64 list \<Rightarrow> (u64, nat) fmap \<Rightarrow> u64 option \<Rightarrow> nat \<Rightarrow> Session \<Rightarrow> bool" where
  "listening ks sessions exclude a s \<longleftrightarrow>
     ses_ID s \<in> set ks \<and> fmlookup sessions (ses_ID s) = Some a \<and> exclude \<noteq> Some (ses_ID s)"

lemma accept_line_frame [simp]:
  "ses_ID (accept_line line s) = ses_ID s" "ses_closed (accept_line line s) = ses_closed s"
  "ses_Nick (accept_line line s) = ses_Nick s"
  by (simp_all add: accept_line_def)

lemma good_mapD:
  assumes "good_map sessions heap" and "fmlookup sessions k = Some a"
  shows "\<exists>s. fmlookup heap a = Some s \<and> ses_ID s = k \<and> \<not> ses_closed s"
  using assms by (simp add: good_map_def)

lemma sendAll_Cons:
  assumes "good_map sessions heap" and "fmlookup sessions k = Some a" and "fmlookup heap a = Some s"
  shows "sendAll (k # ks) sessions exclude line heap =
    sendAll ks sessions exclude line
      (if exclude = Some k then heap else fmupd a (accept_line line s) heap)"
proof -
  have "ses_ID s = k" "\<not> ses_closed s" using good_mapD [OF assms(1,2)] assms(3) by auto
  moreover have "fmupd a s heap = heap" using assms(3) by (intro fmap_ext) auto
  ultimately show ?thesis using assms(2,3) by (simp add: accept_line_def)
qed

lemma good_map_upd:
  assumes "good_map sessions heap" and "fmlookup heap a = Some s"
    and "ses_ID s' = ses_ID s" and "ses_closed s' = ses_closed s"
  shows "good_map sessions (fmupd a s' heap)"
  using assms by (fastforce simp: good_map_def)

lemma sendAll_spec:
  assumes "good_map sessions heap" and "distinct ks"
  shows "\<exists>heap'. sendAll ks sessions exclude line heap = Inr heap' \<and>
    (\<forall>a. fmlookup heap' a = map_option
       (\<lambda>s. if listening ks sessions exclude a s then accept_line line s else s) (fmlookup heap a))"
  using assms
proof (induction ks arbitrary: heap)
  case Nil
  then show ?case by (simp add: listening_def option.map_ident)
next
  case (Cons k ks)
  show ?case
  proof (cases "fmlookup sessions k")
    case None
    then have "listening (k # ks) sessions exclude a s = listening ks sessions exclude a s" for a s
      by (auto simp: listening_def)
    then show ?thesis using Cons None by simp
  next
    case (Some b)
    then obtain t where t: "fmlookup heap b = Some t" "ses_ID t = k"
      using Cons.prems(1) by (auto simp: good_map_def)
    let ?heap = "if exclude = Some k then heap else fmupd b (accept_line line t) heap"
    have "good_map sessions ?heap" using good_map_upd [OF Cons.prems(1) t(1)] Cons.prems(1) by simp
    from Cons.IH [OF this] Cons.prems(2) obtain heap' where heap':
      "sendAll ks sessions exclude line ?heap = Inr heap'"
      "\<And>a. fmlookup heap' a = map_option
         (\<lambda>s. if listening ks sessions exclude a s then accept_line line s else s) (fmlookup ?heap a)"
      by auto
    have "fmlookup heap' a = map_option
        (\<lambda>s. if listening (k # ks) sessions exclude a s then accept_line line s else s) (fmlookup heap a)" for a
    proof (cases "a = b")
      case True
      then show ?thesis using heap'(2) [of b] t Some Cons.prems(2) by (simp add: listening_def)
    next
      case False
      then have "listening (k # ks) sessions exclude a s = listening ks sessions exclude a s" for s
        using Some by (auto simp: listening_def)
      then show ?thesis using heap'(2) [of a] False by simp
    qed
    then show ?thesis using heap'(1) sendAll_Cons [OF Cons.prems(1) Some t(1)] by simp
  qed
qed

text \<open>Removing a visited session from the map turns the closing loop into a recursion on good maps.\<close>

lemma closeAll_skip:
  "k \<notin> set ks \<Longrightarrow> closeAll ks (fmdrop k sessions) heap = closeAll ks sessions heap"
  by (induction ks arbitrary: heap) (auto split: option.splits)

lemma closeAll_spec:
  assumes "good_map sessions heap" and "distinct ks"
  shows "\<exists>heap'. closeAll ks sessions heap = Inr heap' \<and>
    (\<forall>a. fmlookup heap' a = map_option
       (\<lambda>s. if listening ks sessions None a s then s\<lparr>ses_closed := True\<rparr> else s) (fmlookup heap a))"
  using assms
proof (induction ks arbitrary: heap sessions)
  case Nil
  then show ?case by (simp add: listening_def option.map_ident)
next
  case (Cons k ks)
  show ?case
  proof (cases "fmlookup sessions k")
    case None
    then have "listening (k # ks) sessions None a s = listening ks sessions None a s" for a s
      by (auto simp: listening_def)
    then show ?thesis using Cons None by simp
  next
    case (Some b)
    then obtain t where t: "fmlookup heap b = Some t" "ses_ID t = k" "\<not> ses_closed t"
      using good_mapD [OF Cons.prems(1)] by blast
    let ?heap = "fmupd b (t\<lparr>ses_closed := True\<rparr>) heap" and ?rest = "fmdrop k sessions"
    have "good_map ?rest ?heap"
      using Cons.prems(1) t(1,2) unfolding good_map_def by (fastforce split: if_splits)
    from Cons.IH [OF this] Cons.prems(2) obtain heap' where heap':
      "closeAll ks ?rest ?heap = Inr heap'"
      "\<And>a. fmlookup heap' a = map_option
         (\<lambda>s. if listening ks ?rest None a s then s\<lparr>ses_closed := True\<rparr> else s) (fmlookup ?heap a)"
      by auto
    have "fmlookup heap' a = map_option
        (\<lambda>s. if listening (k # ks) sessions None a s then s\<lparr>ses_closed := True\<rparr> else s) (fmlookup heap a)" for a
    proof (cases "a = b")
      case True
      then show ?thesis using heap'(2) [of b] t Some Cons.prems(2) by (simp add: listening_def)
    next
      case False
      then have "listening (k # ks) sessions None a s = listening ks ?rest None a s" for s
        using Some Cons.prems(2) by (auto simp: listening_def)
      then show ?thesis using heap'(2) [of a] False by simp
    qed
    moreover have "closeAll (k # ks) sessions heap = Inr heap'"
      using heap'(1) t Some closeAll_skip [of k ks sessions ?heap] Cons.prems(2) by simp
    ultimately show ?thesis by blast
  qed
qed

section \<open>Invariant\<close>

text \<open>
  Identifiers number the sessions in the order of their creation; while the hub runs, the open
  sessions are exactly those in the map; queued messages refer to existing sessions; no bounded
  channel exceeds its capacity.
\<close>

definition msg_ok :: "nat \<Rightarrow> bcastMsg \<Rightarrow> bool" where
  "msg_ok n m \<longleftrightarrow>
     (case bm_from m of None \<Rightarrow> bm_system m | Some a \<Rightarrow> a < n \<and> \<not> bm_system m)"

definition hub_inv :: "Hub \<Rightarrow> bool" where
  "hub_inv h \<longleftrightarrow>
     hub_next h < 2 ^ 64 \<and> sessionCounter h = of_nat (hub_next h) \<and>
     (\<forall>a. (fmlookup (hub_heap h) a \<noteq> None) = (a < hub_next h)) \<and>
     (\<forall>a s. fmlookup (hub_heap h) a = Some s \<longrightarrow>
        ses_ID s = of_nat (Suc a) \<and> length (ses_Send s) \<le> ChanCap \<and>
        (hub_running h \<longrightarrow> \<not> ses_closed s \<longrightarrow> fmlookup (hub_sessions h) (of_nat (Suc a)) = Some a)) \<and>
     (hub_running h \<longrightarrow> good_map (hub_sessions h) (hub_heap h)) \<and>
     (\<forall>m \<in> set (hub_broadcast h). msg_ok (hub_next h) m) \<and>
     (\<forall>q. remoteSend h = Some q \<longrightarrow> length q \<le> ChanCap)"

lemma msg_ok_Suc: "msg_ok n m \<Longrightarrow> msg_ok (Suc n) m"
  by (auto simp: msg_ok_def split: option.splits)

lemma hub_inv_New: "hub_inv (NewHub name)" "hub_inv (SetRemoteSend (NewHub name))"
  by (simp_all add: hub_inv_def NewHub_def SetRemoteSend_def good_map_def)

lemma accept_line_cap: "length (ses_Send s) \<le> ChanCap \<Longrightarrow> length (ses_Send (accept_line line s)) \<le> ChanCap"
  by (simp add: accept_line_def)

text \<open>Announcing a line keeps the invariant.\<close>

lemma hub_inv_sendAll:
  assumes "hub_inv h" and "hub_running h" and "distinct ks"
  shows "\<exists>heap'. sendAll ks (hub_sessions h) exclude line (hub_heap h) = Inr heap' \<and>
    hub_inv (h\<lparr>hub_heap := heap'\<rparr>)"
proof -
  have good: "good_map (hub_sessions h) (hub_heap h)" using assms(1,2) by (simp add: hub_inv_def)
  obtain heap' where heap': "sendAll ks (hub_sessions h) exclude line (hub_heap h) = Inr heap'"
    "\<And>a. fmlookup heap' a = map_option
       (\<lambda>s. if listening ks (hub_sessions h) exclude a s then accept_line line s else s)
       (fmlookup (hub_heap h) a)"
    using sendAll_spec [OF good assms(3)] by blast
  have "good_map (hub_sessions h) heap'"
    using good unfolding good_map_def by (fastforce simp: heap'(2))
  moreover have "ses_ID s = of_nat (Suc a) \<and> length (ses_Send s) \<le> ChanCap \<and>
      (\<not> ses_closed s \<longrightarrow> fmlookup (hub_sessions h) (of_nat (Suc a)) = Some a)"
    if "fmlookup heap' a = Some s" for a s
    using that assms(1,2) unfolding heap'(2) hub_inv_def
    by (auto simp: accept_line_cap split: if_splits)
  moreover have "(fmlookup heap' a \<noteq> None) = (fmlookup (hub_heap h) a \<noteq> None)" for a
    by (simp add: heap'(2))
  ultimately show ?thesis
    using assms(1,2) heap'(1) by (simp add: hub_inv_def)
qed

lemma session_id_inj:
  assumes "Suc a < 2 ^ 64" and "Suc b < 2 ^ 64"
  shows "(of_nat (Suc a) :: u64) = of_nat (Suc b) \<longleftrightarrow> a = b"
proof
  assume "(of_nat (Suc a) :: u64) = of_nat (Suc b)"
  then have "unat (of_nat (Suc a) :: u64) = unat (of_nat (Suc b) :: u64)" by simp
  then show "a = b" using assms by (simp only: unat_of_nat) simp
qed simp

lemma hub_invD:
  assumes "hub_inv h"
  shows "hub_next h < 2 ^ 64" "fmlookup (hub_heap h) a \<noteq> None \<longleftrightarrow> a < hub_next h"
    "fmlookup (hub_heap h) a = Some s \<Longrightarrow> ses_ID s = of_nat (Suc a)"
    "fmlookup (hub_heap h) a = Some s \<Longrightarrow> hub_running h \<Longrightarrow> \<not> ses_closed s \<Longrightarrow>
       fmlookup (hub_sessions h) (of_nat (Suc a)) = Some a"
    "hub_running h \<Longrightarrow> good_map (hub_sessions h) (hub_heap h)"
  using assms unfolding hub_inv_def by (simp_all del: of_nat_Suc)

lemma hub_inv_member:
  assumes "hub_inv h" and "hub_running h" and "fmlookup (hub_heap h) a = Some s"
    and "fmlookup (hub_sessions h) (ses_ID s) = Some b"
  shows "b = a \<and> \<not> ses_closed s"
proof -
  obtain t where t: "fmlookup (hub_heap h) b = Some t" "ses_ID t = ses_ID s" "\<not> ses_closed t"
    using good_mapD [OF hub_invD(5) [OF assms(1,2)] assms(4)] by blast
  have "a < hub_next h" "b < hub_next h"
    using hub_invD(2) [OF assms(1)] assms(3) t(1) by auto
  then have "b = a"
    using t(2) hub_invD(1,3) [OF assms(1)] assms(3) t(1) session_id_inj [of b a]
    by (metis less_trans_Suc not_less_eq)
  then show ?thesis using t assms(3) by simp
qed

lemma hub_inv_join:
  assumes "hub_inv h" and "hub_running h" and "distinct ks" and "Suc (hub_next h) < 2 ^ 64"
  shows "\<exists>h'. hub_join ks nick h = Inr h' \<and> hub_inv h'"
proof -
  let ?i = "sessionCounter h + 1" and ?a = "hub_next h"
  let ?s = "\<lparr>ses_ID = ?i, ses_Nick = nick, ses_Send = [], ses_closed = False\<rparr>"
  let ?h = "h\<lparr>sessionCounter := ?i, hub_next := Suc ?a, hub_sessions := fmupd ?i ?a (hub_sessions h),
              hub_heap := fmupd ?a ?s (hub_heap h)\<rparr>"
  have i: "?i = of_nat (Suc ?a)" using assms(1) by (simp add: hub_inv_def)
  have old: "of_nat (Suc b) \<noteq> ?i" "b \<noteq> ?a" if "fmlookup (hub_heap h) b = Some s" for b s
    using that hub_invD(2) [OF assms(1), of b] session_id_inj [of b ?a] assms(4) unfolding i by auto
  have "good_map (hub_sessions ?h) (hub_heap ?h)"
    unfolding good_map_def
  proof (intro allI impI)
    fix k c assume k: "fmlookup (hub_sessions ?h) k = Some c"
    show "\<exists>s. fmlookup (hub_heap ?h) c = Some s \<and> ses_ID s = k \<and> \<not> ses_closed s"
    proof (cases "k = ?i")
      case False
      then obtain s where "fmlookup (hub_heap h) c = Some s" "ses_ID s = k" "\<not> ses_closed s"
        using k good_mapD [OF hub_invD(5) [OF assms(1,2)], of k c] by auto
      then show ?thesis using old(2) [of c s] by simp
    qed (use k in simp)
  qed
  moreover have "ses_ID t = of_nat (Suc b) \<and> length (ses_Send t) \<le> ChanCap \<and>
      (\<not> ses_closed t \<longrightarrow> fmlookup (hub_sessions ?h) (of_nat (Suc b)) = Some b)"
    if t: "fmlookup (hub_heap ?h) b = Some t" for b t
  proof (cases "b = ?a")
    case True
    then have "t = ?s" using t by simp
    then show ?thesis unfolding True i by (simp del: of_nat_Suc)
  next
    case False
    then have "fmlookup (hub_heap h) b = Some t" using t by simp
    then show ?thesis
      using old(1) [of b t] assms(1,2) unfolding hub_inv_def by (simp del: of_nat_Suc)
  qed
  moreover have "(fmlookup (hub_heap ?h) b \<noteq> None) = (b < Suc ?a)" for b
    using hub_invD(2) [OF assms(1), of b] by auto
  moreover have "\<forall>m \<in> set (hub_broadcast h). msg_ok (Suc ?a) m"
    using assms(1) msg_ok_Suc by (simp add: hub_inv_def)
  ultimately have "hub_inv ?h"
    using assms(1,2,4) i unfolding hub_inv_def by (auto simp: less_Suc_eq simp del: of_nat_Suc)
  from hub_inv_sendAll [OF this, of ks None "join_line nick"] assms(2,3) show ?thesis
    by (auto simp: hub_join_def with_heap_def Let_def)
qed

lemma hub_inv_leave:
  assumes "hub_inv h" and "hub_running h" and "distinct ks" and "a < hub_next h"
  shows "\<exists>h'. hub_leave ks a h = Inr h' \<and> hub_inv h'"
proof -
  obtain s where s: "fmlookup (hub_heap h) a = Some s" using hub_invD(2) [OF assms(1), of a] assms(4) by auto
  show ?thesis
  proof (cases "fmlookup (hub_sessions h) (ses_ID s)")
    case None
    then show ?thesis using s assms(1) by (simp add: hub_leave_def)
  next
    case (Some b)
    then have b: "fmlookup (hub_sessions h) (ses_ID s) = Some a" "\<not> ses_closed s"
      using hub_inv_member [OF assms(1,2) s] by auto
    let ?h = "h\<lparr>hub_sessions := fmdrop (ses_ID s) (hub_sessions h),
                hub_heap := fmupd a (s\<lparr>ses_closed := True\<rparr>) (hub_heap h)\<rparr>"
    have "good_map (hub_sessions ?h) (hub_heap ?h)"
      using hub_invD(5) [OF assms(1,2)] s unfolding good_map_def by (fastforce split: if_splits)
    moreover have "of_nat (Suc c) \<noteq> ses_ID s" if "fmlookup (hub_heap h) c = Some t" "c \<noteq> a" for c t
      using that hub_invD(1,2) [OF assms(1)] hub_invD(3) [OF assms(1) s] session_id_inj [of c a] assms(4)
      by (metis less_trans_Suc not_less_eq option.distinct(1))
    ultimately have "hub_inv ?h"
      using assms(1,2) s hub_invD(3,4) [OF assms(1)]
      unfolding hub_inv_def by (auto simp del: of_nat_Suc)
    from hub_inv_sendAll [OF this, of ks None "leave_line (ses_Nick s)"] assms(2,3) show ?thesis
      using s b by (auto simp: hub_leave_def with_heap_def)
  qed
qed

lemma hub_inv_setNick:
  assumes "hub_inv h" and "hub_running h" and "distinct ks" and "a < hub_next h"
  shows "\<exists>h'. hub_setNick ks a nick h = Inr h' \<and> hub_inv h'"
proof -
  obtain s where s: "fmlookup (hub_heap h) a = Some s" using hub_invD(2) [OF assms(1), of a] assms(4) by auto
  let ?h = "h\<lparr>hub_heap := fmupd a (s\<lparr>ses_Nick := nick\<rparr>) (hub_heap h)\<rparr>"
  have "good_map (hub_sessions ?h) (hub_heap ?h)"
    using good_map_upd [OF hub_invD(5) [OF assms(1,2)] s, of "s\<lparr>ses_Nick := nick\<rparr>"] by simp
  then have "hub_inv ?h"
    using assms(1,2) s unfolding hub_inv_def by (auto simp del: of_nat_Suc)
  from hub_inv_sendAll [OF this, of ks None "nick_line (ses_Nick s) nick"] assms(2,3) show ?thesis
    using s by (auto simp: hub_setNick_def with_heap_def)
qed

lemma hub_inv_push: "hub_inv h \<Longrightarrow> hub_inv (push_remote m h)"
  by (auto simp: push_remote_def hub_inv_def split: option.splits)

lemma hub_inv_broadcast:
  assumes "hub_inv h" and "hub_running h" and "distinct ks" and "msg_ok (hub_next h) msg"
  shows "\<exists>h'. hub_handle_broadcast ks msg h = Inr h' \<and> hub_inv h'"
proof (cases "bm_from msg")
  case None
  then show ?thesis
    using hub_inv_sendAll [OF assms(1-3), of None "bm_text msg"] assms(4)
    by (auto simp: hub_handle_broadcast_def with_heap_def msg_ok_def)
next
  case (Some a)
  then obtain s where s: "fmlookup (hub_heap h) a = Some s"
    using hub_invD(2) [OF assms(1), of a] assms(4) by (auto simp: msg_ok_def)
  show ?thesis
    using hub_inv_sendAll [OF assms(1-3), of "Some (ses_ID s)" "chat_line (ses_Nick s) (bm_text msg)"]
      Some s assms(4)
    by (auto simp: hub_handle_broadcast_def with_heap_def msg_ok_def hub_inv_push Let_def)
qed

lemma hub_inv_stop:
  assumes "hub_inv h" and "hub_running h" and "distinct ks"
  shows "\<exists>heap. closeAll ks (hub_sessions h) (hub_heap h) = Inr heap \<and>
    hub_inv (h\<lparr>hub_heap := heap, hub_running := False\<rparr>)"
proof -
  obtain heap where heap: "closeAll ks (hub_sessions h) (hub_heap h) = Inr heap"
    "\<And>a. fmlookup heap a = map_option
       (\<lambda>s. if listening ks (hub_sessions h) None a s then s\<lparr>ses_closed := True\<rparr> else s)
       (fmlookup (hub_heap h) a)"
    using closeAll_spec [OF hub_invD(5) [OF assms(1,2)] assms(3)] by blast
  have "ses_ID s = of_nat (Suc a) \<and> length (ses_Send s) \<le> ChanCap" if "fmlookup heap a = Some s" for a s
    using that assms(1) unfolding heap(2) hub_inv_def by (auto simp del: of_nat_Suc split: if_splits)
  moreover have "(fmlookup heap a \<noteq> None) = (fmlookup (hub_heap h) a \<noteq> None)" for a
    by (simp add: heap(2))
  ultimately show ?thesis
    using assms(1) heap(1) by (simp add: hub_inv_def del: of_nat_Suc)
qed

lemma hub_inv_Run:
  assumes "hub_inv h" and "op_ok (OpCase ks c) h"
  shows "\<exists>h'. hub_Run ks c h = Inr h' \<and> hub_inv h'"
proof (cases "hub_running h")
  case True
  have d: "distinct ks" using assms(2) by simp
  show ?thesis
  proof (cases c)
    case CBroadcast
    show ?thesis
    proof (cases "hub_broadcast h")
      case (Cons msg rest)
      have "hub_inv (h\<lparr>hub_broadcast := rest\<rparr>)" "msg_ok (hub_next h) msg"
        using assms(1) Cons by (simp_all add: hub_inv_def)
      then show ?thesis
        using hub_inv_broadcast [of "h\<lparr>hub_broadcast := rest\<rparr>" ks msg] True d CBroadcast Cons by simp
    qed (use assms(1) True CBroadcast in simp)
  qed (use assms True d hub_inv_join hub_inv_leave hub_inv_setNick hub_inv_stop [OF assms(1) True d] in auto)
qed (use assms(1) in simp)

lemma hub_inv_apply:
  assumes "hub_inv h" and "op_ok op h"
  shows "\<exists>h'. hub_apply op h = Inr h' \<and> hub_inv h'"
proof (cases op)
  case (OpCase ks c)
  then show ?thesis using hub_inv_Run [OF assms(1), of ks c] assms(2) by simp
next
  case (OpRecv a)
  show ?thesis
  proof (cases "fmlookup (hub_heap h) a")
    case (Some s)
    let ?s = "s\<lparr>ses_Send := tl (ses_Send s)\<rparr>"
    have "good_map (hub_sessions h) (fmupd a ?s (hub_heap h))" if "hub_running h"
      using good_map_upd [OF hub_invD(5) [OF assms(1) that] Some, of ?s] by simp
    moreover have "length (ses_Send s) \<le> ChanCap" using assms(1) Some unfolding hub_inv_def by blast
    then have "length (ses_Send s) - Suc 0 \<le> ChanCap" by simp
    ultimately show ?thesis
      using OpRecv assms(1) Some
      by (auto simp: session_recv_def hub_inv_def simp del: of_nat_Suc)
  qed (use OpRecv assms(1) in \<open>simp add: session_recv_def\<close>)
qed (use assms in \<open>auto simp: hub_inv_def hub_Broadcast_def SystemMessage_def DeliverRemote_def hub_Stop_def
       remote_recv_def msg_ok_def simp del: of_nat_Suc split: option.splits list.splits\<close>)

lemma hub_exec_inv:
  assumes "hub_inv h" and "ops_ok ops h"
  shows "\<exists>h'. hub_exec ops h = Inr h' \<and> hub_inv h'"
  using assms
proof (induction ops arbitrary: h)
  case (Cons op ops)
  then obtain h1 where "hub_apply op h = Inr h1" "hub_inv h1"
    using hub_inv_apply [of h op] by auto
  then show ?case using Cons by simp
qed simp

section \<open>What leaves for the transport\<close>

definition outbox :: "Hub \<Rightarrow> RemoteMsg list" where
  "outbox h = (case remoteSend h of None \<Rightarrow> [] | Some q \<Rightarrow> q)"

text \<open>The messages written to \<^verbatim>\<open>remoteSend\<close> during a run.\<close>

fun exec_pushed :: "hub_op list \<Rightarrow> Hub \<Rightarrow> RemoteMsg list" where
  "exec_pushed [] h = []"
| "exec_pushed (op # ops) h =
     (case hub_apply op h of
        Inl p \<Rightarrow> []
      | Inr h' \<Rightarrow> (if op = OpTake then [] else drop (length (outbox h)) (outbox h')) @ exec_pushed ops h')"

definition local_texts :: "bcastMsg list \<Rightarrow> string list" where
  "local_texts q = map bm_text (filter (\<lambda>m. \<not> bm_system m) q)"

fun op_texts :: "hub_op list \<Rightarrow> string list" where
  "op_texts [] = []"
| "op_texts (OpBroadcast a text # ops) = text # op_texts ops"
| "op_texts (op # ops) = op_texts ops"

lemma with_heap_frame:
  assumes "with_heap h r = Inr h'"
  shows "remoteSend h' = remoteSend h \<and> hub_broadcast h' = hub_broadcast h"
  using assms by (auto simp: with_heap_def split: sum.splits)

lemma hub_Run_outbox:
  assumes "hub_Run ks c h = Inr h'"
  shows "\<exists>new rest. outbox h' = outbox h @ new \<and> local_texts (hub_broadcast h) = rest @ local_texts (hub_broadcast h') \<and>
    subseq (map rm_Text new) rest"
proof (cases "\<exists>msg rest. c = CBroadcast \<and> hub_running h \<and> hub_broadcast h = msg # rest")
  case True
  then obtain msg rest where m: "hub_broadcast h = msg # rest"
    "hub_handle_broadcast ks msg (h\<lparr>hub_broadcast := rest\<rparr>) = Inr h'" using assms by auto
  let ?h = "h\<lparr>hub_broadcast := rest\<rparr>"
  show ?thesis
  proof (cases "bm_system msg")
    case True
    then have "outbox h' = outbox h \<and> hub_broadcast h' = rest"
      using m(2)
      by (auto simp: hub_handle_broadcast_def Let_def outbox_def dest!: with_heap_frame
          split: option.splits sum.splits)
    then show ?thesis using m(1) True by (intro exI [of _ "[]"]) (simp add: local_texts_def)
  next
    case False
    then obtain h1 r nick where h1: "with_heap ?h r = Inr h1"
      "h' = push_remote \<lparr>rm_Nick = nick, rm_Text = bm_text msg\<rparr> h1"
      using m(2) by (auto simp: hub_handle_broadcast_def Let_def split: option.splits sum.splits)
    have "outbox h1 = outbox h" "hub_broadcast h1 = rest" using with_heap_frame [OF h1(1)] by (simp_all add: outbox_def)
    then show ?thesis
      using m(1) False h1(2)
      by (intro exI [of _ "drop (length (outbox h)) (outbox h')"] exI [of _ "[bm_text msg]"])
        (auto simp: push_remote_def outbox_def local_texts_def split: option.splits)
  qed
next
  case False
  have "outbox h' = outbox h \<and> hub_broadcast h' = hub_broadcast h"
    using assms False
    by (cases c) (auto simp: hub_join_def hub_leave_def hub_setNick_def Let_def outbox_def
        dest!: with_heap_frame split: if_splits option.splits sum.splits list.splits)
  then show ?thesis by (intro exI [of _ "[]"]) simp
qed

lemma outgoing_subseq:
  "subseq (map rm_Text (exec_pushed ops h)) (local_texts (hub_broadcast h) @ op_texts ops)"
proof (induction ops arbitrary: h)
  case (Cons op ops)
  show ?case
  proof (cases "hub_apply op h")
    case (Inr h')
    have "\<exists>new rest. (op \<noteq> OpTake \<longrightarrow> outbox h' = outbox h @ new) \<and> subseq (map rm_Text new) rest \<and>
        local_texts (hub_broadcast h) @ op_texts (op # ops) =
        rest @ local_texts (hub_broadcast h') @ op_texts ops \<and> (op = OpTake \<longrightarrow> new = [])"
    proof (cases op)
      case (OpCase ks c)
      then show ?thesis using hub_Run_outbox [of ks c h h'] Inr by auto
    qed (use Inr in \<open>auto simp: outbox_def local_texts_def hub_Broadcast_def SystemMessage_def
          DeliverRemote_def session_recv_def remote_recv_def hub_Stop_def
          split: option.splits list.splits if_splits intro!: exI [of _ "[]"]\<close>)
    then obtain new rest where n: "op \<noteq> OpTake \<longrightarrow> outbox h' = outbox h @ new"
      "subseq (map rm_Text new) rest" "op = OpTake \<longrightarrow> new = []"
      "local_texts (hub_broadcast h) @ op_texts (op # ops) =
        rest @ local_texts (hub_broadcast h') @ op_texts ops" by blast
    have "exec_pushed (op # ops) h = new @ exec_pushed ops h'" using Inr n(1,3) by auto
    then show ?thesis
      unfolding n(4) using list_emb_append_mono [OF n(2) Cons.IH [of h']] by simp
  qed simp
qed simp

section \<open>Properties\<close>

text \<open>
  C14. The hub never panics. In every run from a new hub in which callers use sessions they got
  from \<^verbatim>\<open>Join\<close>, call \<^verbatim>\<open>Stop\<close> once and make fewer than \<open>2^64\<close> sessions, no iteration sends on or closes
  a closed channel or dereferences nil, whatever the order of the operations; and while the hub
  runs, the open sessions are exactly the members, none holding more than 64 lines.
\<close>

theorem hub_never_panics:
  assumes "ops_ok ops (SetRemoteSend (NewHub name))"
  shows "\<exists>h. hub_exec ops (SetRemoteSend (NewHub name)) = Inr h \<and>
    (hub_running h \<longrightarrow> (\<forall>a s. fmlookup (hub_heap h) a = Some s \<longrightarrow> length (ses_Send s) \<le> ChanCap \<and>
       (\<not> ses_closed s \<longleftrightarrow> fmlookup (hub_sessions h) (ses_ID s) = Some a)))"
proof -
  from hub_exec_inv [OF hub_inv_New(2) assms] obtain h where h: "hub_exec ops (SetRemoteSend (NewHub name)) = Inr h" "hub_inv h"
    by blast
  have "length (ses_Send s) \<le> ChanCap \<and> (\<not> ses_closed s \<longleftrightarrow> fmlookup (hub_sessions h) (ses_ID s) = Some a)"
    if "hub_running h" "fmlookup (hub_heap h) a = Some s" for a s
  proof -
    have "length (ses_Send s) \<le> ChanCap" using h(2) that(2) unfolding hub_inv_def by blast
    moreover have "\<not> ses_closed s \<longleftrightarrow> fmlookup (hub_sessions h) (ses_ID s) = Some a"
      using hub_inv_member [OF h(2) that, of a] hub_invD(3,4) [OF h(2) that(2)] that(1) by auto
    ultimately show ?thesis by blast
  qed
  then show ?thesis using h(1) by auto
qed

text \<open>
  C39. Exact delivery of a chat line: when the hub takes a user's message, every other member's
  channel gets exactly the line \<open>[nick] text\<close> appended if it has room, the sender's and all
  other sessions are untouched, and the transport gets the message if its channel has room,
  whatever the order in which the hub visits the sessions.
\<close>

theorem chat_line_delivered:
  assumes "hub_inv h" and "hub_running h" and "range_order ks (hub_sessions h)"
    and "hub_broadcast h = \<lparr>bm_from = Some a, bm_text = text, bm_system = False\<rparr> # rest"
    and "fmlookup (hub_heap h) a = Some s"
  shows "\<exists>h'. hub_Run ks CBroadcast h = Inr h' \<and> hub_broadcast h' = rest \<and>
    (\<forall>b. fmlookup (hub_heap h') b = map_option
       (\<lambda>t. if b \<noteq> a \<and> fmlookup (hub_sessions h) (ses_ID t) = Some b \<and> length (ses_Send t) < ChanCap
            then t\<lparr>ses_Send := ses_Send t @ [''['' @ ses_Nick s @ ''] '' @ text]\<rparr> else t)
       (fmlookup (hub_heap h) b)) \<and>
    remoteSend h' = map_option (\<lambda>q. if length q < ChanCap
       then q @ [\<lparr>rm_Nick = ses_Nick s, rm_Text = text\<rparr>] else q) (remoteSend h)"
proof -
  let ?line = "chat_line (ses_Nick s) text"
  have d: "distinct ks" using assms(3) by (simp add: range_order_def)
  obtain heap where heap: "sendAll ks (hub_sessions h) (Some (ses_ID s)) ?line (hub_heap h) = Inr heap"
    "\<And>b. fmlookup heap b = map_option
       (\<lambda>t. if listening ks (hub_sessions h) (Some (ses_ID s)) b t then accept_line ?line t else t)
       (fmlookup (hub_heap h) b)"
    using sendAll_spec [OF hub_invD(5) [OF assms(1,2)] d] by blast
  have listen: "listening ks (hub_sessions h) (Some (ses_ID s)) b t \<longleftrightarrow>
      b \<noteq> a \<and> fmlookup (hub_sessions h) (ses_ID t) = Some b" if "fmlookup (hub_heap h) b = Some t" for b t
  proof -
    have "b = a" if "ses_ID t = ses_ID s" "fmlookup (hub_sessions h) (ses_ID t) = Some b"
      using that hub_inv_member [OF assms(1,2,5), of b] by simp
    moreover have "t = s" if "b = a" using that \<open>fmlookup (hub_heap h) b = Some t\<close> assms(5) by simp
    ultimately show ?thesis
      using range_order_set [OF assms(3), of "ses_ID t"] by (auto simp: listening_def)
  qed
  have "fmlookup heap b = map_option
       (\<lambda>t. if b \<noteq> a \<and> fmlookup (hub_sessions h) (ses_ID t) = Some b \<and> length (ses_Send t) < ChanCap
            then t\<lparr>ses_Send := ses_Send t @ [?line]\<rparr> else t) (fmlookup (hub_heap h) b)" for b
    using listen [of b] by (cases "fmlookup (hub_heap h) b") (auto simp: heap(2) accept_line_def)
  then show ?thesis
    using assms(2,4,5) heap(1) unfolding chat_line_def [symmetric]
    by (simp add: hub_handle_broadcast_def with_heap_def push_remote_def split: option.splits)
qed

text \<open>
  C40. Messages from remote nodes are never sent back to the transport: in every run from a new
  hub, the texts written to \<^verbatim>\<open>remoteSend\<close> form a subsequence, in order, of the texts local users
  broadcast, so remote, system, join, leave and nick lines contribute nothing.
\<close>

theorem only_local_messages_leave:
  "subseq (map rm_Text (exec_pushed ops (SetRemoteSend (NewHub name)))) (op_texts ops)"
  using outgoing_subseq [of ops "SetRemoteSend (NewHub name)"]
  by (simp add: local_texts_def SetRemoteSend_def NewHub_def)

section \<open>Witnesses\<close>

definition demo_hub_ops :: "hub_op list" where
  "demo_hub_ops = [OpCase [1] (CJoin ''ann''), OpCase [2, 1] (CJoin ''bob''), OpBroadcast 0 ''hi'',
     OpRemote ''eve'' ''yo'', OpCase [1, 2] CBroadcast, OpCase [2, 1] CBroadcast, OpTake,
     OpCase [1] (CLeave 1), OpCase [1] (CLeave 1), OpStop, OpCase [1] CStop]"

lemmas hub_eval = NewHub_def SetRemoteSend_def hub_join_def hub_leave_def hub_handle_broadcast_def
  with_heap_def push_remote_def remote_recv_def hub_Broadcast_def DeliverRemote_def hub_Stop_def
  Let_def ChanCap_def

theorem hub_never_panics_witness:
  "ops_ok demo_hub_ops (SetRemoteSend (NewHub ''n'')) \<and>
   (\<exists>h. hub_exec demo_hub_ops (SetRemoteSend (NewHub ''n'')) = Inr h)"
proof -
  have "ops_ok demo_hub_ops (SetRemoteSend (NewHub ''n''))"
    unfolding demo_hub_ops_def by (simp add: hub_eval)
  then show ?thesis using hub_never_panics [of demo_hub_ops "''n''"] by blast
qed

text \<open>Two sessions, the first of which has just said hello.\<close>

definition demo_hub :: Hub where
  "demo_hub = (case hub_exec (take 3 demo_hub_ops) (SetRemoteSend (NewHub ''n'')) of
     Inl p \<Rightarrow> NewHub ''n'' | Inr h \<Rightarrow> h)"

theorem chat_line_delivered_witness:
  "\<exists>h'. hub_Run [1, 2] CBroadcast demo_hub = Inr h' \<and>
     outbox h' = [\<lparr>rm_Nick = ''ann'', rm_Text = ''hi''\<rparr>] \<and>
     map_option ses_Send (fmlookup (hub_heap h') 1) =
       Some [''* bob joined the partyline'', ''[ann] hi'']"
proof -
  have ok: "ops_ok (take 3 demo_hub_ops) (SetRemoteSend (NewHub ''n''))"
    unfolding demo_hub_ops_def by (simp add: hub_eval)
  have ex: "hub_exec (take 3 demo_hub_ops) (SetRemoteSend (NewHub ''n'')) = Inr demo_hub"
    unfolding demo_hub_def demo_hub_ops_def by (simp add: hub_eval)
  have inv: "hub_inv demo_hub" using hub_exec_inv [OF hub_inv_New(2) ok] ex by simp
  have st: "hub_running demo_hub" "range_order [1, 2] (hub_sessions demo_hub)"
    "hub_broadcast demo_hub = \<lparr>bm_from = Some 0, bm_text = ''hi'', bm_system = False\<rparr> # []"
    "remoteSend demo_hub = Some []"
    unfolding demo_hub_def demo_hub_ops_def
    by (simp_all add: hub_eval range_order_def finsert_commute)
  obtain s t where s: "fmlookup (hub_heap demo_hub) 0 = Some s" "ses_Nick s = ''ann''"
    "fmlookup (hub_heap demo_hub) 1 = Some t" "ses_Send t = [''* bob joined the partyline'']"
    "fmlookup (hub_sessions demo_hub) (ses_ID t) = Some 1"
    unfolding demo_hub_def demo_hub_ops_def by (simp add: hub_eval join_line_def)
  from chat_line_delivered [OF inv st(1,2,3) s(1)] s st(4) show ?thesis
    by (fastforce simp: ChanCap_def outbox_def)
qed

end
