(* ===== verification/Manager.thy ===== *)
theory Manager
  imports Engine Peer PartyLine
begin

text \<open>
  The transport manager's state and its own operations (\<^verbatim>\<open>internal/transport/manager.go\<close>); the
  discovery half of the manager is the theory \<open>Discovery\<close>, and connecting to a peer, which
  uses both, the theory \<open>Node\<close>.

  A node is the manager with the gossip engine, whose type parameter is the manager's state: the
  engine's callbacks send to the manager's peers and deliver to its hub. The fields that Go guards
  with \<^verbatim>\<open>m.mu\<close> are changed by whole operations here, as each critical section is one step. Goroutines
  started to persist records are kept in \<open>m_saves\<close>, each with the records it has still to write, and
  run in any order.
\<close>

section \<open>Data\<close>

record PeerRecord =
  rec_NodeID :: node_id
  rec_Addr :: string
  rec_Reachable :: bool
  rec_PublicKey :: string
  rec_LastSeen :: int
  rec_FailCount :: int
  rec_LastFail :: int

record NetConfig =
  cfg_Listen :: string
  cfg_AdvertiseAddr :: string
  cfg_Bootstrap :: "string list"
  cfg_MaxPeers :: int
  cfg_Tags :: "string list"

text \<open>The bucket of known peers in the store; \<open>st_ok\<close> says whether its operations succeed.\<close>

record PeerStore =
  st_data :: "(bytes, bytes) fmap"
  st_ok :: bool

record 'c Manager =
  m_cfg :: NetConfig
  m_id :: Identity
  m_hub :: Hub
  m_noiseKey :: "bytes \<times> bytes"
  m_store :: "PeerStore option"
  m_peers :: "(node_id, 'c Peer) fmap"
  knownPeers :: "(node_id, PeerRecord) fmap"
  m_dialing :: "(node_id, bool) fmap"
  bootstrapAddrs :: "(string, bool) fmap"
  m_listener :: "bool option"
  listenAddr :: string
  m_done :: bool
  peerIdleTimeout :: duration
  peerKeepaliveInterval :: duration
  peerWriteTimeout :: duration
  m_saves :: "PeerRecord list list"

record 'c Node =
  n_mgr :: "'c Manager"
  n_eng :: "'c Manager Engine"

text \<open>\<^verbatim>\<open>time.Time.Unix\<close> and the conversion of its result to \<^verbatim>\<open>uint64\<close>.\<close>

definition Unix :: "instant \<Rightarrow> int" where
  "Unix t = t div Second"

text \<open>The value of a key in a Go map of booleans: false for a missing key.\<close>

definition map_flag :: "('k, bool) fmap \<Rightarrow> 'k \<Rightarrow> bool" where
  "map_flag m k = (case fmlookup m k of None \<Rightarrow> False | Some b \<Rightarrow> b)"

section \<open>Peers\<close>

definition addPeer :: "'c Peer \<Rightarrow> 'c Manager \<Rightarrow> string \<times> 'c Manager" where
  "addPeer p m =
     (if fmlookup (m_peers m) (p_NodeID p) \<noteq> None then (''duplicate'', m)
      else if cfg_MaxPeers (m_cfg m) > 0 \<and> int (map_len (m_peers m)) \<ge> cfg_MaxPeers (m_cfg m)
      then (''max peers reached'', m)
      else ('''', m\<lparr>m_peers := fmupd (p_NodeID p)
             (p\<lparr>has_onPeerExchange := True, has_onGossipMessage := True\<rparr>) (m_peers m)\<rparr>))"

definition removePeer :: "node_id \<Rightarrow> 'c Manager \<Rightarrow> 'c Manager" where
  "removePeer nodeID m = m\<lparr>m_peers := fmdrop nodeID (m_peers m)\<rparr>"

definition PeerCount :: "'c Manager \<Rightarrow> nat" where
  "PeerCount m = map_len (m_peers m)"

text \<open>
  \<^verbatim>\<open>peer.SendRaw\<close> through the peer map; a handle is used in the call that obtained it, so its
  peer is in the map.
\<close>

definition peer_send :: "node_id \<Rightarrow> bytes \<Rightarrow> 'c Manager \<Rightarrow> bool \<times> 'c Manager" where
  "peer_send nodeID raw m =
     (case fmlookup (m_peers m) nodeID of
        None \<Rightarrow> (False, m)
      | Some p \<Rightarrow> (case SendRaw raw p of (ok, p') \<Rightarrow> (ok, m\<lparr>m_peers := fmupd nodeID p' (m_peers m)\<rparr>)))"

definition peerHandles :: "node_id list \<Rightarrow> 'c Manager \<Rightarrow> 'c Manager PeerHandle list" where
  "peerHandles ks m =
     map (\<lambda>p. \<lparr>ph_NodeID = p_NodeID p, ph_Send = peer_send (p_NodeID p)\<rparr>) (map_range ks (m_peers m))"

section \<open>Local settings\<close>

definition advertiseAddr :: "'c Manager \<Rightarrow> string" where
  "advertiseAddr m =
     (if cfg_AdvertiseAddr (m_cfg m) \<noteq> [] then cfg_AdvertiseAddr (m_cfg m)
      else if listenAddr m = [] then []
      else
        (case SplitHostPort (listenAddr m) of
           None \<Rightarrow> []
         | Some (host, port) \<Rightarrow>
             if host = ''0.0.0.0'' \<or> host = ''::'' \<or> host = [] then [] else listenAddr m))"

definition helloConfig :: "'c Manager \<Rightarrow> HelloConfig" where
  "helloConfig m =
     (let addr = advertiseAddr m
      in \<lparr>hc_Tags = cfg_Tags (m_cfg m), hc_Reachable = (addr \<noteq> []), hc_ListenAddr = addr\<rparr>)"

definition SetPeerTimeouts :: "duration \<Rightarrow> duration \<Rightarrow> 'c Manager \<Rightarrow> 'c Manager" where
  "SetPeerTimeouts idle keepalive m =
     m\<lparr>peerIdleTimeout := if idle < 0 then 0 else idle,
       peerKeepaliveInterval := if keepalive < 0 then 0 else keepalive\<rparr>"

definition SetPeerWriteTimeout :: "duration \<Rightarrow> 'c Manager \<Rightarrow> 'c Manager" where
  "SetPeerWriteTimeout d m =
     m\<lparr>peerWriteTimeout := d, m_peers := fmmap (\<lambda>p. p\<lparr>writeTimeout := d\<rparr>) (m_peers m)\<rparr>"

definition applyPeerTimeouts :: "'c Manager \<Rightarrow> 'c Peer \<Rightarrow> 'c Peer" where
  "applyPeerTimeouts m p =
     (let p1 = (if peerIdleTimeout m > 0 then p\<lparr>idleTimeout := peerIdleTimeout m\<rparr> else p);
          p2 = (if peerKeepaliveInterval m > 0 then p1\<lparr>keepaliveInterval := peerKeepaliveInterval m\<rparr> else p1)
      in if peerWriteTimeout m > 0 then p2\<lparr>writeTimeout := peerWriteTimeout m\<rparr> else p2)"

section \<open>Chat in and out\<close>

text \<open>The handler registered for chat messages.\<close>

definition chat_handler :: "'r codec \<Rightarrow> node_id \<Rightarrow> bytes \<Rightarrow> 'c Manager \<Rightarrow> 'c Manager" where
  "chat_handler cd senderID payload m =
     (case chat_Unmarshal cd payload of
        None \<Rightarrow> m
      | Some chat \<Rightarrow> m\<lparr>m_hub := DeliverRemote (chat_Nick chat) (chat_Text chat) (m_hub m)\<rparr>)"

text \<open>
  One iteration of \<^verbatim>\<open>fanoutLoop\<close> that received a message from the hub. \<open>uuid\<close> is the fresh message
  identifier and \<open>now\<close> the clock.
\<close>

definition chat_env :: "crypto \<Rightarrow> string \<Rightarrow> u32 \<Rightarrow> Identity \<Rightarrow> bytes \<Rightarrow> Envelope" where
  "chat_env cr uuid hops i payload =
     SignEnvelope cr (zero_Envelope\<lparr>MessageId := uuid, SenderId := NodeID i, MsgType := MsgTypeChat,
       HopCount := hops, Payload := payload, SenderPubkey := PublicKey i\<rparr>) (PrivateKey i)"

definition fanout_iter ::
  "crypto \<Rightarrow> 'r codec \<Rightarrow> runtime \<Rightarrow> string \<Rightarrow> instant \<Rightarrow> 'c Node \<Rightarrow> 'c Node" where
  "fanout_iter cr cd rt uuid now n =
     (let m = n_mgr n in
      case remote_recv (m_hub m) of
        None \<Rightarrow> n
      | Some (msg, hub') \<Rightarrow>
          (let m1 = m\<lparr>m_hub := hub'\<rparr>;
               chat = \<lparr>chat_Nick = rm_Nick msg, chat_Text = rm_Text msg,
                       chat_Timestamp = word_of_int (Unix now)\<rparr> in
           case chat_Marshal cd chat of
             None \<Rightarrow> n\<lparr>n_mgr := m1\<rparr>
           | Some payload \<Rightarrow>
               (case Broadcast cd rt (chat_env cr uuid (MaxHops (n_eng n)) (m_id m1) payload) (n_eng n) m1 of
                  (_, e', m2) \<Rightarrow> n\<lparr>n_mgr := m2, n_eng := e'\<rparr>)))"

section \<open>Starting and stopping\<close>

text \<open>\<^verbatim>\<open>NewManager\<close> up to the loading of the known peers.\<close>

definition make_manager ::
  "crypto \<Rightarrow> 'r codec \<Rightarrow> NetConfig \<Rightarrow> Identity \<Rightarrow> Hub \<Rightarrow> PeerStore option \<Rightarrow> 'c Node option" where
  "make_manager cr cd cfg i hub st =
     (case EdToNoiseKeypair cr i of
        None \<Rightarrow> None
      | Some key \<Rightarrow>
          (let m = \<lparr>m_cfg = cfg, m_id = i, m_hub = SetRemoteSend hub, m_noiseKey = key, m_store = st,
                    m_peers = fmempty, knownPeers = fmempty, m_dialing = fmempty,
                    bootstrapAddrs = fold (\<lambda>addr. fmupd addr True) (cfg_Bootstrap cfg) fmempty,
                    m_listener = None, listenAddr = [], m_done = False, peerIdleTimeout = 0, peerKeepaliveInterval = 0,
                    peerWriteTimeout = 0, m_saves = []\<rparr>;
               e1 = NewEngine (NodeID i) peerHandles;
               e2 = RegisterHandler MsgTypeChat (chat_handler cd) e1;
               e3 = e2\<lparr>eng_KeyRing := kr_Add (NodeID i) (PublicKey i) TrustDirectlyVerified (eng_KeyRing e2)\<rparr>
           in Some \<lparr>n_mgr = m, n_eng = e3\<rparr>))"

definition mgr_Stop :: "'c Node \<Rightarrow> 'c Node" where
  "mgr_Stop n =
     (if m_done (n_mgr n) then n
      else n\<lparr>n_mgr := (n_mgr n)\<lparr>m_done := True, m_listener := map_option (\<lambda>_. False) (m_listener (n_mgr n)),
               m_peers := fmmap peer_Close (m_peers (n_mgr n))\<rparr>,
             n_eng := engine_Stop (n_eng n)\<rparr>)"

text \<open>
  The case a loop's \<^verbatim>\<open>select\<close> picks: its work, the end of the context or the end of the manager.
\<close>

datatype wake = WakeWork | WakeCtx | WakeDone

fun wake_ready :: "bool \<Rightarrow> 'c Manager \<Rightarrow> wake \<Rightarrow> bool" where
  "wake_ready ctx m WakeWork \<longleftrightarrow> True"
| "wake_ready ctx m WakeCtx \<longleftrightarrow> ctx"
| "wake_ready ctx m WakeDone \<longleftrightarrow> m_done m"

text \<open>
  The loop \<^verbatim>\<open>dialWithBackoff\<close>. A round is the case of its first \<^verbatim>\<open>select\<close> (\<^const>\<open>WakeWork\<close> is the default),
  whether \<^verbatim>\<open>dial\<close> made a connection that ran until it was closed, and what ended the wait after a failure.
  The loop's waits are the first component; the second tells whether it has returned.
\<close>

record dial_round =
  dr_first :: wake
  dr_dialed :: bool
  dr_wait :: wake

fun dial_rounds :: "duration \<Rightarrow> dial_round list \<Rightarrow> duration list \<times> bool" where
  "dial_rounds backoff [] = ([], False)"
| "dial_rounds backoff (r # rs) =
     (if dr_first r \<noteq> WakeWork then ([], True)
      else if dr_dialed r then dial_rounds Second rs
      else if dr_wait r \<noteq> WakeWork then ([backoff], True)
      else (case dial_rounds (min (backoff * 2) (30 * Second)) rs of (waits, returned) \<Rightarrow> (backoff # waits, returned)))"

definition dialWithBackoff :: "dial_round list \<Rightarrow> duration list \<times> bool" where
  "dialWithBackoff rounds = dial_rounds Second rounds"

section \<open>The peer map\<close>

definition peers_inv :: "crypto \<Rightarrow> 'c Manager \<Rightarrow> bool" where
  "peers_inv cr m \<longleftrightarrow>
     (\<forall>k p. fmlookup (m_peers m) k = Some p \<longrightarrow> p_NodeID p = k \<and> node_id_of cr (edPubKey p) = k \<and>
        length (edPubKey p) = PublicKeySize \<and> length (sendCh p) \<le> sendChCap) \<and>
     (cfg_MaxPeers (m_cfg m) > 0 \<longrightarrow> int (map_len (m_peers m)) \<le> cfg_MaxPeers (m_cfg m))"

definition sendq :: "'c Manager \<Rightarrow> node_id \<Rightarrow> bytes list option" where
  "sendq m n = map_option sendCh (fmlookup (m_peers m) n)"

text \<open>Everything but the contents of the send queues.\<close>

definition sans_queues :: "'c Manager \<Rightarrow> 'c Manager" where
  "sans_queues m = m\<lparr>m_peers := fmmap (\<lambda>p. p\<lparr>sendCh := []\<rparr>) (m_peers m)\<rparr>"

interpretation sink: message_sink sendq peer_send sendChCap sans_queues
proof unfold_locales
  fix m :: "'c Manager" and n q raw
  assume "sendq m n = Some q"
  then obtain p where p: "fmlookup (m_peers m) n = Some p" "sendCh p = q" by (auto simp: sendq_def)
  have upd: "sendq (m\<lparr>m_peers := fmupd n p' (m_peers m)\<rparr>) = (sendq m)(n \<mapsto> sendCh p')" for p'
    by (rule ext) (simp add: sendq_def)
  have same: "fmupd n p (m_peers m) = m_peers m" using p(1) by (intro fmap_ext) auto
  show "\<exists>w'. peer_send n raw m = (True, w') \<and> sendq w' = (sendq m)(n \<mapsto> q @ [raw])" if "length q < sendChCap"
    using that p upd by (simp add: peer_send_def SendRaw_def)
  show "peer_send n raw m = (False, m)" if "\<not> length q < sendChCap"
    using that p same by (simp add: peer_send_def SendRaw_def)
  have "fmmap (\<lambda>p. p\<lparr>sendCh := []\<rparr>) (fmupd n (p\<lparr>sendCh := q'\<rparr>) (m_peers m)) =
      fmmap (\<lambda>p. p\<lparr>sendCh := []\<rparr>) (m_peers m)" for q'
    using p(1) by (intro fmap_ext) auto
  then show "sans_queues (snd (peer_send n raw m)) = sans_queues m"
    using p same by (auto simp: peer_send_def SendRaw_def sans_queues_def split_beta)
qed

lemma peerHandles_facts:
  assumes "peers_inv cr m" and "range_order ks (m_peers m)"
  shows "map ph_NodeID (peerHandles ks m) = ks"
    "\<And>p. p \<in> set (peerHandles ks m) \<Longrightarrow> ph_Send p = peer_send (ph_NodeID p)"
    "\<And>p. p \<in> set (peerHandles ks m) \<Longrightarrow> sendq m (ph_NodeID p) \<noteq> None"
proof -
  have r: "map_range ks (m_peers m) = map (\<lambda>k. the (fmlookup (m_peers m) k)) ks"
    using range_order_set [OF assms(2)] by (intro map_range_map) blast
  have key: "p_NodeID (the (fmlookup (m_peers m) k)) = k" if "k \<in> set ks" for k
    using that range_order_set [OF assms(2), of k] assms(1) by (auto simp: peers_inv_def)
  show ids: "map ph_NodeID (peerHandles ks m) = ks"
    unfolding peerHandles_def r using key by (induction ks) auto
  show "ph_Send p = peer_send (ph_NodeID p)" if "p \<in> set (peerHandles ks m)" for p
    using that by (auto simp: peerHandles_def)
  show "sendq m (ph_NodeID p) \<noteq> None" if "p \<in> set (peerHandles ks m)" for p
  proof -
    have "ph_NodeID p \<in> set ks" using that ids by (metis image_eqI list.set_map)
    then show ?thesis using range_order_set [OF assms(2)] by (simp add: sendq_def)
  qed
qed

end
