(* ===== verification/Discovery.thy ===== *)
theory Discovery
  imports Manager
begin

text \<open>
  Peer discovery (\<^verbatim>\<open>internal/transport/discovery.go\<close>): the table of known peers, its exchange with
  connected peers, its persistence and the choice of peers to dial.

  Times in records are Unix seconds of type \<^verbatim>\<open>int64\<close>, held as integers; the conversions from and to
  the \<^verbatim>\<open>uint64\<close> on the wire are written out. The order of a \<^verbatim>\<open>range\<close> over a map and the draws of
  \<^verbatim>\<open>rand.Shuffle\<close> are arguments.
\<close>

section \<open>Records\<close>

text \<open>
  \<^verbatim>\<open>math.Pow(2, n - 1)\<close> is exact up to \<open>2^1023\<close> and infinite above, so its minimum with 30 is that of
  the integer power.
\<close>

definition backoff :: "PeerRecord \<Rightarrow> duration" where
  "backoff r = (if rec_FailCount r \<le> 0 then 0
     else min (2 ^ nat (rec_FailCount r - 1)) 30 * Second)"

definition maxDialsPerTick :: nat where "maxDialsPerTick = 3"

definition isInvalidPeerAddr :: "string \<Rightarrow> bool" where
  "isInvalidPeerAddr addr =
     (case SplitHostPort addr of
        None \<Rightarrow> True
      | Some (host, port) \<Rightarrow>
          if port = [] then True else host = [] \<or> host = ''0.0.0.0'' \<or> host = ''::'')"

definition MaxInt64 :: int where "MaxInt64 = 2 ^ 63 - 1"

definition safeLastSeen :: "u64 \<Rightarrow> int" where
  "safeLastSeen ts = (if uint ts > MaxInt64 then MaxInt64 else uint ts)"

definition formatNodeIDShort :: "node_id \<Rightarrow> string" where
  "formatNodeIDShort nodeID = (if length nodeID > 12 then take 12 nodeID else nodeID)"

section \<open>Persistence\<close>

text \<open>The checks of \<^verbatim>\<open>loadKnownPeers\<close> on one record.\<close>

definition loadable :: "crypto \<Rightarrow> PeerRecord \<Rightarrow> bool" where
  "loadable cr r \<longleftrightarrow> rec_NodeID r \<noteq> [] \<and> \<not> (rec_Addr r \<noteq> [] \<and> isInvalidPeerAddr (rec_Addr r)) \<and>
     (rec_PublicKey r \<noteq> [] \<longrightarrow>
        (case hex_DecodeString (rec_PublicKey r) of
           None \<Rightarrow> False
         | Some pubBytes \<Rightarrow> length pubBytes = PublicKeySize \<and>
             hex_EncodeToString (sha256 cr pubBytes) = rec_NodeID r))"

definition loadKnownPeers ::
  "crypto \<Rightarrow> PeerRecord codec \<Rightarrow> bytes list \<Rightarrow> 'c Manager \<Rightarrow> 'c Manager" where
  "loadKnownPeers cr cd ks m =
     (case m_store m of
        None \<Rightarrow> m
      | Some st \<Rightarrow>
          if \<not> st_ok st then m
          else
            (let recs = List.map_filter (json_Unmarshal cd) (map_range ks (st_data st));
                 valid = filter (loadable cr) recs
             in m\<lparr>knownPeers := fold (\<lambda>r. fmupd (rec_NodeID r) r) valid (knownPeers m)\<rparr>))"

definition saveKnownPeer :: "PeerRecord codec \<Rightarrow> PeerRecord \<Rightarrow> 'c Manager \<Rightarrow> 'c Manager" where
  "saveKnownPeer cd r m =
     (case m_store m of
        None \<Rightarrow> m
      | Some st \<Rightarrow>
          (case json_Marshal cd r of
             None \<Rightarrow> m
           | Some data \<Rightarrow>
               if st_ok st
               then m\<lparr>m_store := Some (st\<lparr>st_data := fmupd (str_bytes (rec_NodeID r)) data (st_data st)\<rparr>)\<rparr>
               else m))"

text \<open>Any one of the goroutines started to persist records saves the next of its records.\<close>

definition run_save :: "PeerRecord codec \<Rightarrow> nat \<Rightarrow> 'c Manager \<Rightarrow> 'c Manager" where
  "run_save cd i m =
     (if i < length (m_saves m)
      then
        (case m_saves m ! i of
           [] \<Rightarrow> m
         | r # rs \<Rightarrow> saveKnownPeer cd r (m\<lparr>m_saves := (m_saves m)[i := rs]\<rparr>))
      else m)"

definition NewManager ::
  "crypto \<Rightarrow> PeerRecord codec \<Rightarrow> bytes list \<Rightarrow> NetConfig \<Rightarrow> Identity \<Rightarrow> Hub \<Rightarrow> PeerStore option \<Rightarrow> 'c Node option" where
  "NewManager cr cd ks cfg i hub st =
     map_option (\<lambda>n. n\<lparr>n_mgr := loadKnownPeers cr cd ks (n_mgr n)\<rparr>) (make_manager cr cd cfg i hub st)"

section \<open>Exchange\<close>

definition buildPeerInfoList :: "node_id list \<Rightarrow> instant \<Rightarrow> node_id \<Rightarrow> 'c Manager \<Rightarrow> PeerInfo list" where
  "buildPeerInfoList ks now excludeNodeID m =
     (let selfAddr = advertiseAddr m;
          snapshots = filter (\<lambda>r. \<not> (rec_NodeID r = excludeNodeID \<or> rec_NodeID r = NodeID (m_id m)) \<and>
              \<not> (\<not> rec_Reachable r \<or> rec_Addr r = [] \<or> isInvalidPeerAddr (rec_Addr r)))
            (map_range ks (knownPeers m));
          self = (if selfAddr \<noteq> []
            then [\<lparr>info_NodeId = NodeID (m_id m), info_Addr = selfAddr, info_Reachable = True,
                   info_Ed25519Pubkey = PublicKey (m_id m), info_LastSeen = word_of_int (Unix now)\<rparr>]
            else [])
      in self @ List.map_filter (\<lambda>s.
           if rec_PublicKey s = [] then None
           else
             (case hex_DecodeString (rec_PublicKey s) of
                None \<Rightarrow> None
              | Some pubKey \<Rightarrow>
                  if length pubKey \<noteq> PublicKeySize then None
                  else Some \<lparr>info_NodeId = rec_NodeID s, info_Addr = rec_Addr s,
                        info_Reachable = rec_Reachable s, info_Ed25519Pubkey = pubKey,
                        info_LastSeen = word_of_int (rec_LastSeen s)\<rparr>)) snapshots)"

definition sendPeerExchangeTo ::
  "crypto \<Rightarrow> 'r codec \<Rightarrow> string \<Rightarrow> node_id list \<Rightarrow> instant \<Rightarrow> node_id \<Rightarrow> 'c Manager \<Rightarrow> 'c Manager" where
  "sendPeerExchangeTo cr cd uuid ks now peerID m =
     (let infos = buildPeerInfoList ks now peerID m in
      if infos = [] then m
      else
        (case px_Marshal cd infos of
           None \<Rightarrow> m
         | Some payload \<Rightarrow>
             (let env = SignEnvelope cr (zero_Envelope\<lparr>MessageId := uuid, SenderId := NodeID (m_id m),
                    MsgType := MsgTypePeerExchange, HopCount := 1, Payload := payload\<rparr>) (PrivateKey (m_id m)) in
              case env_Marshal cd env of
                None \<Rightarrow> m
              | Some envBytes \<Rightarrow> snd (peer_send peerID envBytes m))))"

text \<open>A tick of \<^verbatim>\<open>exchangeLoop\<close>; \<open>uuids\<close> and \<open>orders\<close> are what the runtime picks per peer.\<close>

definition exchange_tick ::
  "crypto \<Rightarrow> 'r codec \<Rightarrow> (node_id \<Rightarrow> string) \<Rightarrow> (node_id \<Rightarrow> node_id list) \<Rightarrow> instant \<Rightarrow> node_id list \<Rightarrow>
     'c Manager \<Rightarrow> 'c Manager" where
  "exchange_tick cr cd uuids orders now ks m =
     fold (\<lambda>p. sendPeerExchangeTo cr cd (uuids (p_NodeID p)) (orders (p_NodeID p)) now (p_NodeID p))
       (map_range ks (m_peers m)) m"

definition onPeerConnected ::
  "crypto \<Rightarrow> 'r codec \<Rightarrow> string \<Rightarrow> node_id list \<Rightarrow> instant \<Rightarrow> 'c Peer \<Rightarrow> 'c Node \<Rightarrow> 'c Node" where
  "onPeerConnected cr cd uuid ks now p n =
     (let e = (n_eng n)\<lparr>eng_KeyRing :=
            kr_Add (p_NodeID p) (edPubKey p) TrustDirectlyVerified (eng_KeyRing (n_eng n))\<rparr>;
          m = n_mgr n;
          old = (case fmlookup (knownPeers m) (p_NodeID p) of Some r \<Rightarrow> r
            | None \<Rightarrow> \<lparr>rec_NodeID = p_NodeID p, rec_Addr = [], rec_Reachable = False, rec_PublicKey = [],
                       rec_LastSeen = 0, rec_FailCount = 0, rec_LastFail = 0\<rparr>);
          r = old\<lparr>rec_Addr := remoteListenAddr p, rec_Reachable := remoteReachable p,
                  rec_PublicKey := hex_EncodeToString (edPubKey p), rec_LastSeen := Unix now,
                  rec_FailCount := 0, rec_LastFail := 0\<rparr>;
          m1 = m\<lparr>knownPeers := fmupd (p_NodeID p) r (knownPeers m), m_saves := m_saves m @ [[r]]\<rparr>
      in n\<lparr>n_eng := e, n_mgr := sendPeerExchangeTo cr cd uuid ks now (p_NodeID p) m1\<rparr>)"

text \<open>The checks of \<^verbatim>\<open>mergeDiscoveredPeers\<close> on one received entry.\<close>

definition acceptable :: "crypto \<Rightarrow> node_id \<Rightarrow> PeerInfo \<Rightarrow> bool" where
  "acceptable cr self info \<longleftrightarrow>
     info_NodeId info \<noteq> self \<and>
     \<not> (\<not> info_Reachable info \<or> info_Addr info = [] \<or> isInvalidPeerAddr (info_Addr info)) \<and>
     length (info_Ed25519Pubkey info) = PublicKeySize \<and>
     info_NodeId info = hex_EncodeToString (sha256 cr (info_Ed25519Pubkey info))"

text \<open>Applying one validated entry: the new table and the record to persist, if any.\<close>

definition merge_entry ::
  "PeerInfo \<Rightarrow> (node_id, PeerRecord) fmap \<times> PeerRecord list \<Rightarrow> (node_id, PeerRecord) fmap \<times> PeerRecord list" where
  "merge_entry info kt =
     (case kt of (known, toPersist) \<Rightarrow>
        let pubKeyHex = hex_EncodeToString (info_Ed25519Pubkey info);
            lastSeen = safeLastSeen (info_LastSeen info) in
        case fmlookup known (info_NodeId info) of
          Some existing \<Rightarrow>
            if lastSeen > rec_LastSeen existing then
              (let r = existing\<lparr>rec_Addr := info_Addr info, rec_Reachable := info_Reachable info,
                     rec_PublicKey := pubKeyHex, rec_LastSeen := lastSeen\<rparr>
               in (fmupd (info_NodeId info) r known, toPersist @ [r]))
            else (known, toPersist)
        | None \<Rightarrow>
            (let r = \<lparr>rec_NodeID = info_NodeId info, rec_Addr = info_Addr info,
                   rec_Reachable = info_Reachable info, rec_PublicKey = pubKeyHex,
                   rec_LastSeen = lastSeen, rec_FailCount = 0, rec_LastFail = 0\<rparr>
             in (fmupd (info_NodeId info) r known, toPersist @ [r])))"

definition mergeDiscoveredPeers :: "crypto \<Rightarrow> PeerInfo list \<Rightarrow> 'c Node \<Rightarrow> 'c Node" where
  "mergeDiscoveredPeers cr infos n =
     (let m = n_mgr n;
          validated = filter (acceptable cr (NodeID (m_id m))) infos;
          kr = fold (\<lambda>info. kr_Add (info_NodeId info) (info_Ed25519Pubkey info) TrustGossipLearned)
                 validated (eng_KeyRing (n_eng n));
          (known, toPersist) = fold merge_entry validated (knownPeers m, [])
      in n\<lparr>n_eng := (n_eng n)\<lparr>eng_KeyRing := kr\<rparr>,
           n_mgr := m\<lparr>knownPeers := known, m_saves := if toPersist \<noteq> [] then m_saves m @ [toPersist] else m_saves m\<rparr>\<rparr>)"

section \<open>Dialing\<close>

text \<open>The conditions under which \<^verbatim>\<open>tryDiscoveryDials\<close> considers a known peer.\<close>

definition dialable :: "instant \<Rightarrow> 'c Manager \<Rightarrow> PeerRecord \<Rightarrow> bool" where
  "dialable now m r \<longleftrightarrow>
     rec_NodeID r \<noteq> NodeID (m_id m) \<and> \<not> (\<not> rec_Reachable r \<or> rec_Addr r = []) \<and>
     fmlookup (m_peers m) (rec_NodeID r) = None \<and> \<not> map_flag (m_dialing m) (rec_NodeID r) \<and>
     \<not> map_flag (bootstrapAddrs m) (rec_Addr r) \<and>
     \<not> (rec_FailCount r > 0 \<and> now < rec_LastFail r * Second + backoff r)"

definition tryDiscoveryDials ::
  "node_id list \<Rightarrow> (nat \<Rightarrow> nat) \<Rightarrow> instant \<Rightarrow> 'c Manager \<Rightarrow> PeerRecord list \<times> 'c Manager" where
  "tryDiscoveryDials ks draws now m =
     (if cfg_MaxPeers (m_cfg m) > 0 \<and> int (map_len (m_peers m)) \<ge> cfg_MaxPeers (m_cfg m) then ([], m)
      else
        (let candidates = filter (dialable now m) (map_range ks (knownPeers m)) in
         if candidates = [] then ([], m)
         else
           (let shuffled = Shuffle draws candidates;
                chosen = (if length shuffled > maxDialsPerTick then take maxDialsPerTick shuffled else shuffled)
            in (chosen, fold (\<lambda>r m. m\<lparr>m_dialing := fmupd (rec_NodeID r) True (m_dialing m)\<rparr>) chosen m))))"

text \<open>
  The end of \<^verbatim>\<open>dialDiscovered\<close>: \<open>failed\<close> says whether \<^verbatim>\<open>dial\<close> returned an error, and a call that is
  cancelled before dialing ends like a successful one.
\<close>

definition dial_finished :: "PeerRecord codec \<Rightarrow> bool \<Rightarrow> instant \<Rightarrow> PeerRecord \<Rightarrow> 'c Manager \<Rightarrow> 'c Manager" where
  "dial_finished cd failed now r m =
     (let m1 = (if failed then
            (case fmlookup (knownPeers m) (rec_NodeID r) of
               None \<Rightarrow> m
             | Some known \<Rightarrow>
                 (let known' = known\<lparr>rec_FailCount := rec_FailCount known + 1, rec_LastFail := Unix now\<rparr>
                  in saveKnownPeer cd known' (m\<lparr>knownPeers := fmupd (rec_NodeID r) known' (knownPeers m)\<rparr>)))
          else m)
      in m1\<lparr>m_dialing := fmdrop (rec_NodeID r) (m_dialing m1)\<rparr>)"

section \<open>Records are bound to keys\<close>

definition record_bound :: "crypto \<Rightarrow> PeerRecord \<Rightarrow> bool" where
  "record_bound cr r \<longleftrightarrow> (rec_PublicKey r \<noteq> [] \<longrightarrow>
     (\<exists>pub. hex_DecodeString (rec_PublicKey r) = Some pub \<and> length pub = PublicKeySize \<and>
        node_id_of cr pub = rec_NodeID r))"

definition known_inv :: "crypto \<Rightarrow> (node_id, PeerRecord) fmap \<Rightarrow> bool" where
  "known_inv cr known \<longleftrightarrow>
     (\<forall>k r. fmlookup known k = Some r \<longrightarrow> rec_NodeID r = k \<and> record_bound cr r)"

lemma known_inv_upd [inv_intros]:
  "known_inv cr known \<Longrightarrow> rec_NodeID r = k \<Longrightarrow> record_bound cr r \<Longrightarrow> known_inv cr (fmupd k r known)"
  by (simp add: known_inv_def)

lemma known_invD:
  "known_inv cr known \<Longrightarrow> fmlookup known k = Some r \<Longrightarrow> rec_NodeID r = k"
  "known_inv cr known \<Longrightarrow> fmlookup known k = Some r \<Longrightarrow> record_bound cr r"
  by (simp_all add: known_inv_def)

lemma record_boundI:
  "rec_PublicKey r = hex_EncodeToString pub \<Longrightarrow> length pub = PublicKeySize \<Longrightarrow>
     node_id_of cr pub = rec_NodeID r \<Longrightarrow> record_bound cr r"
  by (simp add: record_bound_def)

lemma loadable_bound: "loadable cr r \<Longrightarrow> record_bound cr r"
  by (auto simp: loadable_def record_bound_def node_id_of_def split: option.splits)

lemma known_inv_load:
  assumes "known_inv cr (knownPeers m)"
  shows "known_inv cr (knownPeers (loadKnownPeers cr cd ks m))"
proof -
  have "known_inv cr (fold (\<lambda>r. fmupd (rec_NodeID r) r) rs known)"
    if "\<forall>r \<in> set rs. record_bound cr r" "known_inv cr known" for rs known
    using that by (induction rs arbitrary: known) (simp_all add: known_inv_upd)
  then show ?thesis
    using assms loadable_bound
    by (simp add: loadKnownPeers_def Let_def split: option.splits)
qed

lemma acceptable_bound:
  assumes "acceptable cr self info"
  shows "node_id_of cr (info_Ed25519Pubkey info) = info_NodeId info"
    "length (info_Ed25519Pubkey info) = PublicKeySize"
  using assms by (simp_all add: acceptable_def node_id_of_def)

lemma merge_entry_inv:
  assumes "known_inv cr (fst kt)" and "\<forall>r \<in> set (snd kt). record_bound cr r" and "acceptable cr self info"
  shows "known_inv cr (fst (merge_entry info kt)) \<and> (\<forall>r \<in> set (snd (merge_entry info kt)). record_bound cr r)"
  using assms(1,2) acceptable_bound [OF assms(3)] known_invD(1) [OF assms(1), of "info_NodeId info"]
  by (cases kt) (auto simp: merge_entry_def Let_def split: option.splits intro!: known_inv_upd
      intro: record_boundI [of _ "info_Ed25519Pubkey info"])

lemma merge_fold_inv:
  assumes "known_inv cr (fst kt)" and "\<forall>r \<in> set (snd kt). record_bound cr r"
    and "\<forall>info \<in> set infos. acceptable cr self info"
  shows "known_inv cr (fst (fold merge_entry infos kt)) \<and>
    (\<forall>r \<in> set (snd (fold merge_entry infos kt)). record_bound cr r)"
  using assms
proof (induction infos arbitrary: kt)
  case (Cons info infos)
  have "acceptable cr self info" using Cons.prems(3) by simp
  from Cons.IH [of "merge_entry info kt"] merge_entry_inv [OF Cons.prems(1,2) this] Cons.prems(3)
  show ?case by simp
qed simp

section \<open>Merging\<close>

text \<open>The time stamp of a node's record after a merge: the latest of the old and the received ones.\<close>

definition seen_of :: "(node_id, PeerRecord) fmap \<Rightarrow> node_id \<Rightarrow> int option" where
  "seen_of known k = map_option rec_LastSeen (fmlookup known k)"

definition latest :: "int \<Rightarrow> int option \<Rightarrow> int option" where
  "latest t o1 = Some (case o1 of None \<Rightarrow> t | Some u \<Rightarrow> max u t)"

lemma latest_keeps: "o1 \<noteq> None \<Longrightarrow> fold (\<lambda>info. latest (f info)) infos o1 \<noteq> None"
  by (induction infos arbitrary: o1) (auto simp: latest_def)

lemma merge_entry_seen:
  "seen_of (fst (merge_entry info kt)) k =
     (if k = info_NodeId info then latest (safeLastSeen (info_LastSeen info)) (seen_of (fst kt) k)
      else seen_of (fst kt) k)"
  by (auto simp: merge_entry_def Let_def seen_of_def latest_def split: prod.splits option.splits)

lemma merge_fold_seen:
  "seen_of (fst (fold merge_entry infos kt)) k =
     fold (\<lambda>info. latest (safeLastSeen (info_LastSeen info)))
       (filter (\<lambda>info. info_NodeId info = k) infos) (seen_of (fst kt) k)"
  by (induction infos arbitrary: kt) (auto simp: merge_entry_seen)

text \<open>
  Each record after a merge is the old one, or has the address, key and time stamp of a received
  entry; the failure counters of an existing record stay.
\<close>

lemma merge_fold_origin:
  assumes "fmlookup (fst (fold merge_entry infos kt)) k = Some r"
  shows "fmlookup (fst kt) k = Some r \<or>
    (\<exists>info \<in> set infos. info_NodeId info = k \<and> rec_Addr r = info_Addr info \<and>
       rec_PublicKey r = hex_EncodeToString (info_Ed25519Pubkey info) \<and>
       rec_LastSeen r = safeLastSeen (info_LastSeen info))"
  using assms
proof (induction infos arbitrary: kt)
  case (Cons info infos)
  from Cons.IH [of "merge_entry info kt"] Cons.prems
  consider (old) "fmlookup (fst (merge_entry info kt)) k = Some r" |
    (new) "\<exists>i \<in> set infos. info_NodeId i = k \<and> rec_Addr r = info_Addr i \<and>
       rec_PublicKey r = hex_EncodeToString (info_Ed25519Pubkey i) \<and>
       rec_LastSeen r = safeLastSeen (info_LastSeen i)" by auto
  then show ?case
  proof cases
    case old
    then show ?thesis
      by (auto simp: merge_entry_def Let_def split: prod.splits option.splits if_splits)
  next
    case new
    then show ?thesis by auto
  qed
qed simp

lemma merge_fold_fails:
  assumes "fmlookup (fst kt) k = Some old" and "fmlookup (fst (fold merge_entry infos kt)) k = Some r"
  shows "rec_FailCount r = rec_FailCount old \<and> rec_LastFail r = rec_LastFail old"
  using assms
proof (induction infos arbitrary: kt old)
  case (Cons info infos)
  have "\<exists>old'. fmlookup (fst (merge_entry info kt)) k = Some old' \<and>
      rec_FailCount old' = rec_FailCount old \<and> rec_LastFail old' = rec_LastFail old"
    using Cons.prems(1) by (cases kt) (auto simp: merge_entry_def Let_def split: option.splits)
  then obtain old' where o: "fmlookup (fst (merge_entry info kt)) k = Some old'"
    "rec_FailCount old' = rec_FailCount old" "rec_LastFail old' = rec_LastFail old" by blast
  from Cons.IH [OF o(1)] Cons.prems(2) o(2,3) show ?case by simp
qed simp

lemma mergeDiscoveredPeers_known:
  "knownPeers (n_mgr (mergeDiscoveredPeers cr infos n)) =
     fst (fold merge_entry (filter (acceptable cr (NodeID (m_id (n_mgr n)))) infos) (knownPeers (n_mgr n), []))"
  by (simp add: mergeDiscoveredPeers_def Let_def split_beta)

lemma mergeDiscoveredPeers_keyring:
  "eng_KeyRing (n_eng (mergeDiscoveredPeers cr infos n)) =
     fold (\<lambda>info. kr_Add (info_NodeId info) (info_Ed25519Pubkey info) TrustGossipLearned)
       (filter (acceptable cr (NodeID (m_id (n_mgr n)))) infos) (eng_KeyRing (n_eng n))"
  by (simp add: mergeDiscoveredPeers_def Let_def split_beta)

lemma distinct_filter_unique:
  "distinct (map f xs) \<Longrightarrow> x \<in> set xs \<Longrightarrow> filter (\<lambda>y. f y = f x) xs = [x]"
proof (induction xs)
  case (Cons y ys)
  show ?case
  proof (cases "y = x")
    case True
    then have "filter (\<lambda>z. f z = f x) ys = []" using Cons.prems(1)
      by (auto simp: filter_empty_conv) (metis image_eqI)
    then show ?thesis using True by simp
  next
    case False
    then have "f y \<noteq> f x" using Cons.prems by (auto simp: image_iff)
    then show ?thesis using Cons False by simp
  qed
qed simp

lemma keyring_keeps: "kr_Lookup k kr \<noteq> None \<Longrightarrow> kr_Lookup k (kr_Add n pub t kr) \<noteq> None"
  by (auto simp: kr_defs split: option.splits)

lemma keyring_after_merge:
  fixes infos :: "PeerInfo list"
  assumes "info \<in> set infos"
  shows "kr_Lookup (info_NodeId info)
    (fold (\<lambda>i. kr_Add (info_NodeId i) (info_Ed25519Pubkey i) TrustGossipLearned) infos kr) \<noteq> None"
proof -
  have keep: "kr_Lookup k (fold (\<lambda>i. kr_Add (info_NodeId i) (info_Ed25519Pubkey i) TrustGossipLearned) zs kr) \<noteq> None"
    if "kr_Lookup k kr \<noteq> None" for k and zs :: "PeerInfo list" and kr :: KeyRing
    using that
  proof (induction zs arbitrary: kr)
    case (Cons z zs)
    from Cons.IH [OF keyring_keeps [OF Cons.prems]] show ?case by simp
  qed simp
  obtain xs ys where infos: "infos = xs @ info # ys" using assms by (meson split_list)
  have "kr_Lookup n (kr_Add n pub t kr') \<noteq> None" for n pub t kr'
    by (auto simp: kr_defs split: option.splits)
  from keep [OF this, where zs = ys] show ?thesis unfolding infos fold_append comp_apply fold_Cons .
qed

section \<open>What is sent is accepted\<close>

lemma built_entries_acceptable:
  assumes "known_inv cr (knownPeers m)" and "identity_ok cr (m_id m)" and "NodeID (m_id m) \<noteq> to"
    and "advertiseAddr m = [] \<or> \<not> isInvalidPeerAddr (advertiseAddr m)"
    and "info \<in> set (buildPeerInfoList ks now to m)"
  shows "acceptable cr to info"
proof -
  have self: "NodeID (m_id m) = hex_EncodeToString (sha256 cr (PublicKey (m_id m)))"
    "length (PublicKey (m_id m)) = PublicKeySize"
    using identity_okD [OF assms(2)] by (simp_all add: node_id_of_def)
  have known: "node_id_of cr pub = rec_NodeID r" if mem: "r \<in> set (map_range ks (knownPeers m))"
    and key: "rec_PublicKey r \<noteq> []" "hex_DecodeString (rec_PublicKey r) = Some pub" for r pub
  proof -
    obtain k where "fmlookup (knownPeers m) k = Some r" using mem by (auto simp: set_map_range)
    from known_invD(2) [OF assms(1) this] key show ?thesis by (auto simp: record_bound_def)
  qed
  from assms(5) show ?thesis
    unfolding buildPeerInfoList_def Let_def
    using self assms(3,4) known
    by (auto simp: acceptable_def List.map_filter_def node_id_of_def split: if_splits option.splits)
qed

lemma subseq_subset: "subseq xs ys \<Longrightarrow> set xs \<subseteq> set ys"
  by (induction rule: list_emb.induct) auto

lemma subseq_distinct: "subseq xs ys \<Longrightarrow> distinct ys \<Longrightarrow> distinct xs"
proof (induction rule: list_emb.induct)
  case (list_emb_Cons2 x y xs ys)
  then show ?case using subseq_subset [of xs ys] by auto
qed auto

lemma map_filter_ids:
  assumes "\<And>x y. f x = Some y \<Longrightarrow> g y = h x"
  shows "subseq (map g (List.map_filter f xs)) (map h xs)"
  using assms by (induction xs) (auto simp: List.map_filter_def split: option.splits)

section \<open>Dialing\<close>

lemma fold_dialing:
  "fold (\<lambda>r m. m\<lparr>m_dialing := fmupd (rec_NodeID r) True (m_dialing m)\<rparr>) rs m =
     m\<lparr>m_dialing := fold (\<lambda>r. fmupd (rec_NodeID r) True) rs (m_dialing m)\<rparr>"
  by (induction rs arbitrary: m) simp_all

lemma map_flag_fold:
  "map_flag (fold (\<lambda>r. fmupd (rec_NodeID r) True) rs d) k \<longleftrightarrow> k \<in> rec_NodeID ` set rs \<or> map_flag d k"
  by (induction rs arbitrary: d) (auto simp: map_flag_def)

lemma map_range_ids:
  assumes "known_inv cr known" and "range_order ks known"
  shows "map rec_NodeID (map_range ks known) = ks"
proof -
  have "map_range ks known = map (\<lambda>k. the (fmlookup known k)) ks"
    using range_order_set [OF assms(2)] by (intro map_range_map) blast
  moreover have "rec_NodeID (the (fmlookup known k)) = k" if "k \<in> set ks" for k
    using that range_order_set [OF assms(2), of k] known_invD(1) [OF assms(1), of k] by auto
  ultimately show ?thesis by (simp add: map_idI)
qed

lemma tryDiscoveryDials_facts:
  assumes "known_inv cr (knownPeers m)" and "range_order ks (knownPeers m)"
    and "tryDiscoveryDials ks draws now m = (rs, m')"
  shows "length rs \<le> maxDialsPerTick" "distinct (map rec_NodeID rs)"
    "\<forall>r \<in> set rs. dialable now m r \<and> fmlookup (knownPeers m) (rec_NodeID r) = Some r"
    "m' = m\<lparr>m_dialing := m_dialing m'\<rparr>"
    "map_flag (m_dialing m') k \<longleftrightarrow> k \<in> rec_NodeID ` set rs \<or> map_flag (m_dialing m) k"
proof -
  let ?c = "filter (dialable now m) (map_range ks (knownPeers m))"
  have ids: "map rec_NodeID (map_range ks (knownPeers m)) = ks" by (rule map_range_ids [OF assms(1,2)])
  have "distinct ks" using assms(2) by (simp add: range_order_def)
  then have d: "distinct ?c" "inj_on rec_NodeID (set ?c)"
    using ids distinct_map [of rec_NodeID "map_range ks (knownPeers m)"] by (auto intro: inj_on_subset)
  have mem: "dialable now m r \<and> fmlookup (knownPeers m) (rec_NodeID r) = Some r" if "r \<in> set ?c" for r
    using that known_invD(1) [OF assms(1)] by (auto simp: set_map_range)
  have rs: "rs = [] \<and> m' = m \<or> rs = take maxDialsPerTick (Shuffle draws ?c) \<and>
      m' = m\<lparr>m_dialing := fold (\<lambda>r. fmupd (rec_NodeID r) True) rs (m_dialing m)\<rparr>"
    using assms(3) by (auto simp: tryDiscoveryDials_def Let_def fold_dialing split: if_splits)
  have sub: "set rs \<subseteq> set ?c" using rs by (auto dest!: set_take_subset_elem)
  show "length rs \<le> maxDialsPerTick" using rs by auto
  have "distinct rs" using rs d(1) by auto
  then show "distinct (map rec_NodeID rs)" using sub d(2) by (simp add: distinct_map inj_on_subset)
  show "\<forall>r \<in> set rs. dialable now m r \<and> fmlookup (knownPeers m) (rec_NodeID r) = Some r" using sub mem by blast
  show "m' = m\<lparr>m_dialing := m_dialing m'\<rparr>" using rs by auto
  show "map_flag (m_dialing m') k \<longleftrightarrow> k \<in> rec_NodeID ` set rs \<or> map_flag (m_dialing m) k"
    using rs by (auto simp: map_flag_fold)
qed

lemma dialed_not_dialing:
  "r \<in> set (fst (tryDiscoveryDials ks draws now m)) \<Longrightarrow> \<not> map_flag (m_dialing m) (rec_NodeID r)"
  by (auto simp: tryDiscoveryDials_def Let_def dialable_def split: if_splits dest!: set_take_subset_elem)

lemma saveKnownPeer_frame [frame_simps]:
  "knownPeers (saveKnownPeer cd r m) = knownPeers m" "m_dialing (saveKnownPeer cd r m) = m_dialing m"
  "m_peers (saveKnownPeer cd r m) = m_peers m" "m_cfg (saveKnownPeer cd r m) = m_cfg m"
  "m_id (saveKnownPeer cd r m) = m_id m" "m_saves (saveKnownPeer cd r m) = m_saves m"
  "m_hub (saveKnownPeer cd r m) = m_hub m"
  by (simp_all add: saveKnownPeer_def split: option.splits)

abbreviation dial_fails :: dial_round where
  "dial_fails \<equiv> \<lparr>dr_first = WakeWork, dr_dialed = False, dr_wait = WakeWork\<rparr>"

lemma dial_rounds_fail:
  "dial_rounds (min (2 ^ k) 30 * Second) (replicate n dial_fails) =
     (map (\<lambda>i. min (2 ^ (k + i)) 30 * Second) [0..<n], False)"
proof (induction n arbitrary: k)
  case (Suc n)
  have "min (min (2 ^ k) 30 * Second * 2) (30 * Second) = min (2 ^ Suc k) 30 * Second"
    by (auto simp: min_def Second_def)
  then have "dial_rounds (min (2 ^ k) 30 * Second) (replicate (Suc n) dial_fails) =
      (min (2 ^ k) 30 * Second # map (\<lambda>i. min (2 ^ (Suc k + i)) 30 * Second) [0..<n], False)"
    by (simp only: replicate_Suc dial_rounds.simps Suc.IH) simp
  also have "min (2 ^ k) 30 * Second # map (\<lambda>i. min (2 ^ (Suc k + i)) 30 * Second) [0..<n] =
      map (\<lambda>i. min (2 ^ (k + i)) 30 * Second) (0 # map Suc [0..<n])"
    by simp
  also have "0 # map Suc [0..<n] = [0..<Suc n]" by (simp add: map_Suc_upt upt_conv_Cons del: upt_Suc)
  finally show ?case .
qed simp

text \<open>A list sent in a peer exchange names every node once.\<close>

lemma built_entries_distinct:
  assumes "known_inv cr (knownPeers m)" and "range_order ks (knownPeers m)"
  shows "distinct (map info_NodeId (buildPeerInfoList ks now to m))"
proof -
  let ?P = "\<lambda>r. \<not> (rec_NodeID r = to \<or> rec_NodeID r = NodeID (m_id m)) \<and>
    \<not> (\<not> rec_Reachable r \<or> rec_Addr r = [] \<or> isInvalidPeerAddr (rec_Addr r))"
  let ?s = "filter ?P (map_range ks (knownPeers m))"
  let ?f = "\<lambda>s. if rec_PublicKey s = [] then None else
    (case hex_DecodeString (rec_PublicKey s) of None \<Rightarrow> None
     | Some pubKey \<Rightarrow> if length pubKey \<noteq> PublicKeySize then None
         else Some \<lparr>info_NodeId = rec_NodeID s, info_Addr = rec_Addr s, info_Reachable = rec_Reachable s,
               info_Ed25519Pubkey = pubKey, info_LastSeen = word_of_int (rec_LastSeen s)\<rparr>)"
  have "subseq (map info_NodeId (List.map_filter ?f ?s)) (map rec_NodeID ?s)"
    by (rule map_filter_ids) (auto split: if_splits option.splits)
  then have sub: "subseq (map info_NodeId (List.map_filter ?f ?s)) (map rec_NodeID ?s)" .
  have "distinct (map rec_NodeID (map_range ks (knownPeers m)))"
    using map_range_ids [OF assms] assms(2) by (simp add: range_order_def)
  then have "distinct (map rec_NodeID ?s)" by (rule distinct_map_filter)
  with sub have d: "distinct (map info_NodeId (List.map_filter ?f ?s))" by (rule subseq_distinct)
  have "NodeID (m_id m) \<notin> set (map rec_NodeID ?s)" by auto
  then have "NodeID (m_id m) \<notin> set (map info_NodeId (List.map_filter ?f ?s))"
    using subseq_subset [OF sub] by blast
  with d show ?thesis unfolding buildPeerInfoList_def Let_def by auto
qed

section \<open>The store\<close>

text \<open>Every stored value decodes to a record of the node whose identifier is the key.\<close>

definition store_inv :: "PeerRecord codec \<Rightarrow> PeerStore \<Rightarrow> bool" where
  "store_inv cd st \<longleftrightarrow> (\<forall>k v r. fmlookup (st_data st) k = Some v \<longrightarrow> json_Unmarshal cd v = Some r \<longrightarrow>
     k = str_bytes (rec_NodeID r))"

lemma fold_upd_records:
  "fmlookup (fold (\<lambda>r. fmupd (rec_NodeID r) r) rs known) k =
     (case rev (filter (\<lambda>r. rec_NodeID r = k) rs) of [] \<Rightarrow> fmlookup known k | r # _ \<Rightarrow> Some r)"
  by (induction rs rule: rev_induct) auto

lemma load_stored:
  assumes "m_store m = Some st" and "st_ok st" and "store_inv cd st" and "range_order ks (st_data st)"
    and "fmlookup (st_data st) (str_bytes k) = Some v" and "json_Unmarshal cd v = Some r"
    and "rec_NodeID r = k" and "loadable cr r"
  shows "fmlookup (knownPeers (loadKnownPeers cr cd ks m)) k = Some r"
proof -
  let ?rs = "filter (\<lambda>r. rec_NodeID r = k) (filter (loadable cr)
    (List.map_filter (json_Unmarshal cd) (map_range ks (st_data st))))"
  have "str_bytes k \<in> set ks" using range_order_set [OF assms(4)] assms(5) by simp
  then have "v \<in> set (map_range ks (st_data st))" using assms(5) by (auto simp: set_map_range)
  then have r: "r \<in> set ?rs" using assms(6-8) by (force simp: List.map_filter_def)
  have only: "r' = r" if mem: "r' \<in> set ?rs" for r'
  proof -
    obtain k' v' where "fmlookup (st_data st) k' = Some v'" "json_Unmarshal cd v' = Some r'" "rec_NodeID r' = k"
      using mem by (auto simp: List.map_filter_def set_map_range)
    then show ?thesis using assms(3,5,6) unfolding store_inv_def by fastforce
  qed
  have "?rs \<noteq> []" using r by (metis empty_iff list.set(1))
  then obtain x xs where xs: "rev ?rs = x # xs" by (metis list.exhaust rev_is_Nil_conv)
  then have "x \<in> set ?rs" by (metis list.set_intros(1) set_rev)
  then have "(case rev ?rs of [] \<Rightarrow> fmlookup (knownPeers m) k | r # _ \<Rightarrow> Some r) = Some r"
    using only [of x] xs by simp
  then show ?thesis
    using assms(1,2) by (simp add: loadKnownPeers_def Let_def fold_upd_records)
qed

lemma saveKnownPeer_store:
  assumes "m_store m = Some st" and "st_ok st" and "json_Marshal cd r = Some v"
  shows "saveKnownPeer cd r m =
    m\<lparr>m_store := Some (st\<lparr>st_data := fmupd (str_bytes (rec_NodeID r)) v (st_data st)\<rparr>)\<rparr>"
  using assms by (simp add: saveKnownPeer_def)

lemma store_inv_save:
  assumes "store_inv cd st" and "codec_ok cd" and "json_Marshal cd r = Some v"
  shows "store_inv cd (st\<lparr>st_data := fmupd (str_bytes (rec_NodeID r)) v (st_data st)\<rparr>)"
  using assms codec_okD(5) [OF assms(2,3)] by (auto simp: store_inv_def split: if_splits)

section \<open>Properties\<close>

text \<open>
  C23. Merging received entries keeps the latest information: a node's record carries the latest of
  its old time stamp and those of the acceptable entries about it, and is either the old record or
  has the address, key and time stamp of one of these entries, whose key hashes to the node
  identifier; the failure counters that pace the dialing are never reset by received entries.
\<close>

theorem merge_keeps_latest:
  "(let known = knownPeers (n_mgr n); known' = knownPeers (n_mgr (mergeDiscoveredPeers cr infos n));
        ok = filter (acceptable cr (NodeID (m_id (n_mgr n)))) infos
    in seen_of known' k = fold (\<lambda>info. latest (safeLastSeen (info_LastSeen info)))
         (filter (\<lambda>info. info_NodeId info = k) ok) (seen_of known k) \<and>
       (case fmlookup known' k of
          None \<Rightarrow> fmlookup known k = None
        | Some r \<Rightarrow>
            (fmlookup known k = Some r \<or>
             (\<exists>info. info \<in> set ok \<and> node_id_of cr (info_Ed25519Pubkey info) = k \<and>
                rec_Addr r = info_Addr info \<and> rec_PublicKey r = hex_EncodeToString (info_Ed25519Pubkey info) \<and>
                rec_LastSeen r = safeLastSeen (info_LastSeen info))) \<and>
            (case fmlookup known k of None \<Rightarrow> True
             | Some old \<Rightarrow> rec_FailCount r = rec_FailCount old \<and> rec_LastFail r = rec_LastFail old)))"
proof -
  let ?ok = "filter (acceptable cr (NodeID (m_id (n_mgr n)))) infos"
  let ?known' = "fst (fold merge_entry ?ok (knownPeers (n_mgr n), []))"
  have seen: "seen_of ?known' k = fold (\<lambda>info. latest (safeLastSeen (info_LastSeen info)))
      (filter (\<lambda>info. info_NodeId info = k) ?ok) (seen_of (knownPeers (n_mgr n)) k)"
    using merge_fold_seen [of ?ok "(knownPeers (n_mgr n), [])" k] by simp
  have keep: "seen_of ?known' k \<noteq> None" if "seen_of (knownPeers (n_mgr n)) k \<noteq> None"
    unfolding seen by (rule latest_keeps [OF that])
  have origin: "fmlookup (knownPeers (n_mgr n)) k = Some r \<or>
      (\<exists>info. info \<in> set ?ok \<and> node_id_of cr (info_Ed25519Pubkey info) = k \<and> rec_Addr r = info_Addr info \<and>
         rec_PublicKey r = hex_EncodeToString (info_Ed25519Pubkey info) \<and>
         rec_LastSeen r = safeLastSeen (info_LastSeen info))" if "fmlookup ?known' k = Some r" for r
    using merge_fold_origin [OF that] acceptable_bound(1) by auto
  show ?thesis
  proof (cases "fmlookup ?known' k")
    case None
    then have "fmlookup (knownPeers (n_mgr n)) k = None" using keep
      by (cases "fmlookup (knownPeers (n_mgr n)) k") (auto simp: seen_of_def)
    then show ?thesis unfolding mergeDiscoveredPeers_known Let_def using seen None by simp
  next
    case (Some r)
    have "case fmlookup (knownPeers (n_mgr n)) k of None \<Rightarrow> True
        | Some old \<Rightarrow> rec_FailCount r = rec_FailCount old \<and> rec_LastFail r = rec_LastFail old"
      using merge_fold_fails [OF _ Some] by (simp split: option.splits)
    then show ?thesis
      unfolding mergeDiscoveredPeers_known Let_def Some option.case using seen origin [OF Some] by blast
  qed
qed

text \<open>
  C24. Peer exchange works between honest nodes: every entry a node sends passes the receiver's
  checks, so that after the merge the receiver knows each of those nodes with a time stamp at least
  as recent, with the sent address if it did not know the node before, and has a key for it.
\<close>

theorem exchange_spreads_peers:
  assumes "known_inv cr (knownPeers m)" and "range_order ks (knownPeers m)" and "identity_ok cr (m_id m)"
    and "advertiseAddr m = [] \<or> \<not> isInvalidPeerAddr (advertiseAddr m)"
    and "NodeID (m_id (n_mgr n)) \<noteq> NodeID (m_id m)"
    and "info \<in> set (buildPeerInfoList ks now (NodeID (m_id (n_mgr n))) m)"
    and "n' = mergeDiscoveredPeers cr (buildPeerInfoList ks now (NodeID (m_id (n_mgr n))) m) n"
  shows "\<exists>r. fmlookup (knownPeers (n_mgr n')) (info_NodeId info) = Some r \<and>
    safeLastSeen (info_LastSeen info) \<le> rec_LastSeen r \<and>
    (fmlookup (knownPeers (n_mgr n)) (info_NodeId info) = None \<longrightarrow> rec_Addr r = info_Addr info) \<and>
    kr_Lookup (info_NodeId info) (eng_KeyRing (n_eng n')) \<noteq> None"
proof -
  let ?infos = "buildPeerInfoList ks now (NodeID (m_id (n_mgr n))) m" and ?k = "info_NodeId info"
  have ok: "filter (acceptable cr (NodeID (m_id (n_mgr n)))) ?infos = ?infos"
    using built_entries_acceptable [OF assms(1,3) assms(5) [symmetric] assms(4)] by (intro filter_True) blast
  have known: "knownPeers (n_mgr n') = fst (fold merge_entry ?infos (knownPeers (n_mgr n), []))"
    unfolding assms(7) mergeDiscoveredPeers_known ok ..
  have dist: "distinct (map info_NodeId ?infos)" by (rule built_entries_distinct [OF assms(1,2)])
  have one: "filter (\<lambda>i. info_NodeId i = ?k) ?infos = [info]"
    using distinct_filter_unique [OF dist assms(6)] .
  have seen: "seen_of (knownPeers (n_mgr n')) ?k =
      latest (safeLastSeen (info_LastSeen info)) (seen_of (knownPeers (n_mgr n)) ?k)"
    unfolding known merge_fold_seen one by simp
  then obtain r where r: "fmlookup (knownPeers (n_mgr n')) ?k = Some r"
    "safeLastSeen (info_LastSeen info) \<le> rec_LastSeen r"
    by (cases "fmlookup (knownPeers (n_mgr n')) ?k"; cases "seen_of (knownPeers (n_mgr n)) ?k")
      (auto simp: seen_of_def latest_def)
  have "rec_Addr r = info_Addr info" if unknown: "fmlookup (knownPeers (n_mgr n)) ?k = None"
  proof -
    obtain i where "i \<in> set ?infos" "info_NodeId i = ?k" "rec_Addr r = info_Addr i"
      using merge_fold_origin [OF r(1) [unfolded known]] unknown by auto
    moreover from this have "i \<in> set (filter (\<lambda>i. info_NodeId i = ?k) ?infos)" by simp
    then have "i = info" unfolding one by simp
    ultimately show ?thesis by simp
  qed
  moreover have "kr_Lookup ?k (eng_KeyRing (n_eng n')) \<noteq> None"
    unfolding assms(7) mergeDiscoveredPeers_keyring ok by (rule keyring_after_merge [OF assms(6)])
  ultimately show ?thesis using r by (intro exI [of _ r]) simp
qed

text \<open>
  C25. A discovery tick dials at most three peers, each only once, and each a known peer that is
  reachable at a published address, is not the node itself, neither connected nor being dialed nor a
  bootstrap address, and past its backoff; below the connection limit it dials as many of these as
  the cap allows. Nothing but the dialing marks changes, and no later tick picks a marked peer.
\<close>

theorem discovery_dials_bounded:
  assumes "known_inv cr (knownPeers m)" and "range_order ks (knownPeers m)"
    and "tryDiscoveryDials ks draws now m = (rs, m')"
  shows "length rs \<le> 3 \<and> distinct (map rec_NodeID rs) \<and>
    (\<forall>r \<in> set rs. fmlookup (knownPeers m) (rec_NodeID r) = Some r \<and> rec_NodeID r \<noteq> NodeID (m_id m) \<and>
       rec_Reachable r \<and> rec_Addr r \<noteq> [] \<and> fmlookup (m_peers m) (rec_NodeID r) = None \<and>
       \<not> map_flag (m_dialing m) (rec_NodeID r) \<and> \<not> map_flag (bootstrapAddrs m) (rec_Addr r) \<and>
       rec_LastFail r * Second + backoff r \<le> max now (rec_LastFail r * Second)) \<and>
    (\<not> (cfg_MaxPeers (m_cfg m) > 0 \<and> int (PeerCount m) \<ge> cfg_MaxPeers (m_cfg m)) \<longrightarrow>
       length rs = min 3 (length (filter (dialable now m) (map_range ks (knownPeers m))))) \<and>
    m' = m\<lparr>m_dialing := m_dialing m'\<rparr> \<and>
    (\<forall>r \<in> set rs. \<forall>ks' draws' now'. rec_NodeID r \<notin> rec_NodeID ` set (fst (tryDiscoveryDials ks' draws' now' m')))"
proof -
  note f = tryDiscoveryDials_facts [OF assms]
  have due: "rec_LastFail r * Second + backoff r \<le> max now (rec_LastFail r * Second)" if "dialable now m r" for r
    using that by (auto simp: dialable_def backoff_def)
  have sel: "\<forall>r \<in> set rs. fmlookup (knownPeers m) (rec_NodeID r) = Some r \<and> rec_NodeID r \<noteq> NodeID (m_id m) \<and>
       rec_Reachable r \<and> rec_Addr r \<noteq> [] \<and> fmlookup (m_peers m) (rec_NodeID r) = None \<and>
       \<not> map_flag (m_dialing m) (rec_NodeID r) \<and> \<not> map_flag (bootstrapAddrs m) (rec_Addr r) \<and>
       rec_LastFail r * Second + backoff r \<le> max now (rec_LastFail r * Second)"
    using f(3) due by (auto simp: dialable_def)
  have count: "length rs = min 3 (length (filter (dialable now m) (map_range ks (knownPeers m))))"
    if "\<not> (cfg_MaxPeers (m_cfg m) > 0 \<and> int (PeerCount m) \<ge> cfg_MaxPeers (m_cfg m))"
    using that assms(3) by (auto simp: tryDiscoveryDials_def Let_def PeerCount_def maxDialsPerTick_def split: if_splits)
  have later: "rec_NodeID r \<notin> rec_NodeID ` set (fst (tryDiscoveryDials ks' draws' now' m'))"
    if "r \<in> set rs" for r ks' draws' now'
  proof
    assume "rec_NodeID r \<in> rec_NodeID ` set (fst (tryDiscoveryDials ks' draws' now' m'))"
    then obtain r' where r': "r' \<in> set (fst (tryDiscoveryDials ks' draws' now' m'))" "rec_NodeID r' = rec_NodeID r"
      by auto
    from dialed_not_dialing [OF r'(1)] r'(2) f(5) [of "rec_NodeID r"] that show False by simp
  qed
  show ?thesis using f(1,2,4) sel count later by (simp add: maxDialsPerTick_def)
qed

text \<open>
  The two backoff schedules agree: the wait of a bootstrap connection after its \<open>i\<close>-th failure
  in a row is the backoff of a discovered peer with \<open>i\<close> failures, one second doubled up to thirty.
\<close>

theorem backoff_schedules_agree:
  "dialWithBackoff (replicate n dial_fails) = (map (\<lambda>i. backoff (r\<lparr>rec_FailCount := int i + 1\<rparr>)) [0..<n], False)"
  unfolding dialWithBackoff_def using dial_rounds_fail [of 0 n] by (simp add: backoff_def)

text \<open>
  A failed dial of a known peer is counted, clears the dialing mark and keeps the peer out of
  the discovery ticks until the backoff of its failures has passed since the second of the failure.
\<close>

theorem failed_dial_backs_off:
  assumes "known_inv cr (knownPeers m)" and "fmlookup (knownPeers m) (rec_NodeID r) = Some known"
    and "0 \<le> rec_FailCount known" and "range_order ks (knownPeers (dial_finished cd True now r m))"
    and "now' < Unix now * Second + min (2 ^ nat (rec_FailCount known)) 30 * Second"
  shows "rec_NodeID r \<notin> rec_NodeID ` set (fst (tryDiscoveryDials ks draws now' (dial_finished cd True now r m))) \<and>
    \<not> map_flag (m_dialing (dial_finished cd True now r m)) (rec_NodeID r) \<and>
    fmlookup (knownPeers (dial_finished cd True now r m)) (rec_NodeID r) =
      Some (known\<lparr>rec_FailCount := rec_FailCount known + 1, rec_LastFail := Unix now\<rparr>)"
proof -
  let ?m = "dial_finished cd True now r m"
  let ?known = "known\<lparr>rec_FailCount := rec_FailCount known + 1, rec_LastFail := Unix now\<rparr>"
  have kp: "knownPeers ?m = fmupd (rec_NodeID r) ?known (knownPeers m)"
    using assms(2) by (simp add: dial_finished_def Let_def saveKnownPeer_frame)
  have "known_inv cr (knownPeers ?m)"
    unfolding kp using known_invD [OF assms(1,2)] assms(1)
    by (intro known_inv_upd) (simp_all add: record_bound_def)
  from tryDiscoveryDials_facts(3) [OF this assms(4) surjective_pairing]
  have sel: "\<forall>x \<in> set (fst (tryDiscoveryDials ks draws now' ?m)). dialable now' ?m x \<and>
      fmlookup (knownPeers ?m) (rec_NodeID x) = Some x" .
  have "\<not> dialable now' ?m ?known" using assms(3,5) by (simp add: dialable_def backoff_def)
  then have "rec_NodeID r \<notin> rec_NodeID ` set (fst (tryDiscoveryDials ks draws now' ?m))"
    using sel unfolding kp by (auto simp: image_iff)
  moreover have "\<not> map_flag (m_dialing ?m) (rec_NodeID r)" by (simp add: dial_finished_def Let_def map_flag_def)
  ultimately show ?thesis unfolding kp by simp
qed

text \<open>
  C27. Known peers survive a restart: a record that was saved is in the table of a manager that
  starts with the same store, unchanged, if it passes the checks made on loading.
\<close>

theorem known_peer_survives_restart:
  assumes "codec_ok cd" and "m_store m = Some st" and "st_ok st" and "store_inv cd st"
    and "json_Marshal cd r = Some v" and "loadable cr r"
    and "m_store m' = m_store (saveKnownPeer cd r m)"
    and "range_order ks (st_data (the (m_store m')))"
  shows "fmlookup (knownPeers (loadKnownPeers cr cd ks m')) (rec_NodeID r) = Some r"
proof -
  let ?st = "st\<lparr>st_data := fmupd (str_bytes (rec_NodeID r)) v (st_data st)\<rparr>"
  have m': "m_store m' = Some ?st" using assms(7) saveKnownPeer_store [OF assms(2,3,5)] by simp
  show ?thesis
    using assms(3,6,8) m' store_inv_save [OF assms(4,1,5)] codec_okD(5) [OF assms(1,5)]
    by (intro load_stored [OF m', where v = v]) simp_all
qed

text \<open>
  C34. The goroutines that persist records are not ordered. When two exchanges bring news of the
  same node, the table holds the later record, but if the second goroutine runs before the first,
  the store is left with the earlier one.
\<close>

theorem stale_record_can_be_persisted:
  assumes "codec_ok cd" and "acceptable cr (NodeID (m_id (n_mgr n))) i1" and "acceptable cr (NodeID (m_id (n_mgr n))) i2"
    and "info_NodeId i1 = k" and "info_NodeId i2 = k" and "fmlookup (knownPeers (n_mgr n)) k = None"
    and "safeLastSeen (info_LastSeen i1) < safeLastSeen (info_LastSeen i2)"
    and "m_store (n_mgr n) = Some st" and "st_ok st" and "m_saves (n_mgr n) = []"
    and "m = n_mgr (mergeDiscoveredPeers cr [i2] (mergeDiscoveredPeers cr [i1] n))"
    and "\<forall>r \<in> set (concat (m_saves m)). json_Marshal cd r \<noteq> None"
  shows "\<exists>r1 r2 v. fmlookup (knownPeers m) k = Some r2 \<and> rec_Addr r2 = info_Addr i2 \<and>
    rec_LastSeen r2 = safeLastSeen (info_LastSeen i2) \<and>
    m_saves (run_save cd 0 (run_save cd 1 m)) = [[], []] \<and>
    fmlookup (st_data (the (m_store (run_save cd 0 (run_save cd 1 m))))) (str_bytes k) = Some v \<and>
    json_Unmarshal cd v = Some r1 \<and> rec_Addr r1 = info_Addr i1 \<and>
    rec_LastSeen r1 = safeLastSeen (info_LastSeen i1)"
proof -
  define r1 where "r1 = \<lparr>rec_NodeID = k, rec_Addr = info_Addr i1, rec_Reachable = info_Reachable i1,
    rec_PublicKey = hex_EncodeToString (info_Ed25519Pubkey i1), rec_LastSeen = safeLastSeen (info_LastSeen i1),
    rec_FailCount = 0, rec_LastFail = 0\<rparr>"
  define r2 where "r2 = r1\<lparr>rec_Addr := info_Addr i2, rec_Reachable := info_Reachable i2,
    rec_PublicKey := hex_EncodeToString (info_Ed25519Pubkey i2), rec_LastSeen := safeLastSeen (info_LastSeen i2)\<rparr>"
  have e1: "merge_entry i1 (knownPeers (n_mgr n), []) = (fmupd k r1 (knownPeers (n_mgr n)), [r1])"
    using assms(4,6) by (simp add: merge_entry_def Let_def r1_def)
  have e2: "merge_entry i2 (fmupd k r1 (knownPeers (n_mgr n)), []) =
      (fmupd k r2 (fmupd k r1 (knownPeers (n_mgr n))), [r2])"
    using assms(5,7) by (simp add: merge_entry_def Let_def r2_def r1_def)
  have m: "fmlookup (knownPeers m) k = Some r2" "m_saves m = [[r1], [r2]]" "m_store m = Some st"
    unfolding assms(11) using assms(2,3,8,10) e1 e2 by (simp_all add: mergeDiscoveredPeers_def Let_def)
  obtain v1 v2 where v: "json_Marshal cd r1 = Some v1" "json_Marshal cd r2 = Some v2" using assms(12) m(2) by auto
  have id: "rec_NodeID r1 = k" "rec_NodeID r2 = k" by (simp_all add: r1_def r2_def)
  have "run_save cd 0 (run_save cd 1 m) = m\<lparr>m_saves := [[], []],
      m_store := Some (st\<lparr>st_data := fmupd (str_bytes k) v1 (fmupd (str_bytes k) v2 (st_data st))\<rparr>)\<rparr>"
    using m v id assms(9) by (simp add: run_save_def saveKnownPeer_def)
  then show ?thesis using m(1) codec_okD(5) [OF assms(1) v(1)]
    by (intro exI [of _ r1] exI [of _ r2] exI [of _ v1]) (simp add: r1_def r2_def)
qed

section \<open>Witnesses\<close>

definition demo_record :: "byte \<Rightarrow> int \<Rightarrow> int \<Rightarrow> PeerRecord" where
  "demo_record x seen fails = \<lparr>rec_NodeID = NodeID (demo_id x), rec_Addr = ''h:1'', rec_Reachable = True,
     rec_PublicKey = hex_EncodeToString (replicate 32 x), rec_LastSeen = seen, rec_FailCount = fails,
     rec_LastFail = 0\<rparr>"

definition demo_info :: "byte \<Rightarrow> u64 \<Rightarrow> PeerInfo" where
  "demo_info x seen = \<lparr>info_NodeId = NodeID (demo_id x), info_Addr = ''h:1'', info_Reachable = True,
     info_Ed25519Pubkey = replicate 32 x, info_LastSeen = seen\<rparr>"

definition demo_mgr :: "byte \<Rightarrow> PeerRecord list \<Rightarrow> nat Manager" where
  "demo_mgr x rs = \<lparr>m_cfg = \<lparr>cfg_Listen = [], cfg_AdvertiseAddr = [], cfg_Bootstrap = [], cfg_MaxPeers = 2,
       cfg_Tags = []\<rparr>, m_id = demo_id x, m_hub = SetRemoteSend (NewHub ''n''), m_noiseKey = ([], []),
     m_store = Some \<lparr>st_data = fmempty, st_ok = True\<rparr>, m_peers = fmempty,
     knownPeers = fold (\<lambda>r. fmupd (rec_NodeID r) r) rs fmempty, m_dialing = fmempty,
     bootstrapAddrs = fmempty, m_listener = None, listenAddr = [], m_done = False, peerIdleTimeout = 0,
     peerKeepaliveInterval = 0, peerWriteTimeout = 0, m_saves = []\<rparr>"

definition demo_node :: "byte \<Rightarrow> PeerRecord list \<Rightarrow> nat Node" where
  "demo_node x rs = \<lparr>n_mgr = demo_mgr x rs, n_eng = NewEngine (NodeID (demo_id x)) peerHandles\<rparr>"

definition demo_json :: "PeerRecord \<Rightarrow> PeerRecord \<Rightarrow> PeerRecord codec" where
  "demo_json r1 r2 = \<lparr>env_Marshal = (\<lambda>_. None), env_Unmarshal = (\<lambda>_. None), hello_Marshal = (\<lambda>_. None),
     hello_Unmarshal = (\<lambda>_. None), chat_Marshal = (\<lambda>_. None), chat_Unmarshal = (\<lambda>_. None),
     px_Marshal = (\<lambda>_. None), px_Unmarshal = (\<lambda>_. None),
     json_Marshal = (\<lambda>r. if r = r1 then Some [1] else if r = r2 then Some [2] else None),
     json_Unmarshal = (\<lambda>b. if b = [1] then Some r1 else if b = [2] then Some r2 else None)\<rparr>"

lemma demo_json_ok: "codec_ok (demo_json r1 r2)"
  by (simp add: codec_ok_def demo_json_def)

lemma demo_ids:
  "NodeID (demo_id x) = NodeID (demo_id y) \<longleftrightarrow> x = y"
  "node_id_of demo_crypto (replicate 32 x) = NodeID (demo_id x)"
  "hex_EncodeToString (sha256 demo_crypto (replicate 32 x)) = NodeID (demo_id x)"
  "NodeID (demo_id x) \<noteq> []"
proof -
  have id: "NodeID (demo_id x) = hex_EncodeToString (replicate 32 x)" for x
    by (simp add: demo_id_def fromKeyPair_def demo_crypto_def)
  show "NodeID (demo_id x) = NodeID (demo_id y) \<longleftrightarrow> x = y"
    unfolding id by (auto simp: replicate_eq_replicate)
  show "node_id_of demo_crypto (replicate 32 x) = NodeID (demo_id x)"
    "hex_EncodeToString (sha256 demo_crypto (replicate 32 x)) = NodeID (demo_id x)"
    unfolding id by (simp_all add: node_id_of_def demo_crypto_def)
  have "length (NodeID (demo_id x)) = 64" unfolding id by simp
  then show "NodeID (demo_id x) \<noteq> []" by auto
qed

lemma demo_addr: "\<not> isInvalidPeerAddr ''h:1''"
  by code_simp

lemma demo_record_bound: "record_bound demo_crypto (demo_record x seen fails)"
  by (rule record_boundI [of _ "replicate 32 x"]) (simp_all add: demo_record_def demo_ids PublicKeySize_def)

lemma demo_known:
  "knownPeers (demo_mgr x [demo_record y seen fails]) = fmupd (NodeID (demo_id y)) (demo_record y seen fails) fmempty"
  "known_inv demo_crypto (fmupd (NodeID (demo_id y)) (demo_record y seen fails) fmempty)"
  "range_order [NodeID (demo_id y)] (fmupd (NodeID (demo_id y)) (demo_record y seen fails) fmempty)"
  using demo_record_bound [of y seen fails]
  by (simp_all add: demo_mgr_def known_inv_def demo_record_def range_order_def)

lemma demo_hex [simp]: "hex_EncodeToString (replicate 32 x) \<noteq> []"
  by (metis hex_roundtrip hex_DecodeString.simps(1) option.inject replicate_eq_replicate replicate_empty zero_neq_numeral)

lemma demo_mgr_sel:
  "m_id (demo_mgr x rs) = demo_id x" "advertiseAddr (demo_mgr x rs) = []" "m_peers (demo_mgr x rs) = fmempty"
  "m_dialing (demo_mgr x rs) = fmempty" "bootstrapAddrs (demo_mgr x rs) = fmempty"
  "cfg_MaxPeers (m_cfg (demo_mgr x rs)) = 2" "m_saves (demo_mgr x rs) = []"
  "m_store (demo_mgr x rs) = Some \<lparr>st_data = fmempty, st_ok = True\<rparr>" "n_mgr (demo_node x rs) = demo_mgr x rs"
  by (simp_all add: demo_mgr_def demo_node_def advertiseAddr_def)

lemma demo_built:
  "buildPeerInfoList [NodeID (demo_id 2)] 0 (NodeID (demo_id 3)) (demo_mgr 1 [demo_record 2 5 0]) = [demo_info 2 5]"
  unfolding buildPeerInfoList_def demo_mgr_sel demo_known(1)
  by (simp add: demo_record_def demo_info_def demo_ids demo_addr PublicKeySize_def List.map_filter_def)

theorem exchange_spreads_peers_witness:
  "\<exists>r. fmlookup (knownPeers (n_mgr (mergeDiscoveredPeers demo_crypto (buildPeerInfoList [NodeID (demo_id 2)] 0
      (NodeID (demo_id 3)) (demo_mgr 1 [demo_record 2 5 0])) (demo_node 3 [])))) (NodeID (demo_id 2)) = Some r \<and>
     5 \<le> rec_LastSeen r"
proof -
  have id: "NodeID (m_id (n_mgr (demo_node 3 []))) = NodeID (demo_id 3)" by (simp add: demo_mgr_sel)
  have ex: "demo_info 2 5 \<in> set (buildPeerInfoList [NodeID (demo_id 2)] 0 (NodeID (m_id (n_mgr (demo_node 3 []))))
      (demo_mgr 1 [demo_record 2 5 0]))" unfolding id demo_built by simp
  have "known_inv demo_crypto (knownPeers (demo_mgr 1 [demo_record 2 5 0]))"
    "range_order [NodeID (demo_id 2)] (knownPeers (demo_mgr 1 [demo_record 2 5 0]))"
    unfolding demo_known(1) by (rule demo_known(2), rule demo_known(3))
  moreover have "identity_ok demo_crypto (m_id (demo_mgr 1 [demo_record 2 5 0]))"
    by (simp add: demo_mgr_sel demo_id_ok)
  moreover have "NodeID (m_id (n_mgr (demo_node 3 []))) \<noteq> NodeID (m_id (demo_mgr 1 [demo_record 2 5 0]))"
    by (simp add: demo_mgr_sel demo_ids)
  ultimately have "\<exists>r. fmlookup (knownPeers (n_mgr (mergeDiscoveredPeers demo_crypto (buildPeerInfoList
      [NodeID (demo_id 2)] 0 (NodeID (m_id (n_mgr (demo_node 3 [])))) (demo_mgr 1 [demo_record 2 5 0]))
      (demo_node 3 [])))) (info_NodeId (demo_info 2 5)) = Some r \<and>
      safeLastSeen (info_LastSeen (demo_info 2 5)) \<le> rec_LastSeen r"
    using exchange_spreads_peers [OF _ _ _ _ _ ex refl, of demo_crypto] demo_mgr_sel(2) by blast
  then show ?thesis unfolding id by (simp add: demo_info_def safeLastSeen_def MaxInt64_def)
qed

lemma demo_dialable: "dialable now (demo_mgr 1 rs) (demo_record 2 5 0)"
  by (simp add: dialable_def demo_mgr_sel demo_record_def demo_ids map_flag_def)

lemma demo_tick:
  "\<exists>m'. tryDiscoveryDials [NodeID (demo_id 2)] (\<lambda>_. 0) 9 (demo_mgr 1 [demo_record 2 5 0]) = ([demo_record 2 5 0], m')"
  unfolding tryDiscoveryDials_def demo_known(1) demo_mgr_sel
  by (simp add: demo_dialable maxDialsPerTick_def Shuffle_def Let_def fcard.rep_eq)

theorem discovery_dials_bounded_witness:
  "\<exists>m'. tryDiscoveryDials [NodeID (demo_id 2)] (\<lambda>_. 0) 9 (demo_mgr 1 [demo_record 2 5 0]) = ([demo_record 2 5 0], m') \<and>
     fst (tryDiscoveryDials [NodeID (demo_id 2)] (\<lambda>_. 0) 10 m') \<noteq> [demo_record 2 5 0]"
proof -
  obtain m' where m': "tryDiscoveryDials [NodeID (demo_id 2)] (\<lambda>_. 0) 9 (demo_mgr 1 [demo_record 2 5 0]) =
      ([demo_record 2 5 0], m')" using demo_tick by blast
  have "known_inv demo_crypto (knownPeers (demo_mgr 1 [demo_record 2 5 0]))"
    "range_order [NodeID (demo_id 2)] (knownPeers (demo_mgr 1 [demo_record 2 5 0]))"
    unfolding demo_known(1) by (rule demo_known(2), rule demo_known(3))
  from discovery_dials_bounded [OF this m']
  have "rec_NodeID (demo_record 2 5 0) \<notin> rec_NodeID ` set (fst (tryDiscoveryDials [NodeID (demo_id 2)] (\<lambda>_. 0) 10 m'))"
    by simp
  then show ?thesis using m' by (intro exI [of _ m']) auto
qed

theorem failed_dial_backs_off_witness:
  "rec_NodeID (demo_record 2 5 3) \<notin> rec_NodeID ` set (fst (tryDiscoveryDials [NodeID (demo_id 2)] (\<lambda>_. 0) (7 * Second)
     (dial_finished (demo_json (demo_record 2 5 3) (demo_record 2 5 3)) True 0 (demo_record 2 5 3)
       (demo_mgr 1 [demo_record 2 5 3]))))"
proof -
  let ?r = "demo_record 2 5 3" let ?cd = "demo_json ?r ?r"
  let ?m = "demo_mgr 1 [?r]"
  have id: "rec_NodeID ?r = NodeID (demo_id 2)" by (simp add: demo_record_def)
  have l: "fmlookup (knownPeers ?m) (rec_NodeID ?r) = Some ?r" unfolding demo_known(1) id by simp
  have k: "known_inv demo_crypto (knownPeers ?m)" unfolding demo_known(1) by (rule demo_known(2))
  have "fmdom (knownPeers (dial_finished ?cd True 0 ?r ?m)) = {|NodeID (demo_id 2)|}"
    using l by (simp add: dial_finished_def Let_def saveKnownPeer_frame demo_known(1) id)
  then have o: "range_order [NodeID (demo_id 2)] (knownPeers (dial_finished ?cd True 0 ?r ?m))"
    by (simp add: range_order_def)
  have "7 * Second < Unix 0 * Second + min (2 ^ nat (rec_FailCount ?r)) 30 * Second" "0 \<le> rec_FailCount ?r"
    by (simp_all add: Unix_def demo_record_def Second_def)
  with failed_dial_backs_off [OF k l _ o] show ?thesis by blast
qed

theorem known_peer_survives_restart_witness:
  "fmlookup (knownPeers (loadKnownPeers demo_crypto (demo_json (demo_record 2 5 0) (demo_record 2 5 0))
      [str_bytes (NodeID (demo_id 2))]
      (saveKnownPeer (demo_json (demo_record 2 5 0) (demo_record 2 5 0)) (demo_record 2 5 0) (demo_mgr 1 []))))
    (NodeID (demo_id 2)) = Some (demo_record 2 5 0)"
proof -
  let ?r = "demo_record 2 5 0" let ?cd = "demo_json ?r ?r" let ?m = "demo_mgr 1 []"
  have j: "json_Marshal ?cd ?r = Some [1]" by (simp add: demo_json_def)
  have id: "rec_NodeID ?r = NodeID (demo_id 2)" by (simp add: demo_record_def)
  have "loadable demo_crypto ?r"
    by (simp add: loadable_def demo_record_def demo_ids demo_addr PublicKeySize_def)
  moreover have "store_inv ?cd \<lparr>st_data = fmempty, st_ok = True\<rparr>" by (simp add: store_inv_def)
  moreover have "range_order [str_bytes (NodeID (demo_id 2))] (st_data (the (m_store (saveKnownPeer ?cd ?r ?m))))"
    using j by (simp add: saveKnownPeer_def demo_mgr_sel range_order_def id)
  ultimately show ?thesis
    using known_peer_survives_restart [OF demo_json_ok demo_mgr_sel(8) _ _ j _ refl] unfolding id by simp
qed

theorem stale_record_can_be_persisted_witness:
  "\<exists>r v. fmlookup (st_data (the (m_store (run_save (demo_json (demo_record 2 5 0) (demo_record 2 6 0)) 0
       (run_save (demo_json (demo_record 2 5 0) (demo_record 2 6 0)) 1
         (n_mgr (mergeDiscoveredPeers demo_crypto [demo_info 2 6]
            (mergeDiscoveredPeers demo_crypto [demo_info 2 5] (demo_node 1 []))))))))) (str_bytes (NodeID (demo_id 2))) = Some v \<and>
     json_Unmarshal (demo_json (demo_record 2 5 0) (demo_record 2 6 0)) v = Some r \<and> rec_LastSeen r = 5"
proof -
  let ?cd = "demo_json (demo_record 2 5 0) (demo_record 2 6 0)" and ?n = "demo_node 1 []"
  let ?m = "n_mgr (mergeDiscoveredPeers demo_crypto [demo_info 2 6] (mergeDiscoveredPeers demo_crypto [demo_info 2 5] ?n))"
  have acc: "acceptable demo_crypto (NodeID (demo_id 1)) (demo_info 2 t)" for t
    by (simp add: acceptable_def demo_info_def demo_ids demo_addr PublicKeySize_def)
  have known: "knownPeers (demo_mgr 1 []) = fmempty" by (simp add: demo_mgr_def)
  have seen: "safeLastSeen 5 = 5" "safeLastSeen 6 = 6" by (simp_all add: safeLastSeen_def MaxInt64_def)
  have e1: "merge_entry (demo_info 2 5) (fmempty, []) =
      (fmupd (NodeID (demo_id 2)) (demo_record 2 5 0) fmempty, [demo_record 2 5 0])"
    by (simp add: merge_entry_def Let_def demo_info_def demo_record_def seen)
  have e2: "merge_entry (demo_info 2 6) (fmupd (NodeID (demo_id 2)) (demo_record 2 5 0) fmempty, []) =
      (fmupd (NodeID (demo_id 2)) (demo_record 2 6 0) (fmupd (NodeID (demo_id 2)) (demo_record 2 5 0) fmempty),
       [demo_record 2 6 0])"
    by (simp add: merge_entry_def Let_def demo_info_def demo_record_def seen)
  have "m_saves ?m = [[demo_record 2 5 0], [demo_record 2 6 0]]"
    using acc e1 e2 by (simp add: mergeDiscoveredPeers_def Let_def demo_mgr_sel known)
  then have j: "\<forall>r \<in> set (concat (m_saves ?m)). json_Marshal ?cd r \<noteq> None" by (simp add: demo_json_def)
  have "\<exists>r1 r2 v. fmlookup (knownPeers ?m) (NodeID (demo_id 2)) = Some r2 \<and> rec_Addr r2 = info_Addr (demo_info 2 6) \<and>
    rec_LastSeen r2 = safeLastSeen (info_LastSeen (demo_info 2 6)) \<and>
    m_saves (run_save ?cd 0 (run_save ?cd 1 ?m)) = [[], []] \<and>
    fmlookup (st_data (the (m_store (run_save ?cd 0 (run_save ?cd 1 ?m))))) (str_bytes (NodeID (demo_id 2))) = Some v \<and>
    json_Unmarshal ?cd v = Some r1 \<and> rec_Addr r1 = info_Addr (demo_info 2 5) \<and>
    rec_LastSeen r1 = safeLastSeen (info_LastSeen (demo_info 2 5))"
    by (rule stale_record_can_be_persisted [OF demo_json_ok _ _ _ _ _ _ _ _ _ refl j])
      (simp_all add: demo_mgr_sel acc known seen, simp_all add: demo_info_def seen)
  then show ?thesis by (auto simp: demo_info_def seen)
qed

end
