(* ===== verification/Config.thy ===== *)
theory Config
  imports GoStrings Logging Discovery
begin

text \<open>
  The configuration (\<^verbatim>\<open>internal/config/config.go\<close>) and the part of \<^verbatim>\<open>cmd/micelio/main.go\<close> that loads,
  overrides and validates it.

  What the operating system supplies is the record \<^verbatim>\<open>environ\<close>: the host name (empty when it cannot be
  found), the home directory, the environment variable \<^verbatim>\<open>MICELIO_LOG_LEVEL\<close> and the files. The TOML
  decoder is a parameter: it returns the configuration it was given with the fields of the document
  set, or an error. A validation error is a value that names the field and the reason.
\<close>

section \<open>Data\<close>

record LoggingConfig =
  lc_Level :: string
  lc_Format :: string

record NodeConfig =
  nc_Name :: string
  nc_Tags :: "string list"
  nc_DataDir :: string

record SSHConfig =
  sc_Listen :: string

record NetworkConfig =
  nw_Listen :: string
  nw_AdvertiseAddr :: string
  nw_Bootstrap :: "string list"
  nw_MaxPeers :: int
  nw_ExchangeInterval :: duration
  nw_DiscoveryInterval :: duration

record Config =
  cf_Node :: NodeConfig
  cf_SSH :: SSHConfig
  cf_Network :: NetworkConfig
  cf_Logging :: LoggingConfig

datatype file_read = FileAbsent | FileFails | FileData string

record environ =
  env_Hostname :: string
  env_HomeDir :: "string option"
  env_LogLevel :: string
  env_File :: "string \<Rightarrow> file_read"

datatype addr_error = AddrEmpty | AddrFormat | AddrNoPort | AddrNoHost | AddrWildcard

datatype config_error =
    ErrNetworkListen addr_error
  | ErrSSHListen addr_error
  | ErrBootstrap nat addr_error
  | ErrAdvertiseAddr addr_error
  | ErrMaxPeers int
  | ErrExchangeInterval int
  | ErrDiscoveryInterval int
  | ErrLogLevel string

datatype load_error = ErrReading | ErrParsing

section \<open>Loading\<close>

definition expandHome :: "environ \<Rightarrow> string \<Rightarrow> string" where
  "expandHome env path =
     (if HasPrefix path ''~/'' then
        (case env_HomeDir env of None \<Rightarrow> path | Some home \<Rightarrow> path_Join [home, drop 2 path])
      else path)"

definition Defaults :: "environ \<Rightarrow> Config" where
  "Defaults env =
     \<lparr>cf_Node = \<lparr>nc_Name = (if env_Hostname env = [] then ''micelio'' else env_Hostname env),
                 nc_Tags = [], nc_DataDir = ''~/.micelio''\<rparr>,
      cf_SSH = \<lparr>sc_Listen = ''0.0.0.0:2222''\<rparr>,
      cf_Network = \<lparr>nw_Listen = [], nw_AdvertiseAddr = [], nw_Bootstrap = [], nw_MaxPeers = 15,
                    nw_ExchangeInterval = 30 * Second, nw_DiscoveryInterval = 10 * Second\<rparr>,
      cf_Logging = \<lparr>lc_Level = [], lc_Format = []\<rparr>\<rparr>"

definition config_Load ::
  "(string \<Rightarrow> Config \<Rightarrow> Config option) \<Rightarrow> environ \<Rightarrow> string \<Rightarrow> load_error + Config" where
  "config_Load toml_Decode env path =
     (let cfg = Defaults env;
          file = (if path = [] then expandHome env ''~/.micelio/config.toml'' else path)
      in if path = [] \<and> env_File env file = FileAbsent then Inr cfg
         else
           (case env_File env file of
              FileData dat \<Rightarrow>
                (case toml_Decode dat cfg of None \<Rightarrow> Inl ErrParsing | Some cfg' \<Rightarrow> Inr cfg')
            | _ \<Rightarrow> Inl ErrReading))"

section \<open>Validation\<close>

definition validateListenAddr :: "string \<Rightarrow> addr_error option" where
  "validateListenAddr a =
     (let addr = TrimSpace a in
      if addr = [] then Some AddrEmpty
      else
        (case SplitHostPort addr of
           None \<Rightarrow> Some AddrFormat
         | Some (host, port) \<Rightarrow>
             if port = [] then Some AddrNoPort
             else if host = [] then Some AddrNoHost
             else None))"

definition validatePeerAddr :: "string \<Rightarrow> addr_error option" where
  "validatePeerAddr a =
     (let addr = TrimSpace a in
      if addr = [] then Some AddrEmpty
      else
        (case SplitHostPort addr of
           None \<Rightarrow> Some AddrFormat
         | Some (host, port) \<Rightarrow>
             if port = [] then Some AddrNoPort
             else if host = [] then Some AddrWildcard
             else
               (case ParseIP host of
                  None \<Rightarrow> None
                | Some ip \<Rightarrow> if IsUnspecified ip then Some AddrWildcard else None)))"

definition validateLogLevel :: "string \<Rightarrow> config_error option" where
  "validateLogLevel lvl =
     (let normalized = ToLower (TrimSpace lvl) in
      if normalized = [] then None
      else if normalized \<in> {''debug'', ''info'', ''warn'', ''warning'', ''error''} then None
      else Some (ErrLogLevel lvl))"

definition opt_list :: "'a option \<Rightarrow> 'a list" where
  "opt_list r = (case r of None \<Rightarrow> [] | Some e \<Rightarrow> [e])"

definition validateAddresses :: "Config \<Rightarrow> config_error list" where
  "validateAddresses c =
     (if nw_Listen (cf_Network c) \<noteq> []
      then opt_list (map_option ErrNetworkListen (validateListenAddr (nw_Listen (cf_Network c)))) else []) @
     (if sc_Listen (cf_SSH c) \<noteq> []
      then opt_list (map_option ErrSSHListen (validateListenAddr (sc_Listen (cf_SSH c)))) else []) @
     concat (map (\<lambda>(i, addr). opt_list (map_option (ErrBootstrap i) (validatePeerAddr addr)))
       (enumerate 0 (nw_Bootstrap (cf_Network c)))) @
     (if nw_AdvertiseAddr (cf_Network c) \<noteq> []
      then opt_list (map_option ErrAdvertiseAddr (validatePeerAddr (nw_AdvertiseAddr (cf_Network c)))) else [])"

definition validateNumericFields :: "Config \<Rightarrow> config_error list" where
  "validateNumericFields c =
     (let nw = cf_Network c in
      (if nw_MaxPeers nw < 0 then [ErrMaxPeers (nw_MaxPeers nw)] else []) @
      (if nw_ExchangeInterval nw < 0 then [ErrExchangeInterval (nw_ExchangeInterval nw)] else []) @
      (if nw_DiscoveryInterval nw < 0 then [ErrDiscoveryInterval (nw_DiscoveryInterval nw)] else []))"

text \<open>The result \<^verbatim>\<open>nil\<close> is the empty list.\<close>

definition Validate :: "Config \<Rightarrow> config_error list" where
  "Validate c =
     validateAddresses c @ validateNumericFields c @ opt_list (validateLogLevel (lc_Level (cf_Logging c)))"

section \<open>Start-up\<close>

record flags =
  fl_config :: string
  fl_dataDir :: string
  fl_sshListen :: string
  fl_name :: string
  fl_logLevel :: string

definition apply_flags :: "environ \<Rightarrow> flags \<Rightarrow> Config \<Rightarrow> Config" where
  "apply_flags env fl c0 =
     (let c1 = (if fl_dataDir fl \<noteq> [] then c0\<lparr>cf_Node := (cf_Node c0)\<lparr>nc_DataDir := fl_dataDir fl\<rparr>\<rparr> else c0);
          c2 = (if fl_sshListen fl \<noteq> [] then c1\<lparr>cf_SSH := (cf_SSH c1)\<lparr>sc_Listen := fl_sshListen fl\<rparr>\<rparr> else c1);
          c3 = (if fl_name fl \<noteq> [] then c2\<lparr>cf_Node := (cf_Node c2)\<lparr>nc_Name := fl_name fl\<rparr>\<rparr> else c2);
          c4 = (if fl_logLevel fl \<noteq> [] then c3\<lparr>cf_Logging := (cf_Logging c3)\<lparr>lc_Level := fl_logLevel fl\<rparr>\<rparr> else c3)
      in if lc_Level (cf_Logging c4) = [] \<and> env_LogLevel env \<noteq> []
         then c4\<lparr>cf_Logging := (cf_Logging c4)\<lparr>lc_Level := env_LogLevel env\<rparr>\<rparr> else c4)"

datatype start_error = FatalConfig load_error | FatalInvalid "config_error list"

text \<open>\<^verbatim>\<open>main\<close> up to the resolved data directory: the configuration and the state of the logger.\<close>

definition main_configure ::
  "(string \<Rightarrow> Config \<Rightarrow> Config option) \<Rightarrow> environ \<Rightarrow> flags \<Rightarrow> log_state \<Rightarrow> start_error + Config \<times> log_state" where
  "main_configure toml_Decode env fl lst =
     (case config_Load toml_Decode env (fl_config fl) of
        Inl e \<Rightarrow> Inl (FatalConfig e)
      | Inr c0 \<Rightarrow>
          (let c = apply_flags env fl c0; errs = Validate c in
           if errs \<noteq> [] then Inl (FatalInvalid errs)
           else Inr (c\<lparr>cf_Node := (cf_Node c)\<lparr>nc_DataDir := expandHome env (nc_DataDir (cf_Node c))\<rparr>\<rparr>,
                     log_Init (lc_Level (cf_Logging c)) (lc_Format (cf_Logging c)) lst)))"

text \<open>What the transport reads of the configuration.\<close>

definition net_config :: "Config \<Rightarrow> NetConfig" where
  "net_config c =
     \<lparr>cfg_Listen = nw_Listen (cf_Network c), cfg_AdvertiseAddr = nw_AdvertiseAddr (cf_Network c),
      cfg_Bootstrap = nw_Bootstrap (cf_Network c), cfg_MaxPeers = nw_MaxPeers (cf_Network c),
      cfg_Tags = nc_Tags (cf_Node c)\<rparr>"

text \<open>The periods of the two loops of the transport; a ticker needs a positive one.\<close>

definition exchange_interval :: "Config \<Rightarrow> duration" where
  "exchange_interval c =
     (if nw_ExchangeInterval (cf_Network c) \<le> 0 then 30 * Second else nw_ExchangeInterval (cf_Network c))"

definition discovery_interval :: "Config \<Rightarrow> duration" where
  "discovery_interval c =
     (if nw_DiscoveryInterval (cf_Network c) \<le> 0 then 10 * Second else nw_DiscoveryInterval (cf_Network c))"

section \<open>What validation accepts\<close>

lemma set_opt_list [simp]: "set (opt_list r) = set_option r" "opt_list r = [] \<longleftrightarrow> r = None"
  by (cases r; simp add: opt_list_def)+

lemma validatePeerAddr_None:
  "validatePeerAddr a = None \<longleftrightarrow>
     (\<exists>host port. SplitHostPort (TrimSpace a) = Some (host, port) \<and> port \<noteq> [] \<and> host \<noteq> [] \<and>
        \<not> (\<exists>ip. ParseIP host = Some ip \<and> IsUnspecified ip))"
  by (auto simp: validatePeerAddr_def Let_def SplitHostPort_def LastIndexByte_def
    split: option.splits if_splits)

text \<open>An address that passes validation passes the address check of peer discovery.\<close>

lemma validatePeerAddr_discoverable:
  assumes "validatePeerAddr a = None"
  shows "\<not> isInvalidPeerAddr (TrimSpace a)"
proof -
  obtain host port where "SplitHostPort (TrimSpace a) = Some (host, port)" "port \<noteq> []" "host \<noteq> []"
    "\<not> (\<exists>ip. ParseIP host = Some ip \<and> IsUnspecified ip)"
    using assms by (auto simp: validatePeerAddr_None)
  moreover have "IsUnspecified (v4_prefix @ [0, 0, 0, 0])" "IsUnspecified (replicate 16 0)"
    by (simp_all add: IsUnspecified_def)
  moreover from this calculation(4) have "host \<noteq> ''0.0.0.0''" "host \<noteq> ''::''"
    using ParseIP_wildcards by metis+
  ultimately show ?thesis by (simp add: isInvalidPeerAddr_def)
qed

lemma validateLogLevel_named:
  "validateLogLevel s = None \<longleftrightarrow> named_level (ToLower (TrimSpace s)) \<noteq> None"
  by (simp add: validateLogLevel_def named_level_def Let_def)

section \<open>Validation reports every fault\<close>

text \<open>The specification: the faults of a configuration, one field at a time.\<close>

fun config_fault :: "Config \<Rightarrow> config_error \<Rightarrow> bool" where
  "config_fault c (ErrNetworkListen e) \<longleftrightarrow>
     nw_Listen (cf_Network c) \<noteq> [] \<and> validateListenAddr (nw_Listen (cf_Network c)) = Some e"
| "config_fault c (ErrSSHListen e) \<longleftrightarrow>
     sc_Listen (cf_SSH c) \<noteq> [] \<and> validateListenAddr (sc_Listen (cf_SSH c)) = Some e"
| "config_fault c (ErrBootstrap i e) \<longleftrightarrow>
     i < length (nw_Bootstrap (cf_Network c)) \<and> validatePeerAddr (nw_Bootstrap (cf_Network c) ! i) = Some e"
| "config_fault c (ErrAdvertiseAddr e) \<longleftrightarrow>
     nw_AdvertiseAddr (cf_Network c) \<noteq> [] \<and> validatePeerAddr (nw_AdvertiseAddr (cf_Network c)) = Some e"
| "config_fault c (ErrMaxPeers n) \<longleftrightarrow> n = nw_MaxPeers (cf_Network c) \<and> n < 0"
| "config_fault c (ErrExchangeInterval d) \<longleftrightarrow> d = nw_ExchangeInterval (cf_Network c) \<and> d < 0"
| "config_fault c (ErrDiscoveryInterval d) \<longleftrightarrow> d = nw_DiscoveryInterval (cf_Network c) \<and> d < 0"
| "config_fault c (ErrLogLevel l) \<longleftrightarrow>
     l = lc_Level (cf_Logging c) \<and> named_level (ToLower (TrimSpace l)) = None"

definition bootstrap_errors :: "nat \<Rightarrow> string list \<Rightarrow> config_error list" where
  "bootstrap_errors k bs =
     concat (map (\<lambda>(i, addr). opt_list (map_option (ErrBootstrap i) (validatePeerAddr addr))) (enumerate k bs))"

lemma in_bootstrap_errors:
  "x \<in> set (bootstrap_errors k bs) \<longleftrightarrow>
     (\<exists>j e. x = ErrBootstrap j e \<and> k \<le> j \<and> j < length bs + k \<and> validatePeerAddr (bs ! (j - k)) = Some e)"
  by (fastforce simp: bootstrap_errors_def in_set_enumerate_eq elem_set)

lemma distinct_opt_list [simp]: "distinct (opt_list r)"
  by (cases r) (simp_all add: opt_list_def)

lemma distinct_bootstrap_errors: "distinct (bootstrap_errors k bs)"
proof (induction bs arbitrary: k)
  case (Cons b bs)
  have "bootstrap_errors k (b # bs) =
      opt_list (map_option (ErrBootstrap k) (validatePeerAddr b)) @ bootstrap_errors (Suc k) bs"
    by (simp add: bootstrap_errors_def)
  then show ?case using Cons.IH [of "Suc k"] by (auto simp: in_bootstrap_errors elem_set)
qed (simp add: bootstrap_errors_def)

lemma Validate_split:
  "Validate c =
     (if nw_Listen (cf_Network c) \<noteq> []
      then opt_list (map_option ErrNetworkListen (validateListenAddr (nw_Listen (cf_Network c)))) else []) @
     (if sc_Listen (cf_SSH c) \<noteq> []
      then opt_list (map_option ErrSSHListen (validateListenAddr (sc_Listen (cf_SSH c)))) else []) @
     bootstrap_errors 0 (nw_Bootstrap (cf_Network c)) @
     (if nw_AdvertiseAddr (cf_Network c) \<noteq> []
      then opt_list (map_option ErrAdvertiseAddr (validatePeerAddr (nw_AdvertiseAddr (cf_Network c)))) else []) @
     validateNumericFields c @ opt_list (validateLogLevel (lc_Level (cf_Logging c)))"
  by (simp add: Validate_def validateAddresses_def bootstrap_errors_def)

lemma validateLogLevel_Some: "validateLogLevel s = Some e \<longleftrightarrow> e = ErrLogLevel s \<and> named_level (ToLower (TrimSpace s)) = None"
  by (auto simp: validateLogLevel_def named_level_def Let_def)

lemma Validate_faults: "e \<in> set (Validate c) \<longleftrightarrow> config_fault c e"
  by (cases e) (auto simp: Validate_split in_bootstrap_errors validateNumericFields_def Let_def
    validateLogLevel_Some elem_set)

text \<open>
  Validation is complete and exact: an error is reported if and only if the field it names has
  that fault, whatever the other fields hold, and no error is reported twice. In particular a
  configuration passes if and only if it has no fault.
\<close>

theorem validate_reports_every_fault:
  "(e \<in> set (Validate c) \<longleftrightarrow> config_fault c e) \<and> distinct (Validate c) \<and>
   (Validate c = [] \<longleftrightarrow> (\<nexists>e. config_fault c e))"
proof -
  have "distinct (validateNumericFields c)" by (simp add: validateNumericFields_def Let_def)
  then have "distinct (Validate c)"
    using distinct_bootstrap_errors [of 0 "nw_Bootstrap (cf_Network c)"]
    unfolding Validate_split distinct_append
    by (auto simp: in_bootstrap_errors validateNumericFields_def Let_def validateLogLevel_Some elem_set
      split: if_splits)
  then show ?thesis using Validate_faults [of _ c] by (metis Validate_faults empty_iff list.set(1) list.set_intros(1) neq_Nil_conv)
qed

section \<open>The configuration a node starts with\<close>

lemma apply_flags_level:
  "lc_Level (cf_Logging (apply_flags env fl c0)) =
     (if fl_logLevel fl \<noteq> [] then fl_logLevel fl
      else if lc_Level (cf_Logging c0) \<noteq> [] then lc_Level (cf_Logging c0) else env_LogLevel env)"
  by (simp add: apply_flags_def Let_def)

lemma apply_flags_network [simp]: "cf_Network (apply_flags env fl c0) = cf_Network c0"
  by (simp add: apply_flags_def Let_def)

lemma apply_flags_ssh:
  "sc_Listen (cf_SSH (apply_flags env fl c0)) =
     (if fl_sshListen fl \<noteq> [] then fl_sshListen fl else sc_Listen (cf_SSH c0))"
  by (simp add: apply_flags_def Let_def)

lemma apply_flags_dataDir:
  "nc_DataDir (cf_Node (apply_flags env fl c0)) =
     (if fl_dataDir fl \<noteq> [] then fl_dataDir fl else nc_DataDir (cf_Node c0))"
  by (simp add: apply_flags_def Let_def)

lemma Validate_node [simp]: "Validate (c\<lparr>cf_Node := n\<rparr>) = Validate c"
  by (simp add: Validate_split validateNumericFields_def cong: if_cong)

text \<open>
  A node only starts with a usable configuration: the peer limit is not negative, every bootstrap
  address is, once trimmed, one that peer discovery would accept, the log level is the one named by
  the first of flag, file and environment that names one, the command line overrides the file, and
  the manager made from it advertises nothing or an address that other nodes accept, provided that
  the configured address has no white space around it.
\<close>

theorem started_config_usable:
  assumes "main_configure td env fl lst = Inr (c, lst')"
  shows "\<exists>c0. config_Load td env (fl_config fl) = Inr c0 \<and> Validate c = [] \<and> 0 \<le> nw_MaxPeers (cf_Network c) \<and>
    (\<forall>a\<in>set (nw_Bootstrap (cf_Network c)). \<not> isInvalidPeerAddr (TrimSpace a)) \<and>
    named_level (ToLower (TrimSpace
      (if fl_logLevel fl \<noteq> [] then fl_logLevel fl
       else if lc_Level (cf_Logging c0) \<noteq> [] then lc_Level (cf_Logging c0) else env_LogLevel env)))
      = Some (log_level lst') \<and>
    sc_Listen (cf_SSH c) = (if fl_sshListen fl \<noteq> [] then fl_sshListen fl else sc_Listen (cf_SSH c0)) \<and>
    nc_DataDir (cf_Node c) =
      expandHome env (if fl_dataDir fl \<noteq> [] then fl_dataDir fl else nc_DataDir (cf_Node c0)) \<and>
    (m_cfg m = net_config c \<longrightarrow> TrimSpace (nw_AdvertiseAddr (cf_Network c)) = nw_AdvertiseAddr (cf_Network c) \<longrightarrow>
     (\<forall>host port. SplitHostPort (listenAddr m) = Some (host, port) \<longrightarrow> port \<noteq> []) \<longrightarrow>
     advertiseAddr m = [] \<or> \<not> isInvalidPeerAddr (advertiseAddr m))"
proof -
  obtain c0 where load: "config_Load td env (fl_config fl) = Inr c0"
    and valid: "Validate (apply_flags env fl c0) = []"
    and c: "c = (apply_flags env fl c0)\<lparr>cf_Node := (cf_Node (apply_flags env fl c0))
      \<lparr>nc_DataDir := expandHome env (nc_DataDir (cf_Node (apply_flags env fl c0)))\<rparr>\<rparr>"
    and lst: "lst' = log_Init (lc_Level (cf_Logging c)) (lc_Format (cf_Logging c)) lst"
    using assms by (auto simp: main_configure_def Let_def split: sum.splits if_splits)
  have Vc: "Validate c = []"
    unfolding c using valid by simp
  then have ok: "\<not> config_fault c e" for e by (metis Validate_faults empty_iff list.set(1))
  have boot: "\<not> isInvalidPeerAddr (TrimSpace a)" if a: "a \<in> set (nw_Bootstrap (cf_Network c))" for a
  proof (rule validatePeerAddr_discoverable)
    obtain i where "i < length (nw_Bootstrap (cf_Network c))" "a = nw_Bootstrap (cf_Network c) ! i"
      using a by (auto simp: in_set_conv_nth)
    then show "validatePeerAddr a = None" using ok [of "ErrBootstrap i _"] by (cases "validatePeerAddr a") auto
  qed
  have lvl: "named_level (ToLower (TrimSpace (lc_Level (cf_Logging c)))) = Some (log_level lst')"
    using ok [of "ErrLogLevel (lc_Level (cf_Logging c))"]
    by (auto simp: lst log_Init_def parseLevel_named)
  have adv: "\<not> isInvalidPeerAddr (nw_AdvertiseAddr (cf_Network c))"
    if "TrimSpace (nw_AdvertiseAddr (cf_Network c)) = nw_AdvertiseAddr (cf_Network c)"
      "nw_AdvertiseAddr (cf_Network c) \<noteq> []"
    using ok [of "ErrAdvertiseAddr _"] that validatePeerAddr_discoverable [of "nw_AdvertiseAddr (cf_Network c)"]
    by (cases "validatePeerAddr (nw_AdvertiseAddr (cf_Network c))") auto
  have mgr: "advertiseAddr m = [] \<or> \<not> isInvalidPeerAddr (advertiseAddr m)"
    if "m_cfg m = net_config c" "TrimSpace (nw_AdvertiseAddr (cf_Network c)) = nw_AdvertiseAddr (cf_Network c)"
      "\<forall>host port. SplitHostPort (listenAddr m) = Some (host, port) \<longrightarrow> port \<noteq> []"
    using adv [OF that(2)] that by (auto simp: advertiseAddr_def net_config_def isInvalidPeerAddr_def split: option.splits)
  have "lc_Level (cf_Logging c) = lc_Level (cf_Logging (apply_flags env fl c0))"
    "sc_Listen (cf_SSH c) = sc_Listen (cf_SSH (apply_flags env fl c0))"
    "nc_DataDir (cf_Node c) = expandHome env (nc_DataDir (cf_Node (apply_flags env fl c0)))"
    by (simp_all add: c)
  note over = this [unfolded apply_flags_level apply_flags_ssh apply_flags_dataDir]
  have "0 \<le> nw_MaxPeers (cf_Network c)" using ok [of "ErrMaxPeers (nw_MaxPeers (cf_Network c))"] by simp
  with load Vc boot lvl [unfolded over(1)] mgr over(2,3) show ?thesis by blast
qed

section \<open>Examples\<close>

definition demo_environ :: environ where
  "demo_environ = \<lparr>env_Hostname = ''alpha'', env_HomeDir = Some ''/home/u'', env_LogLevel = ''WARN'',
     env_File = (\<lambda>p. if p = ''/home/u/.micelio/config.toml'' then FileData ''doc'' else FileAbsent)\<rparr>"

definition demo_toml :: "string \<Rightarrow> string \<Rightarrow> Config \<Rightarrow> Config option" where
  "demo_toml addr dat c =
     (if dat = ''doc''
      then Some (c\<lparr>cf_Network := (cf_Network c)\<lparr>nw_Bootstrap := [''10.0.0.7:4000''], nw_AdvertiseAddr := addr\<rparr>\<rparr>)
      else None)"

definition demo_flags :: flags where
  "demo_flags = \<lparr>fl_config = [], fl_dataDir = ''~/node'', fl_sshListen = [], fl_name = [], fl_logLevel = []\<rparr>"

definition demo_log :: log_state where
  "demo_log = \<lparr>log_level = LevelInfo, log_default = DefaultHandler, log_captures = [], log_out = []\<rparr>"

definition demo_started :: "string \<Rightarrow> Config \<times> log_state" where
  "demo_started addr = (case main_configure (demo_toml addr) demo_environ demo_flags demo_log of
     Inr r \<Rightarrow> r | Inl _ \<Rightarrow> (Defaults demo_environ, demo_log))"

lemma demo_starts:
  "main_configure (demo_toml ''[::1]:80'') demo_environ demo_flags demo_log = Inr (demo_started ''[::1]:80'')"
  "main_configure (demo_toml '' [::1]:80'') demo_environ demo_flags demo_log = Inr (demo_started '' [::1]:80'')"
  "log_level (snd (demo_started ''[::1]:80'')) = LevelWarn"
  "nc_DataDir (cf_Node (fst (demo_started ''[::1]:80''))) = ''/home/u/node''"
  "nw_AdvertiseAddr (cf_Network (fst (demo_started ''[::1]:80''))) = ''[::1]:80''"
  "nw_AdvertiseAddr (cf_Network (fst (demo_started '' [::1]:80''))) = '' [::1]:80''"
  "TrimSpace ''[::1]:80'' = ''[::1]:80''"
  by code_simp+

definition demo_with :: "string \<Rightarrow> nat Manager" where
  "demo_with addr = (demo_mgr 1 [])\<lparr>m_cfg := net_config (fst (demo_started addr))\<rparr>"

lemma demo_with_advertise:
  "nw_AdvertiseAddr (cf_Network (fst (demo_started addr))) = addr \<Longrightarrow> addr \<noteq> [] \<Longrightarrow> advertiseAddr (demo_with addr) = addr"
  by (simp add: demo_with_def advertiseAddr_def net_config_def)

lemma demo_no_listen: "SplitHostPort (listenAddr (demo_with addr)) = None"
  by (simp add: demo_with_def demo_mgr_def SplitHostPort_def LastIndexByte_def)

theorem started_config_usable_witness:
  "main_configure (demo_toml ''[::1]:80'') demo_environ demo_flags demo_log =
     Inr (fst (demo_started ''[::1]:80''), snd (demo_started ''[::1]:80'')) \<and>
   0 \<le> nw_MaxPeers (cf_Network (fst (demo_started ''[::1]:80''))) \<and>
   advertiseAddr (demo_with ''[::1]:80'') = ''[::1]:80'' \<and> \<not> isInvalidPeerAddr (advertiseAddr (demo_with ''[::1]:80''))"
proof -
  let ?c = "fst (demo_started ''[::1]:80'')" and ?l = "snd (demo_started ''[::1]:80'')"
  have run: "main_configure (demo_toml ''[::1]:80'') demo_environ demo_flags demo_log = Inr (?c, ?l)"
    using demo_starts(1) by simp
  have adv: "advertiseAddr (demo_with ''[::1]:80'') = ''[::1]:80''"
    using demo_with_advertise [OF demo_starts(5)] by simp
  have "m_cfg (demo_with ''[::1]:80'') = net_config ?c" by (simp add: demo_with_def)
  moreover have "TrimSpace (nw_AdvertiseAddr (cf_Network ?c)) = nw_AdvertiseAddr (cf_Network ?c)"
    by (simp only: demo_starts(5,7))
  ultimately show ?thesis
    using started_config_usable [OF run, of "demo_with ''[::1]:80''"] run adv demo_no_listen by auto
qed

text \<open>
  The proviso on white space is needed: an address with a space in front passes validation, and the
  manager advertises it as it is, which every other node rejects.
\<close>

lemma padded_address_passes_validation:
  "main_configure (demo_toml '' [::1]:80'') demo_environ demo_flags demo_log = Inr (demo_started '' [::1]:80'')"
  "isInvalidPeerAddr (advertiseAddr (demo_with '' [::1]:80''))"
proof -
  show "main_configure (demo_toml '' [::1]:80'') demo_environ demo_flags demo_log = Inr (demo_started '' [::1]:80'')"
    by (rule demo_starts)
  have "advertiseAddr (demo_with '' [::1]:80'') = '' [::1]:80''"
    using demo_with_advertise [OF demo_starts(6)] by simp
  moreover have "isInvalidPeerAddr '' [::1]:80''" by code_simp
  ultimately show "isInvalidPeerAddr (advertiseAddr (demo_with '' [::1]:80''))" by simp
qed

text \<open>
  A bootstrap address with a space in front passes validation as well. The node dials the address as it
  is configured, and it is not one of the form host and port.
\<close>

lemma padded_bootstrap_validates:
  "Validate ((Defaults demo_environ)\<lparr>cf_Network :=
     (cf_Network (Defaults demo_environ))\<lparr>nw_Bootstrap := ['' [::1]:80'']\<rparr>\<rparr>) = []"
  "isInvalidPeerAddr '' [::1]:80''"
  by code_simp+

text \<open>
  Peer discovery compares host names as strings, so it takes a wildcard host in another spelling for a
  dialable one, where the validation of the configuration rejects it.
\<close>

lemma wildcard_spelling_accepted:
  "validatePeerAddr ''[0::0]:80'' = Some AddrWildcard" "\<not> isInvalidPeerAddr ''[0::0]:80''"
  by code_simp+

end
