(* ===== verification/KeyFile.thy ===== *)
theory KeyFile
  imports Identity GoStrings
begin

text \<open>
  Loading and generating the identity (\<^verbatim>\<open>Load\<close>, \<^verbatim>\<open>generate\<close>, \<^verbatim>\<open>loadFrom\<close> in \<^verbatim>\<open>internal/identity/identity.go\<close>).

  The file system is a map from paths to contents, with the paths the process may not read or write and
  those where a write fails after so many bytes, which leaves the file cut short.
  The key formats (PEM, PKCS 8, the SSH library) and the generator are the parameter \<^verbatim>\<open>keylib\<close>;
  \<open>keylib_ok\<close> states what the code relies on: what was encoded is decoded, a key that was generated or
  parsed is a usable key pair, and its second half is its public key. Every operation returns the
  file system it leaves behind, also when it fails.
\<close>

section \<open>Files and key formats\<close>

record filesys =
  fs_files :: "(string, bytes) fmap"
  fs_denied :: "string \<Rightarrow> bool"
  fs_space :: "string \<Rightarrow> nat option"

datatype read_error = NotExist | ReadFails

definition ReadFile :: "string \<Rightarrow> filesys \<Rightarrow> read_error + bytes" where
  "ReadFile p fs =
     (if fs_denied fs p then Inl ReadFails
      else (case fmlookup (fs_files fs) p of None \<Rightarrow> Inl NotExist | Some d \<Rightarrow> Inr d))"

definition WriteFile :: "string \<Rightarrow> bytes \<Rightarrow> filesys \<Rightarrow> bool \<times> filesys" where
  "WriteFile p d fs =
     (if fs_denied fs p then (False, fs)
      else (case fs_space fs p of
              None \<Rightarrow> (True, fs\<lparr>fs_files := fmupd p d (fs_files fs)\<rparr>)
            | Some n \<Rightarrow> (length d \<le> n, fs\<lparr>fs_files := fmupd p (take n d) (fs_files fs)\<rparr>)))"

datatype raw_key = Ed25519Key bytes | OtherKey

record keylib =
  MarshalPKCS8 :: "bytes \<Rightarrow> bytes option"
  ParsePKCS8 :: "bytes \<Rightarrow> raw_key option"
  pem_Encode :: "string \<Rightarrow> bytes \<Rightarrow> bytes"
  pem_Decode :: "bytes \<Rightarrow> bytes option"
  ssh_NewPublicKey :: "bytes \<Rightarrow> bytes option"
  MarshalAuthorizedKey :: "bytes \<Rightarrow> bytes"
  ssh_SignerOk :: "bytes \<Rightarrow> bool"

definition keylib_ok :: "crypto \<Rightarrow> keylib \<Rightarrow> bool" where
  "keylib_ok cr kl \<longleftrightarrow>
     (\<forall>b t. pem_Decode kl (pem_Encode kl t b) = Some b) \<and>
     (\<forall>priv b. MarshalPKCS8 kl priv = Some b \<longrightarrow> ParsePKCS8 kl b = Some (Ed25519Key priv)) \<and>
     (\<forall>b priv. ParsePKCS8 kl b = Some (Ed25519Key priv) \<longrightarrow> keypair_ok cr priv (drop 32 priv))"

section \<open>Operations\<close>

datatype id_error =
    ErrReadKey | ErrGenerate | ErrMkdir | ErrMarshal | ErrWriteKey | ErrConvert | ErrWritePub
  | ErrNoPEM | ErrParseKey | ErrNotEd25519 | ErrSigner

definition fromKeyPair_signed :: "crypto \<Rightarrow> keylib \<Rightarrow> bytes \<Rightarrow> bytes \<Rightarrow> id_error + Identity" where
  "fromKeyPair_signed cr kl priv pub =
     (if ssh_SignerOk kl priv then Inr (fromKeyPair cr priv pub) else Inl ErrSigner)"

text \<open>\<^verbatim>\<open>priv.Public()\<close> is the second half of the private key.\<close>

definition loadFrom :: "crypto \<Rightarrow> keylib \<Rightarrow> bytes \<Rightarrow> id_error + Identity" where
  "loadFrom cr kl privPEM =
     (case pem_Decode kl privPEM of
        None \<Rightarrow> Inl ErrNoPEM
      | Some block \<Rightarrow>
          (case ParsePKCS8 kl block of
             None \<Rightarrow> Inl ErrParseKey
           | Some OtherKey \<Rightarrow> Inl ErrNotEd25519
           | Some (Ed25519Key priv) \<Rightarrow> fromKeyPair_signed cr kl priv (drop 32 priv)))"

text \<open>\<open>rnd\<close> is what \<^verbatim>\<open>ed25519.GenerateKey\<close> returns, the public and the private key.\<close>

definition id_generate ::
  "crypto \<Rightarrow> keylib \<Rightarrow> (bytes \<times> bytes) option \<Rightarrow> string \<Rightarrow> string \<Rightarrow> string \<Rightarrow> filesys \<Rightarrow> (id_error + Identity) \<times> filesys" where
  "id_generate cr kl rnd keyDir privPath pubPath fs =
     (case rnd of
        None \<Rightarrow> (Inl ErrGenerate, fs)
      | Some (pub, priv) \<Rightarrow>
          if fs_denied fs keyDir then (Inl ErrMkdir, fs)
          else
            (case MarshalPKCS8 kl priv of
               None \<Rightarrow> (Inl ErrMarshal, fs)
             | Some pkcs8 \<Rightarrow>
                 (case WriteFile privPath (pem_Encode kl ''PRIVATE KEY'' pkcs8) fs of (ok, fs1) \<Rightarrow>
                    if \<not> ok then (Inl ErrWriteKey, fs1)
                    else
                      (case ssh_NewPublicKey kl pub of
                         None \<Rightarrow> (Inl ErrConvert, fs1)
                       | Some sshPub \<Rightarrow>
                           (case WriteFile pubPath (MarshalAuthorizedKey kl sshPub) fs1 of (ok2, fs2) \<Rightarrow>
                              if \<not> ok2 then (Inl ErrWritePub, fs2)
                              else (fromKeyPair_signed cr kl priv pub, fs2))))))"

definition identity_Load ::
  "crypto \<Rightarrow> keylib \<Rightarrow> (bytes \<times> bytes) option \<Rightarrow> string \<Rightarrow> filesys \<Rightarrow> (id_error + Identity) \<times> filesys" where
  "identity_Load cr kl rnd dataDir fs =
     (let keyDir = path_Join [dataDir, ''identity''];
          privPath = path_Join [keyDir, ''node.key''];
          pubPath = path_Join [keyDir, ''node.pub'']
      in case ReadFile privPath fs of
           Inr privPEM \<Rightarrow> (loadFrom cr kl privPEM, fs)
         | Inl ReadFails \<Rightarrow> (Inl ErrReadKey, fs)
         | Inl NotExist \<Rightarrow> id_generate cr kl rnd keyDir privPath pubPath fs)"

section \<open>The identity survives restarts\<close>

lemma key_paths_differ: "path_Join [d, ''node.key''] \<noteq> path_Join [d, ''node.pub'']"
proof
  assume eq: "path_Join [d, ''node.key''] = path_Join [d, ''node.pub'']"
  have "suffix ''node.key'' (path_Join [d, ''node.key''])" "suffix ''node.pub'' (path_Join [d, ''node.pub''])"
    by (rule path_Join_last; simp)+
  then have "take 8 (rev (path_Join [d, ''node.key''])) = rev ''node.key''"
    "take 8 (rev (path_Join [d, ''node.pub''])) = rev ''node.pub''" by (auto simp: suffix_def)
  then show False unfolding eq by simp
qed

text \<open>A file after a write: all of it when the write succeeds, otherwise what it was or the first bytes.\<close>

lemma WriteFile_cases:
  assumes "WriteFile p d fs = (ok, fs')"
  shows "ok \<Longrightarrow> ReadFile p fs' = Inr d"
    "\<not> ok \<Longrightarrow> fs' = fs \<or> (\<exists>n < length d. ReadFile p fs' = Inr (take n d))"
    "q \<noteq> p \<Longrightarrow> ReadFile q fs' = ReadFile q fs"
  using assms by (auto simp: WriteFile_def ReadFile_def not_le split: if_splits option.splits)

text \<open>The state after a key has been written: the private key can be read back.\<close>

lemma id_generate_writes:
  assumes "id_generate cr kl rnd keyDir privPath pubPath fs = (r, fs')" and "privPath \<noteq> pubPath"
    and "r \<notin> {Inl ErrGenerate, Inl ErrMkdir, Inl ErrMarshal, Inl ErrWriteKey}"
  shows "\<exists>pub priv pkcs8. rnd = Some (pub, priv) \<and> MarshalPKCS8 kl priv = Some pkcs8 \<and>
    ReadFile privPath fs' = Inr (pem_Encode kl ''PRIVATE KEY'' pkcs8) \<and>
    (\<forall>i. r = Inr i \<longrightarrow> fromKeyPair_signed cr kl priv pub = Inr i)"
proof -
  obtain pub priv pkcs8 ok fs1 where w: "rnd = Some (pub, priv)" "\<not> fs_denied fs keyDir" "MarshalPKCS8 kl priv = Some pkcs8"
    "WriteFile privPath (pem_Encode kl ''PRIVATE KEY'' pkcs8) fs = (ok, fs1)" ok
    using assms(1,3) by (auto simp: id_generate_def split: option.splits prod.splits if_splits)
  note key = WriteFile_cases(1) [OF w(4,5)]
  have "ReadFile privPath fs' = ReadFile privPath fs1"
    using assms(1) w WriteFile_cases(3) [of pubPath _ fs1 _ _ privPath, OF _ assms(2)]
    by (auto simp: id_generate_def split: option.splits prod.splits if_splits)
  moreover have "fromKeyPair_signed cr kl priv pub = Inr i" if "r = Inr i" for i
    using assms(1) w that by (auto simp: id_generate_def split: option.splits prod.splits if_splits)
  ultimately show ?thesis using w(1,3) key by auto
qed

text \<open>When writing the private key fails, nothing was written or the file holds less than the key.\<close>

lemma id_generate_cut:
  assumes "id_generate cr kl rnd keyDir privPath pubPath fs = (Inl ErrWriteKey, fs')"
  shows "fs' = fs \<or> (\<exists>pub priv pkcs8 n. rnd = Some (pub, priv) \<and> MarshalPKCS8 kl priv = Some pkcs8 \<and>
    n < length (pem_Encode kl ''PRIVATE KEY'' pkcs8) \<and>
    ReadFile privPath fs' = Inr (take n (pem_Encode kl ''PRIVATE KEY'' pkcs8)))"
proof -
  obtain pub priv pkcs8 where w: "rnd = Some (pub, priv)" "MarshalPKCS8 kl priv = Some pkcs8"
    "WriteFile privPath (pem_Encode kl ''PRIVATE KEY'' pkcs8) fs = (False, fs')"
    using assms by (auto simp: id_generate_def fromKeyPair_signed_def split: option.splits prod.splits if_splits)
  from WriteFile_cases(2) [OF w(3)] show ?thesis using w(1,2) by blast
qed

lemma loadFrom_usable:
  assumes "keylib_ok cr kl" and "loadFrom cr kl pem = Inr i"
  shows "identity_ok cr i"
proof -
  obtain block priv where "ParsePKCS8 kl block = Some (Ed25519Key priv)" "i = fromKeyPair cr priv (drop 32 priv)"
    using assms(2) by (auto simp: loadFrom_def fromKeyPair_signed_def split: option.splits raw_key.splits if_splits)
  then show ?thesis using assms(1) by (auto simp: keylib_ok_def identity_ok_def fromKeyPair_def)
qed

text \<open>A load that went as far as writing the private key leaves it for the next one.\<close>

lemma identity_Load_generated:
  assumes "keylib_ok cr kl" and "\<forall>pub priv. rnd = Some (pub, priv) \<longrightarrow> pub = drop 32 priv"
    and "identity_Load cr kl rnd dataDir fs = (r, fs')"
    and "ReadFile (path_Join [path_Join [dataDir, ''identity''], ''node.key'']) fs = Inl NotExist"
    and "r \<notin> {Inl ErrGenerate, Inl ErrMkdir, Inl ErrMarshal, Inl ErrWriteKey}"
  shows "\<exists>pub priv pem. rnd = Some (pub, priv) \<and> loadFrom cr kl pem = fromKeyPair_signed cr kl priv pub \<and>
    identity_Load cr kl rnd' dataDir fs' = (fromKeyPair_signed cr kl priv pub, fs') \<and>
    (\<forall>i. r = Inr i \<longrightarrow> fromKeyPair_signed cr kl priv pub = Inr i)"
proof -
  let ?dir = "path_Join [dataDir, ''identity'']"
  let ?key = "path_Join [?dir, ''node.key'']" and ?pub = "path_Join [?dir, ''node.pub'']"
  have gen: "id_generate cr kl rnd ?dir ?key ?pub fs = (r, fs')" using assms(3,4) by (simp add: identity_Load_def Let_def)
  from id_generate_writes [OF gen key_paths_differ assms(5)] obtain pub priv pkcs8 where w:
    "rnd = Some (pub, priv)" "MarshalPKCS8 kl priv = Some pkcs8"
    "ReadFile ?key fs' = Inr (pem_Encode kl ''PRIVATE KEY'' pkcs8)"
    "\<forall>i. r = Inr i \<longrightarrow> fromKeyPair_signed cr kl priv pub = Inr i" by blast
  have "loadFrom cr kl (pem_Encode kl ''PRIVATE KEY'' pkcs8) = fromKeyPair_signed cr kl priv pub"
    using assms(1,2) w(1,2) by (simp add: loadFrom_def keylib_ok_def)
  moreover from this have "identity_Load cr kl rnd' dataDir fs' = (fromKeyPair_signed cr kl priv pub, fs')"
    using w(3) by (simp add: identity_Load_def Let_def)
  ultimately show ?thesis using w(1,4) by blast
qed

lemma identity_Load_stable:
  assumes "keylib_ok cr kl" and "\<forall>pub priv. rnd = Some (pub, priv) \<longrightarrow> pub = drop 32 priv"
    and "identity_Load cr kl rnd dataDir fs = (Inr i, fs')"
  shows "identity_ok cr i" and "identity_Load cr kl rnd' dataDir fs' = (Inr i, fs')"
proof -
  let ?key = "path_Join [path_Join [dataDir, ''identity''], ''node.key'']"
  consider pem where "ReadFile ?key fs = Inr pem" "loadFrom cr kl pem = Inr i" "fs' = fs" | "ReadFile ?key fs = Inl NotExist"
    using assms(3) by (auto simp: identity_Load_def Let_def split: sum.splits read_error.splits)
  then have "identity_ok cr i \<and> identity_Load cr kl rnd' dataDir fs' = (Inr i, fs')"
  proof cases
    case 1
    then show ?thesis using loadFrom_usable [OF assms(1)] by (simp add: identity_Load_def Let_def)
  next
    case 2
    then show ?thesis
      using identity_Load_generated [OF assms(1-3), of rnd'] loadFrom_usable [OF assms(1)] by auto
  qed
  then show "identity_ok cr i" "identity_Load cr kl rnd' dataDir fs' = (Inr i, fs')" by simp_all
qed

text \<open>
  C28. A node keeps its identity. Once \<^verbatim>\<open>Load\<close> has returned an identity, generated or read, every later
  \<^verbatim>\<open>Load\<close> on the files it left returns the same one, whatever the random generator would produce, and
  changes no file; the identity is a usable key pair with the identifier derived from its public key.
  A first start that fails only after the private key was written loses nothing: the next one uses
  that key. One that fails while it writes the key leaves the files as they were or a key file cut
  short, which every later start reads and none replaces.
\<close>

theorem identity_survives_restart:
  assumes "keylib_ok cr kl" and "\<forall>pub priv. rnd = Some (pub, priv) \<longrightarrow> pub = drop 32 priv"
    and "identity_Load cr kl rnd dataDir fs = (r, fs')"
  shows "(\<forall>i. r = Inr i \<longrightarrow> identity_ok cr i \<and> identity_Load cr kl rnd' dataDir fs' = (Inr i, fs')) \<and>
    (r = Inl ErrConvert \<or> r = Inl ErrWritePub \<longrightarrow> (\<exists>pub priv. rnd = Some (pub, priv) \<and>
       identity_Load cr kl rnd' dataDir fs' = (fromKeyPair_signed cr kl priv pub, fs'))) \<and>
    (r = Inl ErrWriteKey \<longrightarrow> fs' = fs \<or> (\<exists>pub priv pkcs8 n. rnd = Some (pub, priv) \<and> MarshalPKCS8 kl priv = Some pkcs8 \<and>
       n < length (pem_Encode kl ''PRIVATE KEY'' pkcs8) \<and>
       identity_Load cr kl rnd' dataDir fs' = (loadFrom cr kl (take n (pem_Encode kl ''PRIVATE KEY'' pkcs8)), fs')))"
proof -
  have "\<exists>pub priv. rnd = Some (pub, priv) \<and> identity_Load cr kl rnd' dataDir fs' = (fromKeyPair_signed cr kl priv pub, fs')"
    if r: "r = Inl ErrConvert \<or> r = Inl ErrWritePub"
  proof -
    have "ReadFile (path_Join [path_Join [dataDir, ''identity''], ''node.key'']) fs = Inl NotExist"
      using assms(3) r
      by (auto simp: identity_Load_def Let_def loadFrom_def fromKeyPair_signed_def
        split: sum.splits read_error.splits option.splits raw_key.splits if_splits)
    then show ?thesis using identity_Load_generated [OF assms, of rnd'] r by blast
  qed
  moreover have "fs' = fs \<or> (\<exists>pub priv pkcs8 n. rnd = Some (pub, priv) \<and> MarshalPKCS8 kl priv = Some pkcs8 \<and>
       n < length (pem_Encode kl ''PRIVATE KEY'' pkcs8) \<and>
       identity_Load cr kl rnd' dataDir fs' = (loadFrom cr kl (take n (pem_Encode kl ''PRIVATE KEY'' pkcs8)), fs'))"
    if r: "r = Inl ErrWriteKey"
  proof -
    let ?dir = "path_Join [dataDir, ''identity'']"
    have "id_generate cr kl rnd ?dir (path_Join [?dir, ''node.key'']) (path_Join [?dir, ''node.pub'']) fs = (Inl ErrWriteKey, fs')"
      using assms(3) r
      by (auto simp: identity_Load_def Let_def loadFrom_def fromKeyPair_signed_def
        split: sum.splits read_error.splits option.splits raw_key.splits if_splits)
    from id_generate_cut [OF this] show ?thesis by (auto simp: identity_Load_def Let_def)
  qed
  ultimately show ?thesis using identity_Load_stable [OF assms(1,2)] assms(3) by blast
qed

section \<open>Example\<close>

definition demo_keylib :: keylib where
  "demo_keylib = \<lparr>MarshalPKCS8 = (\<lambda>priv. if length priv = 64 then Some (48 # priv) else None),
     ParsePKCS8 = (\<lambda>b. if length b = 65 then Some (Ed25519Key (tl b)) else None),
     pem_Encode = (\<lambda>t b. 45 # b), pem_Decode = (\<lambda>b. case b of [] \<Rightarrow> None | x # r \<Rightarrow> if x = 45 then Some r else None),
     ssh_NewPublicKey = (\<lambda>p. Some p), MarshalAuthorizedKey = (\<lambda>p. p), ssh_SignerOk = (\<lambda>_. True)\<rparr>"

lemma demo_keylib_ok: "keylib_ok demo_crypto demo_keylib"
  by (auto simp: keylib_ok_def demo_keylib_def keypair_ok_def demo_crypto_def PrivateKeySize_def PublicKeySize_def
    SignatureSize_def split: if_splits)

definition demo_fs :: filesys where
  "demo_fs = \<lparr>fs_files = fmempty, fs_denied = (\<lambda>_. False), fs_space = (\<lambda>_. None)\<rparr>"

definition demo_first :: "(id_error + Identity) \<times> filesys" where
  "demo_first = identity_Load demo_crypto demo_keylib (Some (replicate 32 5, replicate 64 5)) ''/d'' demo_fs"

theorem identity_survives_restart_witness:
  "fst demo_first = Inr (fromKeyPair demo_crypto (replicate 64 5) (replicate 32 5)) \<and>
   identity_Load demo_crypto demo_keylib (Some (replicate 32 9, replicate 64 9)) ''/d'' (snd demo_first) = demo_first"
proof -
  have first: "fst demo_first = Inr (fromKeyPair demo_crypto (replicate 64 5) (replicate 32 5))"
    by (simp add: demo_first_def identity_Load_def id_generate_def ReadFile_def WriteFile_def demo_fs_def Let_def
      fromKeyPair_signed_def demo_keylib_def split: if_splits)
  have "identity_Load demo_crypto demo_keylib (Some (replicate 32 5, replicate 64 5)) ''/d'' demo_fs =
      (fst demo_first, snd demo_first)" by (simp add: demo_first_def)
  from identity_survives_restart [OF demo_keylib_ok _ this, of "Some (replicate 32 9, replicate 64 9)"] first
  show ?thesis by auto (metis prod.collapse)
qed

end
