(* ===== verification/Commands.thy ===== *)
theory Commands
  imports GoStrings PartyLine
begin

text \<open>
  The commands of the terminal (\<^verbatim>\<open>internal/ssh/commands.go\<close>) and the terminal of one user
  (\<^verbatim>\<open>runTerminal\<close> in \<^verbatim>\<open>internal/ssh/server.go\<close>).

  A handler is a function in the code; here it is a value of \<^verbatim>\<open>handler\<close>: one of the four builtins, whose
  bodies are below, or one that another package registers, whose effect is the parameter \<open>ext\<close>.
  A terminal is its prompt and the strings written to it; how the terminal library draws them is not
  modelled.

  A call to the hub waits until the hub's loop takes it. It is \<open>Blocked\<close> while it cannot proceed (the
  loop has ended, or the buffer of \<^verbatim>\<open>broadcast\<close> is full), and a panic in the loop is a \<open>Crash\<close> of the
  program.
\<close>

section \<open>Calls to the hub\<close>

datatype 'a call = Blocked | Crash hub_panic | Ret 'a

definition hub_call :: "u64 list \<Rightarrow> hub_case \<Rightarrow> Hub \<Rightarrow> Hub call" where
  "hub_call ks c h =
     (if \<not> hub_running h then Blocked
      else (case hub_Run ks c h of Inl p \<Rightarrow> Crash p | Inr h' \<Rightarrow> Ret h'))"

definition Join_call :: "u64 list \<Rightarrow> string \<Rightarrow> Hub \<Rightarrow> (nat \<times> Hub) call" where
  "Join_call ks nick h = map_call (\<lambda>h'. (hub_next h, h')) (hub_call ks (CJoin nick) h)"

definition Leave_call :: "u64 list \<Rightarrow> nat \<Rightarrow> Hub \<Rightarrow> Hub call" where
  "Leave_call ks a h = hub_call ks (CLeave a) h"

definition Who_call :: "u64 list \<Rightarrow> Hub \<Rightarrow> (string list \<times> Hub) call" where
  "Who_call ks h = map_call (\<lambda>h'. (who_nicks ks h, h')) (hub_call ks CWho h)"

definition SetNick_call :: "u64 list \<Rightarrow> nat \<Rightarrow> string \<Rightarrow> Hub \<Rightarrow> Hub call" where
  "SetNick_call ks a nick h = hub_call ks (CSetNick a nick) h"

definition Broadcast_call :: "nat \<Rightarrow> string \<Rightarrow> Hub \<Rightarrow> Hub call" where
  "Broadcast_call a text h =
     (if length (hub_broadcast h) < ChanCap then Ret (hub_Broadcast a text h) else Blocked)"

section \<open>The registry\<close>

datatype 'x handler = HWho | HNick | HQuit | HHelp | HExt 'x

record 'x Command =
  cmd_Usage :: string
  cmd_Help :: string
  cmd_Handler :: "'x handler option"

record 'x CommandRegistry =
  commands :: "(string, 'x Command) fmap"
  reg_order :: "string list"
  frozen :: bool

datatype reg_panic = NilHandler string | Frozen string

definition NewCommandRegistry :: "'x CommandRegistry" where
  "NewCommandRegistry = \<lparr>commands = fmempty, reg_order = [], frozen = False\<rparr>"

definition Register ::
  "string \<Rightarrow> 'x Command \<Rightarrow> 'x CommandRegistry \<Rightarrow> reg_panic + 'x CommandRegistry" where
  "Register name cmd r =
     (if cmd_Handler cmd = None then Inl (NilHandler name)
      else if frozen r then Inl (Frozen name)
      else Inr (r\<lparr>reg_order := (if fmlookup (commands r) name = None then reg_order r @ [name] else reg_order r),
                  commands := fmupd name cmd (commands r)\<rparr>))"

definition Freeze :: "'x CommandRegistry \<Rightarrow> 'x CommandRegistry" where
  "Freeze r = r\<lparr>frozen := True\<rparr>"

text \<open>The verb \<^verbatim>\<open>%-14s\<close> pads to 14 runes; a byte that continues a rune does not count.\<close>

definition rune_count :: "string \<Rightarrow> nat" where
  "rune_count s = length (filter (\<lambda>c. of_char c < (128 :: nat) \<or> 192 \<le> (of_char c :: nat)) s)"

definition pad_right :: "nat \<Rightarrow> string \<Rightarrow> string" where
  "pad_right w s = s @ replicate (w - rune_count s) (CHR '' '')"

definition help_line :: "'x CommandRegistry \<Rightarrow> string \<Rightarrow> string" where
  "help_line r name =
     (let (usage, help) = (case fmlookup (commands r) name of
            None \<Rightarrow> ([], []) | Some cmd \<Rightarrow> (cmd_Usage cmd, cmd_Help cmd));
          display = (if usage \<noteq> [] then usage else name)
      in ''  '' @ pad_right 14 display @ '' '' @ [CHR 0xE2, CHR 0x80, CHR 0x94] @ '' '' @ help @ [CHR 0x0A])"

definition HelpText :: "'x CommandRegistry \<Rightarrow> string" where
  "HelpText r = ''Commands:'' @ [CHR 0x0A] @ concat (map (help_line r) (reg_order r))"

definition builtin_list :: "(string \<times> 'x Command) list" where
  "builtin_list =
     [(''/who'', \<lparr>cmd_Usage = [], cmd_Help = ''list online users'', cmd_Handler = Some HWho\<rparr>),
      (''/nick'', \<lparr>cmd_Usage = ''/nick <name>'', cmd_Help = ''change your nickname'', cmd_Handler = Some HNick\<rparr>),
      (''/quit'', \<lparr>cmd_Usage = [], cmd_Help = ''disconnect'', cmd_Handler = Some HQuit\<rparr>),
      (''/help'', \<lparr>cmd_Usage = [], cmd_Help = ''show this help'', cmd_Handler = Some HHelp\<rparr>)]"

fun register_all ::
  "(string \<times> 'x Command) list \<Rightarrow> 'x CommandRegistry \<Rightarrow> reg_panic + 'x CommandRegistry" where
  "register_all [] r = Inr r"
| "register_all ((name, cmd) # cs) r =
     (case Register name cmd r of Inl p \<Rightarrow> Inl p | Inr r' \<Rightarrow> register_all cs r')"

definition RegisterBuiltins :: "'x CommandRegistry \<Rightarrow> reg_panic + 'x CommandRegistry" where
  "RegisterBuiltins r = register_all builtin_list r"

section \<open>Dispatch\<close>

record Terminal =
  t_prompt :: string
  t_out :: "string list"

definition term_write :: "string \<Rightarrow> Terminal \<Rightarrow> Terminal" where
  "term_write s t = t\<lparr>t_out := t_out t @ [s]\<rparr>"

definition crlf :: string where "crlf = [CHR 0x0D, CHR 0x0A]"

definition Fprintln :: "string \<Rightarrow> Terminal \<Rightarrow> Terminal" where
  "Fprintln s t = term_write (s @ [CHR 0x0A]) t"

definition prompt_of :: "string \<Rightarrow> string" where
  "prompt_of nick = ''['' @ nick @ '']> ''"

text \<open>The result of a handler: whether to close the session, the terminal and the hub.\<close>

type_synonym 'x ext = "'x \<Rightarrow> string list \<Rightarrow> nat \<Rightarrow> Terminal \<Rightarrow> Hub \<Rightarrow> (bool \<times> Terminal \<times> Hub) call"

fun run_handler ::
  "'x ext \<Rightarrow> u64 list \<Rightarrow> 'x CommandRegistry \<Rightarrow> 'x handler \<Rightarrow> string list \<Rightarrow> nat \<Rightarrow> Terminal \<Rightarrow> Hub \<Rightarrow>
     (bool \<times> Terminal \<times> Hub) call" where
  "run_handler ext ks r HWho args a t h =
     map_call (\<lambda>(nicks, h'). (False,
         term_write (''Online ('' @ itoa (length nicks) @ ''): '' @ Join nicks '', '' @ crlf) t, h'))
       (Who_call ks h)"
| "run_handler ext ks r HNick args a t h =
     (case args of
        [] \<Rightarrow> Ret (False, Fprintln ''Usage: /nick <name>'' t, h)
      | newNick # _ \<Rightarrow>
          map_call (\<lambda>h'. (False, t\<lparr>t_prompt := prompt_of newNick\<rparr>, h')) (SetNick_call ks a newNick h))"
| "run_handler ext ks r HQuit args a t h = Ret (True, Fprintln ''Goodbye.'' t, h)"
| "run_handler ext ks r HHelp args a t h = Ret (False, term_write (HelpText r) t, h)"
| "run_handler ext ks r (HExt x) args a t h = ext x args a t h"

definition Dispatch ::
  "'x ext \<Rightarrow> u64 list \<Rightarrow> 'x CommandRegistry \<Rightarrow> string \<Rightarrow> nat \<Rightarrow> Terminal \<Rightarrow> Hub \<Rightarrow>
     (bool \<times> Terminal \<times> Hub) call" where
  "Dispatch ext ks r line a t h =
     (case Fields line of
        [] \<Rightarrow> Ret (False, t, h)
      | name # args \<Rightarrow>
          (case fmlookup (commands r) name of
             None \<Rightarrow> Ret (False, term_write (''Unknown command: '' @ name @ '' (try /help)'' @ crlf) t, h)
           | Some cmd \<Rightarrow>
               (case cmd_Handler cmd of
                  None \<Rightarrow> Crash NilDereference
                | Some hdl \<Rightarrow> run_handler ext ks r hdl args a t h)))"

section \<open>The terminal\<close>

text \<open>
  \<^verbatim>\<open>runTerminal\<close> up to its read loop, one iteration of the loop (the result says whether the loop
  ends), and what the sender goroutine does with one line of the session.
\<close>

definition terminal_start :: "u64 list \<Rightarrow> string \<Rightarrow> Hub \<Rightarrow> (nat \<times> Terminal \<times> Hub) call" where
  "terminal_start ks nick h =
     map_call (\<lambda>(a, h'). (a,
         Fprintln [] (Fprintln ''Type /help for commands.''
           (term_write (''Welcome to '' @ NodeName h' @ '' partyline!'' @ crlf)
             \<lparr>t_prompt = prompt_of nick, t_out = []\<rparr>)), h'))
       (Join_call ks nick h)"

definition terminal_line ::
  "'x ext \<Rightarrow> u64 list \<Rightarrow> 'x CommandRegistry \<Rightarrow> string \<Rightarrow> nat \<Rightarrow> Terminal \<Rightarrow> Hub \<Rightarrow>
     (bool \<times> Terminal \<times> Hub) call" where
  "terminal_line ext ks r input a t h =
     (let line = TrimSpace input in
      if line = [] then Ret (False, t, h)
      else if HasPrefix line ''/'' then Dispatch ext ks r line a t h
      else map_call (\<lambda>h'. (False, t, h')) (Broadcast_call a line h))"

definition terminal_deliver :: "nat \<Rightarrow> Terminal \<Rightarrow> Hub \<Rightarrow> (Terminal \<times> Hub) option" where
  "terminal_deliver a t h =
     (case fmlookup (hub_heap h) a of
        None \<Rightarrow> None
      | Some s \<Rightarrow> (case ses_Send s of [] \<Rightarrow> None | msg # _ \<Rightarrow> Some (Fprintln msg t, session_recv a h)))"

section \<open>Members\<close>

text \<open>The open sessions; while the hub runs they are the sessions of its map.\<close>

definition members :: "Hub \<Rightarrow> nat set" where
  "members h = {a. \<exists>s. fmlookup (hub_heap h) a = Some s \<and> \<not> ses_closed s}"

definition same_flags :: "(nat, Session) fmap \<Rightarrow> (nat, Session) fmap \<Rightarrow> bool" where
  "same_flags heap heap' \<longleftrightarrow>
     (\<forall>a. map_option (\<lambda>s. (ses_closed s, ses_Nick s)) (fmlookup heap' a) =
          map_option (\<lambda>s. (ses_closed s, ses_Nick s)) (fmlookup heap a))"

lemma same_flags_trans: "same_flags x y \<Longrightarrow> same_flags y z \<Longrightarrow> same_flags x z"
  by (simp add: same_flags_def)

lemma same_flags_members: "same_flags (hub_heap h) (hub_heap h') \<Longrightarrow> members h' = members h"
proof -
  assume f: "same_flags (hub_heap h) (hub_heap h')"
  have "(\<exists>s. fmlookup (hub_heap h') a = Some s \<and> \<not> ses_closed s) \<longleftrightarrow>
      (\<exists>s. fmlookup (hub_heap h) a = Some s \<and> \<not> ses_closed s)" for a
    using f [unfolded same_flags_def, rule_format, of a]
    by (cases "fmlookup (hub_heap h) a"; cases "fmlookup (hub_heap h') a") auto
  then show ?thesis by (simp add: members_def)
qed

lemma sendAll_flags: "sendAll ks sessions ex line heap = Inr heap' \<Longrightarrow> same_flags heap heap'"
proof (induction ks sessions ex line heap rule: sendAll.induct)
  case (2 k ks sessions ex line heap)
  have upd: "same_flags heap (fmupd a (s\<lparr>ses_Send := q\<rparr>) heap)" if "fmlookup heap a = Some s" for a s q
    using that by (simp add: same_flags_def)
  show ?case
    using "2.prems" "2.IH" upd by (fastforce split: option.splits if_splits dest: same_flags_trans)
qed (simp add: same_flags_def)

lemma with_heap_sendAll:
  assumes "with_heap h (sendAll ks sessions ex line (hub_heap h)) = Inr h'"
  shows "same_flags (hub_heap h) (hub_heap h') \<and> h' = h\<lparr>hub_heap := hub_heap h'\<rparr>"
  using assms by (auto simp: with_heap_def dest: sendAll_flags split: sum.splits)

lemma members_upd:
  "members (h\<lparr>hub_heap := fmupd a s (hub_heap h)\<rparr>) = (if ses_closed s then members h - {a} else insert a (members h))"
  by (auto simp: members_def)

lemma join_members:
  assumes "hub_join ks nick h = Inr h'"
  shows "members h' = insert (hub_next h) (members h) \<and> hub_next h' = Suc (hub_next h) \<and>
    hub_running h' = hub_running h \<and> hub_broadcast h' = hub_broadcast h \<and> remoteSend h' = remoteSend h"
proof -
  let ?s = "\<lparr>ses_ID = sessionCounter h + 1, ses_Nick = nick, ses_Send = [], ses_closed = False\<rparr>"
  let ?h = "h\<lparr>sessionCounter := sessionCounter h + 1, hub_next := Suc (hub_next h),
      hub_sessions := fmupd (sessionCounter h + 1) (hub_next h) (hub_sessions h),
      hub_heap := fmupd (hub_next h) ?s (hub_heap h)\<rparr>"
  have w: "same_flags (hub_heap ?h) (hub_heap h')" "h' = ?h\<lparr>hub_heap := hub_heap h'\<rparr>"
    using assms with_heap_sendAll [of ?h ks "hub_sessions ?h" None "join_line nick" h']
    by (simp_all add: hub_join_def Let_def)
  have "members ?h = insert (hub_next h) (members h)" by (auto simp: members_def)
  with same_flags_members [OF w(1)] show ?thesis by (subst (2 3 4 5) w(2)) simp
qed

lemma leave_members:
  assumes "hub_inv h" and "hub_running h" and "hub_leave ks a h = Inr h'"
  shows "members h' = members h - {a} \<and> hub_next h' = hub_next h \<and>
    hub_running h' = hub_running h \<and> hub_broadcast h' = hub_broadcast h \<and> remoteSend h' = remoteSend h"
proof -
  obtain s where s: "fmlookup (hub_heap h) a = Some s" using assms(3) by (auto simp: hub_leave_def split: option.splits)
  show ?thesis
  proof (cases "fmlookup (hub_sessions h) (ses_ID s)")
    case None
    then have "ses_closed s" using hub_invD(3,4) [OF assms(1) s] assms(2) by (metis option.distinct(1))
    then have "a \<notin> members h" using s by (simp add: members_def)
    then show ?thesis using None s assms(3) by (simp add: hub_leave_def)
  next
    case (Some b)
    let ?h = "h\<lparr>hub_sessions := fmdrop (ses_ID s) (hub_sessions h),
        hub_heap := fmupd a (s\<lparr>ses_closed := True\<rparr>) (hub_heap h)\<rparr>"
    have w: "same_flags (hub_heap ?h) (hub_heap h')" "h' = ?h\<lparr>hub_heap := hub_heap h'\<rparr>"
      using Some s assms(3) with_heap_sendAll [of ?h ks "hub_sessions ?h" None "leave_line (ses_Nick s)" h']
      by (simp_all add: hub_leave_def Let_def split: if_splits)
    have "members ?h = members h - {a}" by (auto simp: members_def)
    with same_flags_members [OF w(1)] show ?thesis by (subst (2 3 4 5) w(2)) simp
  qed
qed

lemma setNick_members:
  assumes "hub_setNick ks a nick h = Inr h'"
  shows "members h' = members h \<and> hub_next h' = hub_next h \<and> hub_running h' = hub_running h \<and>
    hub_broadcast h' = hub_broadcast h \<and> remoteSend h' = remoteSend h \<and>
    (\<exists>s. fmlookup (hub_heap h') a = Some s \<and> ses_Nick s = nick)"
proof -
  obtain s where s: "fmlookup (hub_heap h) a = Some s" using assms by (auto simp: hub_setNick_def split: option.splits)
  let ?h = "h\<lparr>hub_heap := fmupd a (s\<lparr>ses_Nick := nick\<rparr>) (hub_heap h)\<rparr>"
  have w: "same_flags (hub_heap ?h) (hub_heap h')" "h' = ?h\<lparr>hub_heap := hub_heap h'\<rparr>"
    using s assms with_heap_sendAll [of ?h ks "hub_sessions ?h" None "nick_line (ses_Nick s) nick" h']
    by (simp_all add: hub_setNick_def Let_def)
  have "members ?h = members h" using s by (auto simp: members_def)
  moreover have "\<exists>s. fmlookup (hub_heap h') a = Some s \<and> ses_Nick s = nick"
    using w(1) [unfolded same_flags_def, rule_format, of a] by auto
  ultimately show ?thesis using same_flags_members [OF w(1)] by (subst (2 3 4 5) w(2)) simp
qed

lemma broadcast_members:
  assumes "hub_handle_broadcast ks msg h = Inr h'"
  shows "members h' = members h \<and> hub_next h' = hub_next h \<and> hub_running h' = hub_running h"
proof -
  have push: "hub_heap (push_remote m g) = hub_heap g \<and> hub_next (push_remote m g) = hub_next g \<and>
      hub_running (push_remote m g) = hub_running g" for m g
    by (simp add: push_remote_def split: option.splits)
  have "\<exists>g ex line. with_heap h (sendAll ks (hub_sessions h) ex line (hub_heap h)) = Inr g \<and>
      (h' = g \<or> (\<exists>m. h' = push_remote m g))"
    using assms by (auto simp: hub_handle_broadcast_def Let_def split: option.splits if_splits sum.splits)
  then obtain g ex line m where g: "with_heap h (sendAll ks (hub_sessions h) ex line (hub_heap h)) = Inr g"
    and h': "h' = g \<or> h' = push_remote m g" by blast
  have "members h' = members g \<and> hub_next h' = hub_next g \<and> hub_running h' = hub_running g"
    using h' push by (auto simp: members_def)
  moreover have "members g = members h" using with_heap_sendAll [OF g] same_flags_members by blast
  moreover have "hub_next g = hub_next h \<and> hub_running g = hub_running h"
    using with_heap_sendAll [OF g] by (metis Hub.select_convs(4,9) Hub.surjective Hub.update_convs(3))
  ultimately show ?thesis by simp
qed

section \<open>Calls keep the hub's invariant\<close>

lemma hub_call_inv:
  assumes "hub_inv h" and "op_ok (OpCase ks c) h"
  shows "hub_call ks c h \<noteq> Crash p" and "hub_call ks c h = Ret h' \<Longrightarrow> hub_inv h' \<and> hub_running h"
    and "hub_call ks c h = Blocked \<longleftrightarrow> \<not> hub_running h"
  using hub_inv_Run [OF assms] by (auto simp: hub_call_def split: if_splits)

lemma hub_call_RetD: "hub_call ks c h = Ret h' \<longleftrightarrow> hub_running h \<and> hub_Run ks c h = Inr h'"
  by (auto simp: hub_call_def split: if_splits sum.splits)

lemma map_call_iffs [simp]:
  "map_call f x = Blocked \<longleftrightarrow> x = Blocked" "map_call f x = Crash p \<longleftrightarrow> x = Crash p"
  "map_call f x = Ret y \<longleftrightarrow> (\<exists>z. x = Ret z \<and> y = f z)"
  by (cases x; auto)+

section \<open>The builtin commands\<close>

text \<open>A registry whose entries all have handlers and are listed once, in the order of registration.\<close>

definition reg_ok :: "'x CommandRegistry \<Rightarrow> bool" where
  "reg_ok r \<longleftrightarrow> distinct (reg_order r) \<and> (\<forall>name. name \<in> set (reg_order r) \<longleftrightarrow> fmlookup (commands r) name \<noteq> None) \<and>
     (\<forall>name cmd. fmlookup (commands r) name = Some cmd \<longrightarrow> cmd_Handler cmd \<noteq> None)"

lemma Register_ok:
  assumes "reg_ok r" and "Register name cmd r = Inr r'"
  shows "reg_ok r' \<and> frozen r' = frozen r"
  using assms by (auto simp: reg_ok_def Register_def split: if_splits)

lemma register_all_ok:
  "register_all cs r = Inr r' \<Longrightarrow> reg_ok r \<Longrightarrow> reg_ok r' \<and> frozen r' = frozen r"
proof (induction cs r rule: register_all.induct)
  case (2 name cmd cs r)
  obtain r1 where r1: "Register name cmd r = Inr r1" "register_all cs r1 = Inr r'"
    using "2.prems"(1) by (auto split: sum.splits)
  show ?case using "2.IH" [OF r1] Register_ok [OF "2.prems"(2) r1(1)] by simp
qed simp

lemma register_all_new:
  assumes "register_all cs r = Inr r'" and "distinct (map fst cs)"
    and "\<forall>name \<in> fst ` set cs. fmlookup (commands r) name = None"
  shows "fmlookup (commands r') name = (case map_of cs name of None \<Rightarrow> fmlookup (commands r) name | Some cmd \<Rightarrow> Some cmd) \<and>
    reg_order r' = reg_order r @ map fst cs"
  using assms
proof (induction cs r rule: register_all.induct)
  case (2 n cmd cs r)
  obtain r1 where r1: "Register n cmd r = Inr r1" "register_all cs r1 = Inr r'"
    using "2.prems"(1) by (auto split: sum.splits)
  have r1': "commands r1 = fmupd n cmd (commands r)" "reg_order r1 = reg_order r @ [n]"
    using r1(1) "2.prems"(3) by (auto simp: Register_def split: if_splits)
  have n: "map_of cs n = None" "n \<notin> fst ` set cs" using "2.prems"(2) by (simp_all add: map_of_eq_None_iff)
  have "\<forall>name \<in> fst ` set cs. fmlookup (commands r1) name = None"
    unfolding r1' using "2.prems"(3) n(2) by auto
  with "2.IH" [OF r1] "2.prems"(2) n r1' show ?case by (auto split: option.splits)
qed simp

lemma RegisterBuiltins_run:
  fixes r :: "'x CommandRegistry"
  assumes "RegisterBuiltins NewCommandRegistry = Inr r"
  shows "fmlookup (commands r) name = map_of builtin_list name"
    and "reg_order r = map fst (builtin_list :: (string \<times> 'x Command) list)" and "\<not> frozen r" and "reg_ok r"
proof -
  have d: "distinct (map fst (builtin_list :: (string \<times> 'x Command) list))" by (simp add: builtin_list_def)
  have run: "register_all builtin_list (NewCommandRegistry :: 'x CommandRegistry) = Inr r"
    using assms by (simp add: RegisterBuiltins_def)
  have new: "reg_ok (NewCommandRegistry :: 'x CommandRegistry)" by (simp add: reg_ok_def NewCommandRegistry_def)
  show "fmlookup (commands r) name = map_of builtin_list name"
    "reg_order r = map fst (builtin_list :: (string \<times> 'x Command) list)"
    using register_all_new [OF run d, of name] by (auto simp: NewCommandRegistry_def split: option.splits)
  show "reg_ok r" "\<not> frozen r" using register_all_ok [OF run new] by (simp_all add: NewCommandRegistry_def)
qed

lemma RegisterBuiltins_total: "\<exists>r. RegisterBuiltins NewCommandRegistry = Inr r"
  by (simp add: RegisterBuiltins_def builtin_list_def NewCommandRegistry_def Register_def)

lemma slash_fields:
  assumes "HasPrefix line ''/''"
  obtains name args where "Fields line = (CHR ''/'' # name) # args"
proof -
  obtain rest where "line = CHR ''/'' # rest" using assms by (auto simp: HasPrefix_def prefix_def)
  then show ?thesis using Fields_head [OF leading_slash [of rest]] that by blast
qed

section \<open>What a typed line does\<close>

lemma run_handler_effect:
  assumes "hub_inv h" and "a < hub_next h" and "distinct ks" and "hdl \<in> {HWho, HNick, HQuit, HHelp}"
  shows "run_handler ext ks r hdl args a t h \<noteq> Crash p"
    and "run_handler ext ks r hdl args a t h = Blocked \<Longrightarrow> \<not> hub_running h"
    and "run_handler ext ks r hdl args a t h = Ret (q, t', h') \<Longrightarrow>
      hub_inv h' \<and> members h' = members h \<and> remoteSend h' = remoteSend h \<and> hub_broadcast h' = hub_broadcast h \<and>
      hub_next h' = hub_next h \<and> (q \<longleftrightarrow> hdl = HQuit)"
proof -
  have nick: "op_ok (OpCase ks (CSetNick a n)) h" and who: "op_ok (OpCase ks CWho) h" for n
    using assms by simp_all
  note calls = hub_call_inv [OF assms(1) nick] hub_call_inv [OF assms(1) who]
  show "run_handler ext ks r hdl args a t h \<noteq> Crash p"
    using assms(4) calls by (auto simp: Who_call_def SetNick_call_def split: list.splits)
  show "\<not> hub_running h" if "run_handler ext ks r hdl args a t h = Blocked"
    using that assms(4) calls by (auto simp: Who_call_def SetNick_call_def split: list.splits)
  have n: "hub_inv g \<and> members g = members h \<and> remoteSend g = remoteSend h \<and> hub_broadcast g = hub_broadcast h \<and>
      hub_next g = hub_next h" if "hub_call ks (CSetNick a n) h = Ret g" for g n
    using that hub_call_inv(2) [OF assms(1) nick that] setNick_members [of ks a n h g] by (auto simp: hub_call_RetD)
  have w: "g = h" if "hub_call ks CWho h = Ret g" for g using that by (auto simp: hub_call_RetD)
  show "hub_inv h' \<and> members h' = members h \<and> remoteSend h' = remoteSend h \<and> hub_broadcast h' = hub_broadcast h \<and>
      hub_next h' = hub_next h \<and> (q \<longleftrightarrow> hdl = HQuit)"
    if "run_handler ext ks r hdl args a t h = Ret (q, t', h')"
    using that assms(1,4) by (auto simp: Who_call_def SetNick_call_def split: list.splits dest!: n w)
qed

lemma builtin_handlers:
  "map_of builtin_list name = Some cmd \<Longrightarrow>
     \<exists>hdl \<in> {HWho, HNick, HQuit, HHelp}. cmd_Handler cmd = Some hdl \<and> (hdl = HQuit \<longleftrightarrow> name = ''/quit'')"
  by (auto simp: builtin_list_def split: if_splits)

lemma who_members:
  assumes "hub_inv h" and "hub_running h" and "range_order ks (hub_sessions h)"
  shows "set (who_nicks ks h) = {ses_Nick s | a s. a \<in> members h \<and> fmlookup (hub_heap h) a = Some s}"
    and "length (who_nicks ks h) = card (members h)"
proof -
  note good = hub_invD(5) [OF assms(1,2)]
  let ?as = "map_range ks (hub_sessions h)"
  have set: "set ?as = members h"
  proof -
    have "(\<exists>k. fmlookup (hub_sessions h) k = Some a) \<longleftrightarrow> a \<in> members h" for a
      using good_mapD [OF good, of _ a] hub_invD(4) [OF assms(1) _ assms(2), of a] unfolding members_def by blast
    then show ?thesis using set_map_range_order [OF assms(3)] by blast
  qed
  have inj: "k = k'" if "fmlookup (hub_sessions h) k = Some a" "fmlookup (hub_sessions h) k' = Some a" for k k' a
    using good_mapD [OF good that(1)] good_mapD [OF good that(2)] by auto
  have "distinct (map_range js (hub_sessions h))" if "distinct js" for js
    using that by (induction js) (auto simp: set_map_range dest: inj split: option.splits)
  then have card: "length ?as = card (members h)"
    using assms(3) set distinct_card [of ?as] by (simp add: range_order_def)
  have some: "fmlookup (hub_heap h) a \<noteq> None" if "a \<in> set ?as" for a
    using that unfolding set members_def by auto
  have "length (List.map_filter (fmlookup (hub_heap h)) as) = length as"
    if "\<forall>a\<in>set as. fmlookup (hub_heap h) a \<noteq> None" for as
    using that by (induction as) (auto simp: List.map_filter_simps)
  from this [of ?as] some card show "length (who_nicks ks h) = card (members h)"
    by (simp add: who_nicks_def)
  show "set (who_nicks ks h) = {ses_Nick s | a s. a \<in> members h \<and> fmlookup (hub_heap h) a = Some s}"
    unfolding who_nicks_def using some by (force simp: List.map_filter_def set [symmetric])
qed

text \<open>
  C17. What a line typed at a terminal does, with the builtin commands. It never crashes the hub, and
  it waits only for a hub that has ended or has 64 messages pending. A line that is blank or begins
  with a slash once trimmed is never broadcast; any other line is broadcast once, trimmed, in the
  user's name, and in no case does a line reach the transport directly or change who is a member.
  Only \<^verbatim>\<open>/quit\<close> ends the session, \<^verbatim>\<open>/nick\<close> changes the nickname and the prompt together, and \<^verbatim>\<open>/who\<close>
  prints the number of members with all their nicknames.
\<close>

theorem typed_line_effect:
  fixes input :: string
  defines "line \<equiv> TrimSpace input"
  assumes "RegisterBuiltins NewCommandRegistry = Inr r" and "hub_inv h" and "a < hub_next h"
    and "range_order ks (hub_sessions h)"
  shows "terminal_line ext ks (Freeze r) input a t h \<noteq> Crash p \<and>
    (terminal_line ext ks (Freeze r) input a t h = Blocked \<longrightarrow> \<not> hub_running h \<or> ChanCap \<le> length (hub_broadcast h)) \<and>
    (\<forall>q t' h'. terminal_line ext ks (Freeze r) input a t h = Ret (q, t', h') \<longrightarrow>
       hub_inv h' \<and> members h' = members h \<and> remoteSend h' = remoteSend h \<and>
       hub_broadcast h' = hub_broadcast h @
         (if line = [] \<or> HasPrefix line ''/'' then []
          else [\<lparr>bm_from = Some a, bm_text = line, bm_system = False\<rparr>]) \<and>
       (q \<longleftrightarrow> HasPrefix line ''/'' \<and> hd (Fields line) = ''/quit'') \<and>
       (\<forall>n ns. HasPrefix line ''/'' \<and> Fields line = ''/nick'' # n # ns \<longrightarrow>
          (\<exists>s. fmlookup (hub_heap h') a = Some s \<and> ses_Nick s = n) \<and> t_prompt t' = prompt_of n) \<and>
       (\<forall>ns. HasPrefix line ''/'' \<and> Fields line = ''/who'' # ns \<longrightarrow>
          (\<exists>nicks. t_out t' = t_out t @ [''Online ('' @ itoa (card (members h)) @ ''): '' @ Join nicks '', '' @ crlf] \<and>
             set nicks = {ses_Nick s | b s. b \<in> members h \<and> fmlookup (hub_heap h) b = Some s})))"
proof (cases "line \<noteq> [] \<and> HasPrefix line ''/''")
  case True
  then obtain name args where f: "Fields line = (CHR ''/'' # name) # args" using slash_fields by blast
  have run: "terminal_line ext ks (Freeze r) input a t h = Dispatch ext ks (Freeze r) line a t h"
    using True by (simp add: terminal_line_def line_def Let_def)
  have lk: "fmlookup (commands (Freeze r)) n = map_of builtin_list n" for n
    using RegisterBuiltins_run(1) [OF assms(2)] by (simp add: Freeze_def)
  show ?thesis
  proof (cases "map_of builtin_list (CHR ''/'' # name) :: 'a Command option")
    case None
    then have "(CHR ''/'' # name) \<noteq> ''/quit'' \<and> (CHR ''/'' # name) \<noteq> ''/nick'' \<and> (CHR ''/'' # name) \<noteq> ''/who''"
      by (auto simp: builtin_list_def split: if_splits)
    with None show ?thesis using True f assms(3) unfolding run by (auto simp: Dispatch_def lk)
  next
    case (Some cmd)
    then obtain hdl where hdl: "hdl \<in> {HWho, HNick, HQuit, HHelp}" "cmd_Handler cmd = Some hdl"
      "hdl = HQuit \<longleftrightarrow> CHR ''/'' # name = ''/quit''" using builtin_handlers by blast
    have D: "Dispatch ext ks (Freeze r) line a t h = run_handler ext ks (Freeze r) hdl args a t h"
      using Some hdl f by (simp add: Dispatch_def lk)
    have ks: "distinct ks" using assms(5) by (simp add: range_order_def)
    note eff = run_handler_effect [OF assms(3,4) ks hdl(1)]
    have nick: "(\<exists>s. fmlookup (hub_heap h') a = Some s \<and> ses_Nick s = n) \<and> t_prompt t' = prompt_of n"
      if "run_handler ext ks (Freeze r) hdl args a t h = Ret (q, t', h')"
        "CHR ''/'' # name = ''/nick''" "args = n # ns" for q t' h' n ns
      using that hdl(2) Some setNick_members [of ks a n h h']
      by (auto simp: builtin_list_def SetNick_call_def hub_call_RetD split: if_splits)
    have who: "\<exists>nicks. t_out t' = t_out t @ [''Online ('' @ itoa (card (members h)) @ ''): '' @ Join nicks '', '' @ crlf] \<and>
        set nicks = {ses_Nick s | b s. b \<in> members h \<and> fmlookup (hub_heap h) b = Some s}"
      if "run_handler ext ks (Freeze r) hdl args a t h = Ret (q, t', h')" "CHR ''/'' # name = ''/who''" for q t' h'
    proof -
      have "hub_running h" "t' = term_write (''Online ('' @ itoa (length (who_nicks ks h)) @ ''): '' @ Join (who_nicks ks h) '', '' @ crlf) t"
        using that hdl(2) Some by (auto simp: builtin_list_def Who_call_def hub_call_RetD split: if_splits)
      then show ?thesis using who_members [OF assms(3) _ assms(5)] by (intro exI [of _ "who_nicks ks h"]) (simp add: term_write_def)
    qed
    show ?thesis
      unfolding run D using eff nick who True f hdl(3) by auto
  qed
next
  case False
  then show ?thesis
    using assms(3) hub_inv_apply [OF assms(3), of "OpBroadcast a line"] assms(4)
    by (auto simp: terminal_line_def line_def [symmetric] Let_def Broadcast_call_def hub_Broadcast_def members_def
      HasPrefix_def)
qed

section \<open>Example\<close>

definition demo_reg :: "unit CommandRegistry" where
  "demo_reg = (case RegisterBuiltins NewCommandRegistry of Inr r \<Rightarrow> r | Inl _ \<Rightarrow> NewCommandRegistry)"

lemma demo_reg_builtins: "RegisterBuiltins NewCommandRegistry = Inr demo_reg"
  using RegisterBuiltins_total [where 'a = unit] by (auto simp: demo_reg_def)

definition demo_ext :: "unit ext" where
  "demo_ext x args a t h = Ret (False, t, h)"

definition demo_term :: Terminal where
  "demo_term = \<lparr>t_prompt = prompt_of ''ann'', t_out = []\<rparr>"

lemma demo_hub_ok:
  "hub_inv demo_hub" "hub_running demo_hub" "range_order [1, 2] (hub_sessions demo_hub)" "hub_next demo_hub = 2"
  "length (hub_broadcast demo_hub) = 1"
proof -
  have "ops_ok (take 3 demo_hub_ops) (SetRemoteSend (NewHub ''n''))"
    "hub_exec (take 3 demo_hub_ops) (SetRemoteSend (NewHub ''n'')) = Inr demo_hub"
    unfolding demo_hub_def demo_hub_ops_def by (simp_all add: hub_eval)
  then show "hub_inv demo_hub" using hub_exec_inv [OF hub_inv_New(2)] by (metis Inr_inject)
  show "hub_running demo_hub" "range_order [1, 2] (hub_sessions demo_hub)" "hub_next demo_hub = 2"
    "length (hub_broadcast demo_hub) = 1"
    unfolding demo_hub_def demo_hub_ops_def
    by (simp_all add: hub_eval range_order_def finsert_commute)
qed

theorem typed_line_effect_witness:
  "(\<exists>h'. terminal_line demo_ext [1, 2] (Freeze demo_reg) '' good day '' 0 demo_term demo_hub = Ret (False, demo_term, h') \<and>
     hub_broadcast h' = hub_broadcast demo_hub @ [\<lparr>bm_from = Some 0, bm_text = ''good day'', bm_system = False\<rparr>]) \<and>
   (\<exists>q t' h'. terminal_line demo_ext [1, 2] (Freeze demo_reg) ''/nick bea'' 0 demo_term demo_hub = Ret (q, t', h') \<and>
     t_prompt t' = ''[bea]> '' \<and> hub_broadcast h' = hub_broadcast demo_hub)"
proof -
  have n: "0 < hub_next demo_hub" using demo_hub_ok(4) by simp
  note eff = typed_line_effect [OF demo_reg_builtins demo_hub_ok(1) n demo_hub_ok(3),
      where ext = demo_ext and t = demo_term]
  note eff2 = eff [where input = "''/nick bea''"]
  have strings: "TrimSpace '' good day '' = ''good day''" "TrimSpace ''/nick bea'' = ''/nick bea''"
    "Fields ''/nick bea'' = [''/nick'', ''bea'']" by code_simp+
  have "terminal_line demo_ext [1, 2] (Freeze demo_reg) '' good day '' 0 demo_term demo_hub =
      Ret (False, demo_term, hub_Broadcast 0 ''good day'' demo_hub)"
    using demo_hub_ok(5) by (simp add: terminal_line_def strings HasPrefix_def Broadcast_call_def ChanCap_def)
  moreover have "hub_broadcast (hub_Broadcast 0 ''good day'' demo_hub) =
      hub_broadcast demo_hub @ [\<lparr>bm_from = Some 0, bm_text = ''good day'', bm_system = False\<rparr>]"
    using eff [where input = "'' good day ''"] calculation by (auto simp: strings HasPrefix_def)
  moreover have "\<exists>q t' h'. terminal_line demo_ext [1, 2] (Freeze demo_reg) ''/nick bea'' 0 demo_term demo_hub = Ret (q, t', h')"
    using eff2 [THEN conjunct1] eff2 [THEN conjunct2, THEN conjunct1] demo_hub_ok(2,5)
    by (cases "terminal_line demo_ext [1, 2] (Freeze demo_reg) ''/nick bea'' 0 demo_term demo_hub") (auto simp: ChanCap_def)
  moreover have "t_prompt t' = ''[bea]> '' \<and> hub_broadcast h' = hub_broadcast demo_hub"
    if "terminal_line demo_ext [1, 2] (Freeze demo_reg) ''/nick bea'' 0 demo_term demo_hub = Ret (q, t', h')" for q t' h'
    using eff2 [THEN conjunct2, THEN conjunct2, rule_format, OF that]
    unfolding strings by (simp add: HasPrefix_def prompt_of_def)
  ultimately show ?thesis by blast
qed

end
