(* ===== verification/SSHServer.thy ===== *)
theory SSHServer
  imports Commands
begin

text \<open>
  The SSH server (\<^verbatim>\<open>internal/ssh/server.go\<close>): its connections, the authentication of users, their
  sessions and the shutdown.

  The state is the server's fields, with the hub it shares with the transport. Each accepted connection
  has a goroutine \<^verbatim>\<open>handleConnection\<close>; \<open>srv_live\<close> holds what the running ones know (so its size is the
  count of the server's wait group), and each session channel of a connection is in a state of
  \<open>chan_state\<close>, which follows \<^verbatim>\<open>handleSession\<close> and \<^verbatim>\<open>runTerminal\<close>. A public key stands for the bytes its
  \<^verbatim>\<open>Marshal\<close> returns. The SSH library is not modelled: its handshake may fail at any time and succeeds
  only with a key that the server's callback accepts; a client may open channels, send requests and
  lines and go away at any time. \<^verbatim>\<open>ParseAuthorizedKey\<close> of the library is the parameter \<open>parse\<close>.
\<close>

section \<open>Data\<close>

datatype chan_state =
    AwaitShell
  | Running nat Terminal
  | Leaving nat Terminal
  | Draining nat Terminal
  | Finished

record ssh_conn =
  cn_closed :: bool
  cn_user :: "string option"
  cn_key :: bytes
  cn_chans :: "chan_state list"

record 'x Server =
  srv_hub :: Hub
  srv_commands :: "'x CommandRegistry"
  authKeys :: "bytes list"
  srv_listener :: "bool option"
  srv_conns :: "nat fset"
  stopping :: bool
  srv_live :: "(nat, ssh_conn) fmap"
  srv_next :: nat

section \<open>Operations\<close>

text \<open>The loop of \<^verbatim>\<open>loadAuthorizedKeys\<close>; it may not end if the parser does not consume its input.\<close>

partial_function (option) keys_loop ::
  "(bytes \<Rightarrow> (bytes \<times> bytes) option) \<Rightarrow> bytes \<Rightarrow> bytes list \<Rightarrow> bytes list option" where
  "keys_loop parse data keys =
     (if data = [] then Some keys
      else (case parse data of
              None \<Rightarrow> Some keys
            | Some r \<Rightarrow> keys_loop parse (snd r) (keys @ [fst r])))"

declare keys_loop.simps [code]

definition loadAuthorizedKeys ::
  "(bytes \<Rightarrow> (bytes \<times> bytes) option) \<Rightarrow> bytes option \<Rightarrow> bytes list option" where
  "loadAuthorizedKeys parse file =
     (case file of None \<Rightarrow> Some [] | Some data \<Rightarrow> keys_loop parse data [])"

definition NewServer ::
  "(bytes \<Rightarrow> (bytes \<times> bytes) option) \<Rightarrow> bytes option \<Rightarrow> Hub \<Rightarrow> (reg_panic + 'x Server) option" where
  "NewServer parse file hub =
     (case RegisterBuiltins NewCommandRegistry of
        Inl p \<Rightarrow> Some (Inl p)
      | Inr registry \<Rightarrow>
          map_option (\<lambda>keys. Inr \<lparr>srv_hub = hub, srv_commands = registry, authKeys = keys, srv_listener = None,
              srv_conns = {||}, stopping = False, srv_live = fmempty, srv_next = 0\<rparr>)
            (loadAuthorizedKeys parse file))"

text \<open>A successful \<^verbatim>\<open>Listen\<close>; if the address cannot be bound it returns an error and changes nothing.\<close>

definition srv_Listen :: "'x Server \<Rightarrow> 'x Server" where
  "srv_Listen s = s\<lparr>srv_listener := Some True, srv_commands := Freeze (srv_commands s)\<rparr>"

definition publicKeyCallback :: "'x Server \<Rightarrow> bytes \<Rightarrow> bool" where
  "publicKeyCallback s key = list_ex (\<lambda>authorized. key = authorized) (authKeys s)"

text \<open>The body of the loop of \<^verbatim>\<open>Serve\<close> for an accepted connection.\<close>

definition srv_accept :: "'x Server \<Rightarrow> 'x Server" where
  "srv_accept s =
     (let i = srv_next s; s1 = s\<lparr>srv_next := Suc i\<rparr> in
      if stopping s then s1
      else s1\<lparr>srv_conns := finsert i (srv_conns s),
              srv_live := fmupd i \<lparr>cn_closed = False, cn_user = None, cn_key = [], cn_chans = []\<rparr> (srv_live s)\<rparr>)"

text \<open>
  \<^verbatim>\<open>Serve\<close>: it fails before \<^verbatim>\<open>Listen\<close>; the end of the context closes the listener; an iteration takes what
  \<^verbatim>\<open>Accept\<close> returned and says whether \<^verbatim>\<open>Serve\<close> returns.
\<close>

definition Serve_starts :: "'x Server \<Rightarrow> bool" where
  "Serve_starts s \<longleftrightarrow> srv_listener s \<noteq> None"

definition Serve_ctx_done :: "'x Server \<Rightarrow> 'x Server" where
  "Serve_ctx_done s = s\<lparr>srv_listener := map_option (\<lambda>_. False) (srv_listener s)\<rparr>"

definition Serve_iter :: "bool \<Rightarrow> bool \<Rightarrow> 'x Server \<Rightarrow> bool \<times> 'x Server" where
  "Serve_iter ctx accepted s =
     (if \<not> accepted then (ctx, s)
      else (stopping s, srv_accept s))"

text \<open>\<^verbatim>\<open>Start\<close>: \<open>binds\<close> says whether the address can be bound; \<^const>\<open>None\<close> is the error.\<close>

definition srv_Start :: "bool \<Rightarrow> 'x Server \<Rightarrow> 'x Server option" where
  "srv_Start binds s = (if binds then Some (srv_Listen s) else None)"

definition removeConn :: "nat \<Rightarrow> 'x Server \<Rightarrow> 'x Server" where
  "removeConn i s = s\<lparr>srv_conns := srv_conns s |-| {|i|}\<rparr>"

text \<open>The deferred calls of \<^verbatim>\<open>handleConnection\<close>: the connection is removed and closed, the goroutine ends.\<close>

definition conn_done :: "nat \<Rightarrow> 'x Server \<Rightarrow> 'x Server" where
  "conn_done i s = (removeConn i s)\<lparr>srv_live := fmdrop i (srv_live s)\<rparr>"

definition srv_Stop :: "'x Server \<Rightarrow> 'x Server" where
  "srv_Stop s =
     (if stopping s then s
      else s\<lparr>stopping := True, srv_listener := map_option (\<lambda>_. False) (srv_listener s),
             srv_live := fmmap_keys (\<lambda>i c. if i |\<in>| srv_conns s then c\<lparr>cn_closed := True\<rparr> else c) (srv_live s)\<rparr>)"

definition upd_conn :: "nat \<Rightarrow> (ssh_conn \<Rightarrow> ssh_conn) \<Rightarrow> 'x Server \<Rightarrow> 'x Server" where
  "upd_conn i f s = (case fmlookup (srv_live s) i of None \<Rightarrow> s | Some c \<Rightarrow> s\<lparr>srv_live := fmupd i (f c) (srv_live s)\<rparr>)"

definition upd_chan :: "nat \<Rightarrow> nat \<Rightarrow> chan_state \<Rightarrow> 'x Server \<Rightarrow> 'x Server" where
  "upd_chan i j x s = upd_conn i (\<lambda>c. c\<lparr>cn_chans := (cn_chans c)[j := x]\<rparr>) s"

definition chan_at :: "'x Server \<Rightarrow> nat \<Rightarrow> nat \<Rightarrow> chan_state option" where
  "chan_at s i j =
     (case fmlookup (srv_live s) i of
        None \<Rightarrow> None
      | Some c \<Rightarrow> if j < length (cn_chans c) then Some (cn_chans c ! j) else None)"

text \<open>A new channel in \<^verbatim>\<open>handleConnection\<close>: only sessions are accepted.\<close>

definition new_channel :: "nat \<Rightarrow> string \<Rightarrow> 'x Server \<Rightarrow> 'x Server" where
  "new_channel i typ s =
     (if typ \<noteq> ''session'' then s else upd_conn i (\<lambda>c. c\<lparr>cn_chans := cn_chans c @ [AwaitShell]\<rparr>) s)"

text \<open>
  A request in \<^verbatim>\<open>handleSession\<close>: only \<^verbatim>\<open>shell\<close> starts the terminal, under the user's name. The result is
  \<open>Blocked\<close> while the hub does not take the new session.
\<close>

definition session_request :: "u64 list \<Rightarrow> nat \<Rightarrow> nat \<Rightarrow> string \<Rightarrow> string \<Rightarrow> 'x Server \<Rightarrow> 'x Server call" where
  "session_request ks i j user typ s =
     (if typ \<noteq> ''shell'' then Ret s
      else map_call (\<lambda>(a, t, h). (upd_chan i j (Running a t) s)\<lparr>srv_hub := h\<rparr>) (terminal_start ks user (srv_hub s)))"

definition session_line :: "'x ext \<Rightarrow> u64 list \<Rightarrow> nat \<Rightarrow> nat \<Rightarrow> nat \<Rightarrow> Terminal \<Rightarrow> string \<Rightarrow> 'x Server \<Rightarrow> 'x Server call" where
  "session_line ext ks i j a t input s =
     map_call (\<lambda>(quit, t', h). (upd_chan i j (if quit then Leaving a t' else Running a t') s)\<lparr>srv_hub := h\<rparr>)
       (terminal_line ext ks (srv_commands s) input a t (srv_hub s))"

definition session_leave :: "u64 list \<Rightarrow> nat \<Rightarrow> nat \<Rightarrow> nat \<Rightarrow> Terminal \<Rightarrow> 'x Server \<Rightarrow> 'x Server call" where
  "session_leave ks i j a t s =
     map_call (\<lambda>h. (upd_chan i j (Draining a t) s)\<lparr>srv_hub := h\<rparr>) (Leave_call ks a (srv_hub s))"

text \<open>What others do to the hub: its loop takes a message or ends, the transport delivers and takes messages.\<close>

fun transport_op :: "hub_op \<Rightarrow> bool" where
  "transport_op (OpCase ks c) \<longleftrightarrow> c = CBroadcast \<or> c = CStop"
| "transport_op (OpBroadcast a text) \<longleftrightarrow> False"
| "transport_op (OpRecv a) \<longleftrightarrow> False"
| "transport_op _ \<longleftrightarrow> True"

section \<open>Steps\<close>

inductive ssh_own :: "'x ext \<Rightarrow> 'x Server \<Rightarrow> 'x Server \<Rightarrow> bool" for ext where
  Listen: "srv_listener s = None \<Longrightarrow> ssh_own ext s (srv_Listen s)"
| Accept: "Serve_starts s \<Longrightarrow> Serve_iter ctx accepted s = (stops, s') \<Longrightarrow> ssh_own ext s s'"
| CtxDone: "Serve_starts s \<Longrightarrow> ssh_own ext s (Serve_ctx_done s)"
| AuthFail: "fmlookup (srv_live s) i = Some c \<Longrightarrow> cn_user c = None \<Longrightarrow> ssh_own ext s (conn_done i s)"
| AuthOk: "fmlookup (srv_live s) i = Some c \<Longrightarrow> cn_user c = None \<Longrightarrow> \<not> cn_closed c \<Longrightarrow> publicKeyCallback s key \<Longrightarrow>
    ssh_own ext s (upd_conn i (\<lambda>c. c\<lparr>cn_user := Some user, cn_key := key\<rparr>) s)"
| Channel: "fmlookup (srv_live s) i = Some c \<Longrightarrow> cn_user c \<noteq> None \<Longrightarrow> \<not> cn_closed c \<Longrightarrow>
    ssh_own ext s (new_channel i typ s)"
| Request: "fmlookup (srv_live s) i = Some c \<Longrightarrow> cn_user c = Some user \<Longrightarrow> chan_at s i j = Some AwaitShell \<Longrightarrow>
    Suc (hub_next (srv_hub s)) < 2 ^ 64 \<Longrightarrow> distinct ks \<Longrightarrow> session_request ks i j user typ s = Ret s' \<Longrightarrow> ssh_own ext s s'"
| Line: "chan_at s i j = Some (Running a t) \<Longrightarrow> distinct ks \<Longrightarrow> session_line ext ks i j a t input s = Ret s' \<Longrightarrow>
    ssh_own ext s s'"
| ReadError: "chan_at s i j = Some (Running a t) \<Longrightarrow> ssh_own ext s (upd_chan i j (Leaving a t) s)"
| Leave: "chan_at s i j = Some (Leaving a t) \<Longrightarrow> distinct ks \<Longrightarrow> session_leave ks i j a t s = Ret s' \<Longrightarrow> ssh_own ext s s'"
| DeliverRunning: "chan_at s i j = Some (Running a t) \<Longrightarrow> terminal_deliver a t (srv_hub s) = Some (t', h) \<Longrightarrow>
    ssh_own ext s ((upd_chan i j (Running a t') s)\<lparr>srv_hub := h\<rparr>)"
| DeliverLeaving: "chan_at s i j = Some (Leaving a t) \<Longrightarrow> terminal_deliver a t (srv_hub s) = Some (t', h) \<Longrightarrow>
    ssh_own ext s ((upd_chan i j (Leaving a t') s)\<lparr>srv_hub := h\<rparr>)"
| DeliverDraining: "chan_at s i j = Some (Draining a t) \<Longrightarrow> terminal_deliver a t (srv_hub s) = Some (t', h) \<Longrightarrow>
    ssh_own ext s ((upd_chan i j (Draining a t') s)\<lparr>srv_hub := h\<rparr>)"
| Drained: "chan_at s i j = Some (Draining a t) \<Longrightarrow> terminal_deliver a t (srv_hub s) = None \<Longrightarrow>
    ssh_own ext s (upd_chan i j Finished s)"
| ReqsClosed: "chan_at s i j = Some AwaitShell \<Longrightarrow> ssh_own ext s (upd_chan i j Finished s)"
| ConnEnd: "fmlookup (srv_live s) i = Some c \<Longrightarrow> list_all (\<lambda>x. x = Finished) (cn_chans c) \<Longrightarrow> ssh_own ext s (conn_done i s)"
| Stop: "ssh_own ext s (srv_Stop s)"

text \<open>The hub is shared with the transport and has a loop of its own, so it may also change by itself.\<close>

inductive ssh_step :: "'x ext \<Rightarrow> 'x Server \<Rightarrow> 'x Server \<Rightarrow> bool" for ext where
  Own: "ssh_own ext s s' \<Longrightarrow> ssh_step ext s s'"
| HubStep: "transport_op op \<Longrightarrow> op_ok op (srv_hub s) \<Longrightarrow> hub_apply op (srv_hub s) = Inr h \<Longrightarrow>
    ssh_step ext s (s\<lparr>srv_hub := h\<rparr>)"

inductive ssh_reach :: "'x ext \<Rightarrow> 'x Server \<Rightarrow> 'x Server \<Rightarrow> bool" for ext s0 where
  reach_refl: "ssh_reach ext s0 s0"
| reach_step: "ssh_reach ext s0 s \<Longrightarrow> ssh_step ext s s' \<Longrightarrow> ssh_reach ext s0 s'"

section \<open>Termination of the key loop\<close>

lemma keys_loop_total:
  assumes "\<And>d k r. parse d = Some (k, r) \<Longrightarrow> d \<noteq> [] \<Longrightarrow> length r < length d"
  shows "\<exists>ks. keys_loop parse data acc = Some (acc @ ks)"
proof (induction "length data" arbitrary: data acc rule: less_induct)
  case less
  show ?case
  proof (cases "data = [] \<or> parse data = None")
    case True
    then show ?thesis by (auto simp: keys_loop.simps [of parse data])
  next
    case False
    then obtain k r where p: "parse data = Some (k, r)" by auto
    then have "length r < length data" using assms False by blast
    from less.hyps [OF this, of "acc @ [k]"] p False show ?thesis
      by (simp add: keys_loop.simps [of parse data]) blast
  qed
qed

section \<open>Owners\<close>

text \<open>The session a channel has joined and not left, for each channel.\<close>

fun session_of :: "chan_state \<Rightarrow> nat option" where
  "session_of (Running a t) = Some a"
| "session_of (Leaving a t) = Some a"
| "session_of _ = None"

definition owner :: "'x Server \<Rightarrow> nat \<times> nat \<Rightarrow> nat option" where
  "owner s = (\<lambda>(i, j). case chan_at s i j of None \<Rightarrow> None | Some x \<Rightarrow> session_of x)"

lemma ran_drop:
  assumes "W p = Some a" and "\<And>q. W q = Some a \<Longrightarrow> q = p"
  shows "ran (W(p := None)) = ran W - {a}"
proof (rule set_eqI)
  fix x
  have "x = a" if "W p = Some x" using assms(1) that by simp
  moreover have "q = p" if "W q = Some x" "x = a" for q using assms(2) that by simp
  ultimately show "x \<in> ran (W(p := None)) \<longleftrightarrow> x \<in> ran W - {a}"
    unfolding ran_def by (cases "x = a") (auto, metis)
qed

text \<open>
  What the server relies on of the partyline: joining adds a fresh session to the members, leaving
  removes it. Users that hold the sessions they joined and have not left stay in step with the members.
\<close>

locale membership =
  fixes ok :: "'h \<Rightarrow> bool" and alive :: "'h \<Rightarrow> bool" and mem :: "'h \<Rightarrow> nat set" and nxt :: "'h \<Rightarrow> nat"
    and join :: "'j \<Rightarrow> 'h \<Rightarrow> (nat \<times> 'h) call" and leave :: "'l \<Rightarrow> nat \<Rightarrow> 'h \<Rightarrow> 'h call"
    and may_join :: "'j \<Rightarrow> 'h \<Rightarrow> bool" and may_leave :: "'l \<Rightarrow> bool"
  assumes join_law: "ok h \<Longrightarrow> may_join x h \<Longrightarrow> join x h = Ret (a, h') \<Longrightarrow>
      ok h' \<and> alive h \<and> a = nxt h \<and> nxt h' = Suc a \<and> mem h' = insert a (mem h)"
    and leave_law: "ok h \<Longrightarrow> may_leave y \<Longrightarrow> a < nxt h \<Longrightarrow> leave y a h = Ret h' \<Longrightarrow>
      ok h' \<and> alive h \<and> nxt h' = nxt h \<and> mem h' = mem h - {a}"
    and leave_safe: "ok h \<Longrightarrow> may_leave y \<Longrightarrow> a < nxt h \<Longrightarrow> leave y a h \<noteq> Crash p"
begin

definition owned :: "'h \<Rightarrow> ('p \<Rightarrow> nat option) \<Rightarrow> bool" where
  "owned h W \<longleftrightarrow> ok h \<and> (\<forall>p a. W p = Some a \<longrightarrow> a < nxt h) \<and>
     (\<forall>p q a. W p = Some a \<longrightarrow> W q = Some a \<longrightarrow> p = q) \<and> (alive h \<longrightarrow> mem h = ran W)"

lemma ownedD:
  assumes "owned h W"
  shows "ok h" "W p = Some a \<Longrightarrow> a < nxt h" "W p = Some a \<Longrightarrow> W q = Some a \<Longrightarrow> p = q" "alive h \<Longrightarrow> mem h = ran W"
  using assms unfolding owned_def by metis+

lemma owned_empty: "ok h \<Longrightarrow> mem h = {} \<Longrightarrow> owned h (\<lambda>_. None)"
  by (simp add: owned_def)

lemma owned_frame:
  assumes "owned h W" and "ok h'" and "nxt h' = nxt h" and "alive h' \<Longrightarrow> alive h \<and> mem h' = mem h"
  shows "owned h' W"
  using assms by (simp add: owned_def)

lemma owned_join:
  assumes "owned h W" and "W p = None" and "may_join x h" and "join x h = Ret (a, h')"
  shows "owned h' (W(p := Some a))"
proof -
  note law = join_law [OF ownedD(1) [OF assms(1)] assms(3,4)]
  have "ran (W(p := Some a)) = insert a (ran W)" using assms(2) by (simp add: ran_map_upd)
  moreover have "b < nxt h'" if "(W(p := Some a)) q = Some b" for q b
    using that law ownedD(2) [OF assms(1), of q b] by (auto split: if_splits)
  moreover have "q = r" if w: "(W(p := Some a)) q = Some b" "(W(p := Some a)) r = Some b" for q r b
  proof (cases "b = a")
    case True
    have "W q' \<noteq> Some a" for q' using law ownedD(2) [OF assms(1), of q' a] by auto
    then show ?thesis using w True by (metis fun_upd_other)
  next
    case False
    then have "W q = Some b" "W r = Some b" using w by (metis fun_upd_apply option.inject)+
    then show ?thesis by (rule ownedD(3) [OF assms(1)])
  qed
  ultimately show ?thesis using law ownedD(4) [OF assms(1)] unfolding owned_def by metis
qed

lemma owned_leave:
  assumes "owned h W" and "W p = Some a" and "may_leave y" and "leave y a h = Ret h'"
  shows "owned h' (W(p := None))"
proof -
  note law = leave_law [OF ownedD(1) [OF assms(1)] assms(3) ownedD(2) [OF assms(1,2)] assms(4)]
  have "ran (W(p := None)) = ran W - {a}"
    by (rule ran_drop [of W p a, OF assms(2)]) (rule ownedD(3) [of h W _ a p, OF assms(1) _ assms(2)])
  then show ?thesis using assms(1) law by (auto simp: owned_def split: if_splits)
qed

end

interpretation hub: membership hub_inv hub_running members hub_next
  "\<lambda>(ks, nick) h. Join_call ks nick h" Leave_call
  "\<lambda>(ks, nick) h. distinct ks \<and> Suc (hub_next h) < 2 ^ 64" distinct
proof
  fix h h' :: Hub and x :: "u64 list \<times> string" and a
  assume h: "hub_inv h" "(case x of (ks, nick) \<Rightarrow> \<lambda>h. distinct ks \<and> Suc (hub_next h) < 2 ^ 64) h"
    "(case x of (ks, nick) \<Rightarrow> Join_call ks nick) h = Ret (a, h')"
  obtain ks nick where x: "x = (ks, nick)" by (cases x)
  have run: "hub_call ks (CJoin nick) h = Ret h'" "a = hub_next h" using h(3) x by (auto simp: Join_call_def)
  then have j: "hub_running h" "hub_join ks nick h = Inr h'" by (auto simp: hub_call_RetD)
  have "op_ok (OpCase ks (CJoin nick)) h" using h(2) x by simp
  from hub_call_inv(2) [OF h(1) this run(1)] join_members [OF j(2)] j(1) run(2)
  show "hub_inv h' \<and> hub_running h \<and> a = hub_next h \<and> hub_next h' = Suc a \<and> members h' = insert a (members h)"
    by simp
next
  fix h h' :: Hub and ks :: "u64 list" and a
  assume h: "hub_inv h" "distinct ks" "a < hub_next h" "Leave_call ks a h = Ret h'"
  then have run: "hub_running h" "hub_leave ks a h = Inr h'" by (auto simp: Leave_call_def hub_call_RetD)
  have "op_ok (OpCase ks (CLeave a)) h" using h by simp
  from hub_call_inv(2) [OF h(1) this] h(4) leave_members [OF h(1) run] run(1)
  show "hub_inv h' \<and> hub_running h \<and> hub_next h' = hub_next h \<and> members h' = members h - {a}"
    by (simp add: Leave_call_def)
next
  fix h :: Hub and ks :: "u64 list" and a p
  assume "hub_inv h" "distinct ks" "a < hub_next h"
  then show "Leave_call ks a h \<noteq> Crash p" using hub_call_inv(1) [of h ks "CLeave a"] by (simp add: Leave_call_def)
qed

lemma chan_at_upd_chan:
  "chan_at s i j \<noteq> None \<Longrightarrow>
     chan_at (upd_chan i j x s) i' j' = (if i' = i \<and> j' = j then Some x else chan_at s i' j')"
  by (auto simp: chan_at_def upd_chan_def upd_conn_def nth_list_update split: option.splits if_splits)

lemma owner_upd_chan:
  assumes "chan_at s i j \<noteq> None"
  shows "owner (upd_chan i j x s) = (owner s)((i, j) := session_of x)"
  by (auto simp: owner_def chan_at_upd_chan [OF assms] fun_eq_iff)

lemma owner_hub [simp]: "owner (s\<lparr>srv_hub := h\<rparr>) = owner s"
  by (simp add: owner_def chan_at_def)

text \<open>A change of the connections that keeps the channels that own a session.\<close>

lemma owner_cong:
  fixes s s' :: "'x Server"
  assumes "\<And>i. (case fmlookup (srv_live s') i of None \<Rightarrow> [] | Some c \<Rightarrow> cn_chans c) =
    (case fmlookup (srv_live s) i of None \<Rightarrow> [] | Some c \<Rightarrow> cn_chans c)"
  shows "owner s' = owner s"
proof -
  have "chan_at s i j = (let xs = (case fmlookup (srv_live s) i of None \<Rightarrow> [] | Some c \<Rightarrow> cn_chans c)
      in if j < length xs then Some (xs ! j) else None)" for s :: "'x Server" and i j
    by (simp add: chan_at_def split: option.splits)
  then show ?thesis using assms by (simp add: owner_def fun_eq_iff)
qed

lemma owner_conn_done:
  assumes "fmlookup (srv_live s) i = Some c" and "list_all (\<lambda>x. x = Finished) (cn_chans c)"
  shows "owner (conn_done i s) = owner s"
proof -
  have "owner (conn_done i s) (i', j) = owner s (i', j)" for i' j
    using assms by (auto simp: owner_def chan_at_def conn_done_def removeConn_def list_all_length)
  then show ?thesis by auto
qed

lemma owner_new_channel: "owner (new_channel i typ s) = owner s"
proof -
  have "owner (new_channel i typ s) (i', j) = owner s (i', j)" for i' j
    by (auto simp: owner_def chan_at_def new_channel_def upd_conn_def nth_append split: option.splits)
  then show ?thesis by auto
qed

section \<open>The invariant\<close>

text \<open>Connections: the map of connections, their authentication and the shutdown.\<close>

definition conns_ok :: "'x Server \<Rightarrow> bool" where
  "conns_ok s \<longleftrightarrow> srv_conns s = fmdom (srv_live s) \<and> (\<forall>i c. fmlookup (srv_live s) i = Some c \<longrightarrow>
     i < srv_next s \<and> (stopping s \<longrightarrow> cn_closed c) \<and> (cn_user c \<noteq> None \<longrightarrow> cn_key c \<in> set (authKeys s)) \<and>
     (cn_user c = None \<longrightarrow> cn_chans c = []))"

definition registry_ok :: "'x Server \<Rightarrow> bool" where
  "registry_ok s \<longleftrightarrow> (\<exists>r. RegisterBuiltins NewCommandRegistry = Inr r \<and>
     srv_commands s = (if srv_listener s = None then r else Freeze r))"

definition ssh_inv :: "'x Server \<Rightarrow> bool" where
  "ssh_inv s \<longleftrightarrow> hub.owned (srv_hub s) (owner s) \<and> conns_ok s \<and> registry_ok s"

subsection \<open>Connections\<close>

lemma conns_ok_frame:
  assumes "conns_ok s" and "srv_conns s' = srv_conns s" and "srv_next s' = srv_next s" and "stopping s' = stopping s"
    and "authKeys s' = authKeys s" and "fmdom (srv_live s') = fmdom (srv_live s)"
    and "\<And>i c'. fmlookup (srv_live s') i = Some c' \<Longrightarrow> \<exists>c. fmlookup (srv_live s) i = Some c \<and>
      cn_closed c' = cn_closed c \<and> (cn_user c' \<noteq> None \<longrightarrow> cn_key c' \<in> set (authKeys s)) \<and>
      (cn_user c' = None \<longrightarrow> cn_chans c' = [])"
  shows "conns_ok s'"
  using assms unfolding conns_ok_def by metis

lemma upd_conn_fields [simp]:
  "srv_hub (upd_conn i f s) = srv_hub s" "srv_commands (upd_conn i f s) = srv_commands s"
  "authKeys (upd_conn i f s) = authKeys s" "srv_listener (upd_conn i f s) = srv_listener s"
  "srv_conns (upd_conn i f s) = srv_conns s" "stopping (upd_conn i f s) = stopping s"
  "srv_next (upd_conn i f s) = srv_next s"
  by (simp_all add: upd_conn_def split: option.splits)

lemma fmdom_upd_conn [simp]: "fmdom (srv_live (upd_conn i f s)) = fmdom (srv_live s)"
  by (auto simp: upd_conn_def fmdom_notI finsert_absorb intro: fmdomI split: option.splits)

lemma conns_ok_upd_conn:
  assumes "conns_ok s"
    and "\<And>c. fmlookup (srv_live s) i = Some c \<Longrightarrow> cn_closed (f c) = cn_closed c \<and>
      (cn_user (f c) \<noteq> None \<longrightarrow> cn_key (f c) \<in> set (authKeys s)) \<and> (cn_user (f c) = None \<longrightarrow> cn_chans (f c) = [])"
  shows "conns_ok (upd_conn i f s)"
proof (rule conns_ok_frame [OF assms(1)])
  fix k c' assume k: "fmlookup (srv_live (upd_conn i f s)) k = Some c'"
  show "\<exists>c. fmlookup (srv_live s) k = Some c \<and> cn_closed c' = cn_closed c \<and>
      (cn_user c' \<noteq> None \<longrightarrow> cn_key c' \<in> set (authKeys s)) \<and> (cn_user c' = None \<longrightarrow> cn_chans c' = [])"
  proof (cases "k = i")
    case True
    then show ?thesis using k assms(2) by (auto simp: upd_conn_def split: option.splits)
  next
    case False
    then have "fmlookup (srv_live s) k = Some c'" using k by (auto simp: upd_conn_def split: option.splits if_splits)
    then show ?thesis using assms(1) unfolding conns_ok_def by blast
  qed
qed simp_all

lemma conns_ok_upd_chan:
  assumes "conns_ok s" shows "conns_ok (upd_chan i j x s)"
  unfolding upd_chan_def using assms by (intro conns_ok_upd_conn) (auto simp: conns_ok_def)

lemma conns_ok_hub [simp]: "conns_ok (s\<lparr>srv_hub := h\<rparr>) = conns_ok s"
  by (simp add: conns_ok_def)

lemma conns_ok_done: "conns_ok s \<Longrightarrow> conns_ok (conn_done i s)"
  by (auto simp: conns_ok_def conn_done_def removeConn_def split: if_splits)

lemma conns_ok_accept: "conns_ok s \<Longrightarrow> conns_ok (srv_accept s)"
  by (auto simp: conns_ok_def srv_accept_def Let_def less_SucI split: if_splits)

lemma closed_conn: "cn_closed (c\<lparr>cn_closed := True\<rparr>)"
  by simp

lemma conns_ok_stop: "conns_ok s \<Longrightarrow> conns_ok (srv_Stop s)"
  by (cases "stopping s") (auto simp: conns_ok_def srv_Stop_def fmdomI, metis closed_conn)

lemma registry_hub [simp]: "registry_ok (s\<lparr>srv_hub := h\<rparr>) = registry_ok s"
  by (simp add: registry_ok_def)

lemma registry_upd [simp]: "registry_ok (upd_conn i f s) = registry_ok s" "registry_ok (upd_chan i j x s) = registry_ok s"
  by (simp_all add: registry_ok_def upd_chan_def)

lemma srv_hub_upd_chan [simp]: "srv_hub (upd_chan i j x s) = srv_hub s"
  by (simp add: upd_chan_def)

subsection \<open>Every step keeps the invariant\<close>

lemma terminal_line_frame:
  assumes "RegisterBuiltins NewCommandRegistry = Inr r" and "commands r' = commands r" and "hub_inv h" and "a < hub_next h"
    and "distinct ks" and "terminal_line ext ks r' input a t h = Ret (q, t', h')"
  shows "hub_inv h' \<and> members h' = members h \<and> hub_next h' = hub_next h \<and> hub_running h' = hub_running h"
proof -
  have run: "hub_inv h' \<and> members h' = members h \<and> hub_next h' = hub_next h" if "run_handler ext ks r' hdl args a t h = Ret (q, t', h')"
    "map_of builtin_list name = Some cmd" "cmd_Handler cmd = Some hdl" for hdl args name and cmd :: "'a Command"
    using run_handler_effect(3) [OF assms(3-5) _ that(1)] builtin_handlers [OF that(2)] that(3) by auto
  have running: "hub_running h' = hub_running h" if "run_handler ext ks r' hdl args a t h = Ret (q, t', h')"
    "map_of builtin_list name = Some cmd" "cmd_Handler cmd = Some hdl" for hdl args name and cmd :: "'a Command"
    using that(1) builtin_handlers [OF that(2)] that(3)
    by (auto simp: Who_call_def SetNick_call_def hub_call_RetD dest: setNick_members split: list.splits)
  have B: "hub_inv (hub_Broadcast a line h)" for line
    using hub_inv_apply [OF assms(3), of "OpBroadcast a line"] assms(4) by simp
  have lk: "fmlookup (commands r') n = map_of builtin_list n" for n
    unfolding assms(2) by (rule RegisterBuiltins_run(1) [OF assms(1)])
  show ?thesis
    using assms(3,6) B run running
    by (auto simp: terminal_line_def Let_def Dispatch_def lk Broadcast_call_def hub_Broadcast_def members_def
      split: if_splits list.splits option.splits)
qed

lemma terminal_deliver_frame:
  assumes "hub_inv h" and "terminal_deliver a t h = Some (t', h')"
  shows "hub_inv h' \<and> members h' = members h \<and> hub_next h' = hub_next h \<and> hub_running h' = hub_running h"
proof -
  have h': "h' = session_recv a h" "fmlookup (hub_heap h) a \<noteq> None"
    using assms(2) by (auto simp: terminal_deliver_def split: option.splits list.splits)
  then have "hub_inv h'" using hub_inv_apply [OF assms(1), of "OpRecv a"] by simp
  with h' show ?thesis by (auto simp: session_recv_def members_def split: if_splits)
qed

lemma transport_frame:
  assumes "hub_inv h" and "op_ok op h" and "transport_op op" and "hub_apply op h = Inr h'"
  shows "hub_inv h' \<and> hub_next h' = hub_next h \<and> (hub_running h' \<longrightarrow> hub_running h \<and> members h' = members h)"
proof -
  have inv: "hub_inv h'" using hub_inv_apply [OF assms(1,2)] assms(4) by simp
  show ?thesis
  proof (cases op)
    case (OpCase ks c)
    show ?thesis
    proof (cases "c = CBroadcast \<and> hub_running h \<and> hub_broadcast h \<noteq> []")
      case True
      then obtain msg rest where m: "hub_broadcast h = msg # rest" by (cases "hub_broadcast h") auto
      have "hub_handle_broadcast ks msg (h\<lparr>hub_broadcast := rest\<rparr>) = Inr h'" using True OpCase m assms(4) by auto
      from broadcast_members [OF this] True inv show ?thesis by (simp add: members_def)
    next
      case False
      then show ?thesis
        using assms(3,4) OpCase inv by (auto split: if_splits sum.splits list.splits)
    qed
  qed (use inv assms in \<open>auto simp: SystemMessage_def DeliverRemote_def hub_Stop_def remote_recv_def members_def
      split: if_splits option.splits list.splits\<close>)
qed

lemma ssh_inv_step_hub:
  assumes "ssh_inv s" and "chan_at s i j \<noteq> None" and "hub.owned h (owner (upd_chan i j x s))"
  shows "ssh_inv ((upd_chan i j x s)\<lparr>srv_hub := h\<rparr>)"
  using assms conns_ok_upd_chan [of s i j x] by (simp add: ssh_inv_def)

lemma ssh_inv_same_owner:
  assumes "ssh_inv s" and "chan_at s i j = Some y" and "hub_inv h" and "hub_next h = hub_next (srv_hub s)"
    and "hub_running h = hub_running (srv_hub s)" and "members h = members (srv_hub s)"
    and "session_of x = session_of y"
  shows "ssh_inv ((upd_chan i j x s)\<lparr>srv_hub := h\<rparr>)"
proof -
  have "owner s (i, j) = session_of x" using assms(2,7) by (simp add: owner_def)
  then have "owner (upd_chan i j x s) = owner s" using owner_upd_chan [of s i j x] assms(2) by (simp add: fun_upd_idem)
  moreover have "hub.owned h (owner s)"
    using assms(1,3-6) hub.owned_frame [of "srv_hub s" "owner s" h] by (simp add: ssh_inv_def)
  ultimately show ?thesis using ssh_inv_step_hub [OF assms(1), of i j h x] assms(2) by simp
qed

lemma ssh_inv_upd_only:
  assumes "ssh_inv s" and "chan_at s i j = Some y"
    and "session_of x = session_of y"
  shows "ssh_inv (upd_chan i j x s)"
  using ssh_inv_same_owner [OF assms(1,2), of "srv_hub s" x] assms(1,3)
  by (auto simp: ssh_inv_def dest: hub.ownedD(1))

lemma ssh_inv_deliver:
  assumes "ssh_inv s" and "chan_at s i j = Some y" and "terminal_deliver a t (srv_hub s) = Some (t', h)"
    and "session_of x = session_of y"
  shows "ssh_inv ((upd_chan i j x s)\<lparr>srv_hub := h\<rparr>)"
proof -
  have "hub_inv (srv_hub s)" using assms(1) hub.ownedD(1) by (auto simp: ssh_inv_def)
  from terminal_deliver_frame [OF this assms(3)] show ?thesis
    using ssh_inv_same_owner [OF assms(1,2) _ _ _ _ assms(4)] by blast
qed

lemma ssh_own_inv: "ssh_own ext s s' \<Longrightarrow> ssh_inv s \<Longrightarrow> ssh_inv s'"
proof (induction rule: ssh_own.induct)
  case (Listen s)
  have "owner (srv_Listen s) = owner s" by (rule owner_cong) (simp add: srv_Listen_def)
  then show ?case using Listen by (auto simp: ssh_inv_def srv_Listen_def conns_ok_def registry_ok_def)
next
  case (Accept s ctx accepted stops s')
  have "owner (srv_accept s) = owner s"
    using Accept.prems
    by (intro owner_cong) (auto simp: srv_accept_def Let_def ssh_inv_def conns_ok_def split: option.splits)
  moreover have "ssh_inv s \<Longrightarrow> owner (srv_accept s) = owner s \<Longrightarrow> ssh_inv (srv_accept s)"
    using conns_ok_accept [of s]
    by (auto simp: ssh_inv_def srv_accept_def Let_def registry_ok_def split: if_splits)
  ultimately show ?case using Accept by (auto simp: Serve_iter_def split: if_splits)
next
  case (CtxDone s)
  have "owner (Serve_ctx_done s) = owner s" by (rule owner_cong) (simp add: Serve_ctx_done_def)
  then show ?case using CtxDone by (auto simp: ssh_inv_def Serve_ctx_done_def Serve_starts_def conns_ok_def registry_ok_def)
next
  case (AuthFail s i c)
  then have "cn_chans c = []" by (auto simp: ssh_inv_def conns_ok_def)
  then have "owner (conn_done i s) = owner s" using owner_conn_done [OF AuthFail(1)] by simp
  then show ?case using AuthFail.prems conns_ok_done [of s i]
    by (simp add: ssh_inv_def conn_done_def removeConn_def registry_ok_def)
next
  case (AuthOk s i c key user)
  let ?f = "\<lambda>c. c\<lparr>cn_user := Some user, cn_key := key\<rparr>"
  have "owner (upd_conn i ?f s) = owner s"
    using AuthOk(1) by (intro owner_cong) (auto simp: upd_conn_def)
  moreover have "key \<in> set (authKeys s)" using AuthOk(4) by (auto simp: publicKeyCallback_def list_ex_iff)
  ultimately show ?case
    using AuthOk.prems conns_ok_upd_conn [of s i ?f] by (simp add: ssh_inv_def conns_ok_def)
next
  case (Channel s i c ty)
  have "conns_ok (new_channel i ty s)"
    unfolding new_channel_def using Channel by (auto intro!: conns_ok_upd_conn simp: ssh_inv_def) (auto simp: conns_ok_def)
  then show ?case using Channel.prems owner_new_channel [of i ty s] by (simp add: ssh_inv_def new_channel_def)
next
  case (Request s i c user j ks ty s')
  show ?case
  proof (cases "ty = ''shell''")
    case True
    then obtain a t h where s: "terminal_start ks user (srv_hub s) = Ret (a, t, h)"
      "s' = (upd_chan i j (Running a t) s)\<lparr>srv_hub := h\<rparr>" using Request(6) by (auto simp: session_request_def)
    have "owner s (i, j) = None" using Request(3) by (simp add: owner_def)
    then have "hub.owned h ((owner s)((i, j) := Some a))"
      using hub.owned_join [of "srv_hub s" "owner s" "(i, j)" "(ks, user)" a h] s(1) Request(4,5) Request.prems
      by (auto simp: ssh_inv_def terminal_start_def)
    then show ?thesis
      unfolding s(2) using ssh_inv_step_hub [OF Request.prems] owner_upd_chan [of s i j] Request(3) by simp
  qed (use Request in \<open>simp add: session_request_def\<close>)
next
  case (Line s i j a t ks input s')
  then obtain q t' h where s: "terminal_line ext ks (srv_commands s) input a t (srv_hub s) = Ret (q, t', h)"
    "s' = (upd_chan i j (if q then Leaving a t' else Running a t') s)\<lparr>srv_hub := h\<rparr>" by (auto simp: session_line_def)
  obtain r where r: "RegisterBuiltins NewCommandRegistry = Inr r" "commands (srv_commands s) = commands r"
    using Line.prems by (auto simp: ssh_inv_def registry_ok_def Freeze_def)
  have "owner s (i, j) = Some a" using Line(1) by (simp add: owner_def)
  then have "hub_inv (srv_hub s)" "a < hub_next (srv_hub s)" using Line.prems hub.ownedD(1,2) by (auto simp: ssh_inv_def)
  from terminal_line_frame [OF r this Line(2) s(1)] show ?case
    unfolding s(2) using ssh_inv_same_owner [OF Line.prems Line(1), of h] by simp
next
  case (Leave s i j a t ks s')
  then obtain h where s: "Leave_call ks a (srv_hub s) = Ret h" "s' = (upd_chan i j (Draining a t) s)\<lparr>srv_hub := h\<rparr>"
    by (auto simp: session_leave_def)
  have "owner s (i, j) = Some a" using Leave(1) by (simp add: owner_def)
  then have "hub.owned h ((owner s)((i, j) := None))"
    using hub.owned_leave [OF _ _ Leave(2) s(1), of "owner s"] Leave.prems by (auto simp: ssh_inv_def)
  then show ?case
    unfolding s(2) using ssh_inv_step_hub [OF Leave.prems] owner_upd_chan [of s i j] Leave(1) by simp
next
  case (ConnEnd s i c)
  then show ?case using conns_ok_done [of s i] owner_conn_done [of s i c]
    by (simp add: ssh_inv_def conn_done_def removeConn_def registry_ok_def)
next
  case (Stop s)
  have "owner (srv_Stop s) = owner s" by (intro owner_cong) (auto simp: srv_Stop_def split: option.splits)
  then show ?case using Stop conns_ok_stop [of s] by (auto simp: ssh_inv_def srv_Stop_def registry_ok_def)
qed (auto intro: ssh_inv_deliver ssh_inv_upd_only)

lemma ssh_inv_hub:
  assumes "ssh_inv s" and "transport_op op" and "op_ok op (srv_hub s)" and "hub_apply op (srv_hub s) = Inr h"
  shows "ssh_inv (s\<lparr>srv_hub := h\<rparr>)"
proof -
  from transport_frame [OF _ assms(3,2,4)] assms(1)
  have "hub.owned h (owner s)" using hub.owned_frame [of "srv_hub s" "owner s" h] by (auto simp: ssh_inv_def dest: hub.ownedD(1))
  then show ?thesis using assms(1) by (simp add: ssh_inv_def)
qed

lemma ssh_step_inv: "ssh_step ext s s' \<Longrightarrow> ssh_inv s \<Longrightarrow> ssh_inv s'"
  by (induction rule: ssh_step.induct) (auto intro: ssh_own_inv ssh_inv_hub)

lemma ssh_own_keys: "ssh_own ext s s' \<Longrightarrow> authKeys s' = authKeys s"
  by (induction rule: ssh_own.induct)
    (auto simp: srv_Listen_def srv_accept_def Serve_iter_def Serve_ctx_done_def conn_done_def removeConn_def new_channel_def session_request_def
      session_line_def session_leave_def srv_Stop_def upd_chan_def Let_def split: if_splits)

lemma ssh_step_keys: "ssh_step ext s s' \<Longrightarrow> authKeys s' = authKeys s"
  by (induction rule: ssh_step.induct) (auto dest: ssh_own_keys)

lemma NewServer_inv:
  fixes s :: "'x Server"
  assumes "NewServer parse file hub = Some (Inr s)" and "hub_inv hub" and "members hub = {}"
  shows "ssh_inv s" and "loadAuthorizedKeys parse file = Some (authKeys s)"
proof -
  obtain r :: "'x CommandRegistry" where r: "RegisterBuiltins NewCommandRegistry = Inr r"
    using RegisterBuiltins_total by blast
  with assms(1) obtain keys where s: "loadAuthorizedKeys parse file = Some keys"
    "s = \<lparr>srv_hub = hub, srv_commands = r, authKeys = keys, srv_listener = None, srv_conns = {||},
       stopping = False, srv_live = fmempty, srv_next = 0\<rparr>"
    by (auto simp: NewServer_def split: sum.splits option.splits)
  then show "loadAuthorizedKeys parse file = Some (authKeys s)" by simp
  have "owner s = (\<lambda>_. None)" by (auto simp: owner_def chan_at_def s(2) fun_eq_iff)
  then show "ssh_inv s" using assms(2,3) r hub.owned_empty by (simp add: ssh_inv_def conns_ok_def registry_ok_def s(2))
qed

lemma ssh_reach_inv:
  assumes "ssh_reach ext s0 s" and "ssh_inv s0"
  shows "ssh_inv s \<and> authKeys s = authKeys s0"
  using assms by (induction rule: ssh_reach.induct) (auto dest: ssh_step_inv ssh_step_keys)

lemma terminal_line_safe:
  assumes "RegisterBuiltins NewCommandRegistry = Inr r" and "commands r' = commands r" and "hub_inv h" and "a < hub_next h"
    and "distinct ks"
  shows "terminal_line ext ks r' input a t h \<noteq> Crash p"
proof -
  have "run_handler ext ks r' hdl args a t h \<noteq> Crash p"
    if "map_of builtin_list name = Some cmd" "cmd_Handler cmd = Some hdl" for hdl args name and cmd :: "'a Command"
  proof (rule run_handler_effect(1) [OF assms(3-5)])
    show "hdl \<in> {HWho, HNick, HQuit, HHelp}" using builtin_handlers [OF that(1)] that(2) by auto
  qed
  moreover have "fmlookup (commands r') n = map_of builtin_list n" for n
    unfolding assms(2) by (rule RegisterBuiltins_run(1) [OF assms(1)])
  ultimately show ?thesis
    by (auto simp: terminal_line_def Let_def Dispatch_def Broadcast_call_def dest: builtin_handlers
      split: list.splits option.splits)
qed

text \<open>
  C15. The terminals and the members of the partyline agree. In every state a server can reach, however
  connections, typed lines, deliveries, the transport and the shutdown interleave: while the hub runs,
  its members are exactly the sessions of the terminals that have joined and not yet left, each owned
  by one terminal; every such terminal belongs to a connection that authenticated with a key of the
  authorised keys file; nothing crashes the hub: no typed line, no departure, no request that starts a
  terminal, no call by the transport and no step of the hub's own loop, as long as fewer than \<open>2^64\<close>
  sessions have joined and the hub's \<^verbatim>\<open>Stop\<close> is called once; the set of tracked connections is that of the running handlers; and after
  \<^verbatim>\<open>Stop\<close> every one of them is closed.
\<close>

theorem ssh_sessions_are_members:
  assumes "NewServer parse file (if p2p then SetRemoteSend (NewHub name) else NewHub name) = Some (Inr s0)"
    and "ssh_reach ext s0 s"
  shows "(hub_running (srv_hub s) \<longrightarrow> members (srv_hub s) = ran (owner s)) \<and>
    (\<forall>p q a. owner s p = Some a \<and> owner s q = Some a \<longrightarrow> p = q) \<and>
    (\<forall>i j a. owner s (i, j) = Some a \<longrightarrow> (\<exists>c keys. fmlookup (srv_live s) i = Some c \<and>
       loadAuthorizedKeys parse file = Some keys \<and> cn_key c \<in> set keys)) \<and>
    (\<forall>i j a t ks input p. chan_at s i j = Some (Running a t) \<and> distinct ks \<longrightarrow>
       session_line ext ks i j a t input s \<noteq> Crash p) \<and>
    (\<forall>i j a t ks p. chan_at s i j = Some (Leaving a t) \<and> distinct ks \<longrightarrow> session_leave ks i j a t s \<noteq> Crash p) \<and>
    (\<forall>i j user typ ks p. distinct ks \<and> Suc (hub_next (srv_hub s)) < 2 ^ 64 \<longrightarrow>
       session_request ks i j user typ s \<noteq> Crash p) \<and>
    (\<forall>x p. transport_op x \<and> op_ok x (srv_hub s) \<longrightarrow> hub_apply x (srv_hub s) \<noteq> Inl p) \<and>
    srv_conns s = fmdom (srv_live s) \<and>
    (stopping s \<longrightarrow> (\<forall>i c. fmlookup (srv_live s) i = Some c \<longrightarrow> cn_closed c))"
proof -
  have "members (if p2p then SetRemoteSend (NewHub name) else NewHub name) = {}"
    by (simp add: members_def SetRemoteSend_def NewHub_def)
  from NewServer_inv [OF assms(1) _ this] hub_inv_New
  have "ssh_inv s0" and keys: "loadAuthorizedKeys parse file = Some (authKeys s0)" by simp_all
  from ssh_reach_inv [OF assms(2) this(1)] have inv: "ssh_inv s" "authKeys s = authKeys s0" by simp_all
  then have own: "hub.owned (srv_hub s) (owner s)" and conns: "conns_ok s" and reg: "registry_ok s"
    by (simp_all add: ssh_inv_def)
  have hub: "hub_inv (srv_hub s)" "a < hub_next (srv_hub s)" if "owner s (i, j) = Some a" for i j a
    using hub.ownedD(1,2) [OF own] that by blast+
  obtain r where r: "RegisterBuiltins NewCommandRegistry = Inr r" "commands (srv_commands s) = commands r"
    using reg by (auto simp: registry_ok_def Freeze_def)
  have auth: "\<exists>c keys. fmlookup (srv_live s) i = Some c \<and> loadAuthorizedKeys parse file = Some keys \<and> cn_key c \<in> set keys"
    if o: "owner s (i, j) = Some a" for i j a
  proof -
    obtain c where c: "fmlookup (srv_live s) i = Some c" "cn_chans c \<noteq> []"
      using o by (fastforce simp: owner_def chan_at_def split: option.splits if_splits)
    then have "cn_key c \<in> set (authKeys s)" using conns by (cases "cn_user c") (auto simp: conns_ok_def)
    then show ?thesis using c(1) keys inv(2) by auto
  qed
  have line: "session_line ext ks i j a t input s \<noteq> Crash p"
    if "chan_at s i j = Some (Running a t)" "distinct ks" for i j a t ks input p
    using terminal_line_safe [OF r hub [of i j a] that(2)] that(1) by (simp add: session_line_def owner_def)
  have leave: "session_leave ks i j a t s \<noteq> Crash p"
    if "chan_at s i j = Some (Leaving a t)" "distinct ks" for i j a t ks p
    using hub_call_inv(1) [OF hub(1), of i j a ks "CLeave a"] hub(2) [of i j a] that
    by (simp add: session_leave_def Leave_call_def owner_def)
  have hi: "hub_inv (srv_hub s)" by (rule hub.ownedD(1) [OF own])
  have request: "session_request ks i j user ty s \<noteq> Crash p"
    if "distinct ks" "Suc (hub_next (srv_hub s)) < 2 ^ 64" for i j user ty ks p
    using hub_call_inv(1) [OF hi, of ks "CJoin user"] that
    by (auto simp: session_request_def terminal_start_def Join_call_def Let_def split: call.splits)
  have loop: "hub_apply x (srv_hub s) \<noteq> Inl p" if "transport_op x" "op_ok x (srv_hub s)" for x p
    using hub_inv_apply [OF hi that(2)] by auto
  have fields: "hub_running (srv_hub s) \<Longrightarrow> members (srv_hub s) = ran (owner s)"
    "owner s p = Some a \<Longrightarrow> owner s q = Some a \<Longrightarrow> p = q" "srv_conns s = fmdom (srv_live s)"
    "stopping s \<Longrightarrow> fmlookup (srv_live s) i = Some c \<Longrightarrow> cn_closed c" for p q a i c
    using hub.ownedD(3,4) [OF own] conns unfolding conns_ok_def by metis+
  show ?thesis by (intro conjI allI impI; (elim conjE)?) (fact fields auth line leave request loop)+
qed

section \<open>Example\<close>

definition demo_parse :: "bytes \<Rightarrow> (bytes \<times> bytes) option" where
  "demo_parse d = (case d of [] \<Rightarrow> None | k # rest \<Rightarrow> Some ([k], rest))"

text \<open>A user logs in, gets a terminal, and the server is stopped.\<close>

definition demo_s0 :: "unit Server" where
  "demo_s0 = \<lparr>srv_hub = NewHub ''n'', srv_commands = demo_reg, authKeys = [[7], [8]], srv_listener = None,
     srv_conns = {||}, stopping = False, srv_live = fmempty, srv_next = 0\<rparr>"

definition demo_s4 :: "unit Server" where
  "demo_s4 = new_channel 0 ''session''
     (upd_conn 0 (\<lambda>c. c\<lparr>cn_user := Some ''ann'', cn_key := [8]\<rparr>) (srv_accept (srv_Listen demo_s0)))"

definition demo_s5 :: "unit Server" where
  "demo_s5 = (case session_request [1] 0 0 ''ann'' ''shell'' demo_s4 of Ret s \<Rightarrow> s | _ \<Rightarrow> demo_s4)"

lemmas ssh_eval = demo_s0_def srv_Listen_def srv_accept_def upd_conn_def new_channel_def chan_at_def Let_def

lemma demo_NewServer: "NewServer demo_parse (Some [7, 8]) (NewHub ''n'') = Some (Inr demo_s0)"
proof -
  have "loadAuthorizedKeys demo_parse (Some [7, 8]) = Some [[7], [8]]"
    by (simp add: loadAuthorizedKeys_def keys_loop.simps demo_parse_def)
  then show ?thesis by (simp add: NewServer_def demo_reg_builtins demo_s0_def)
qed

lemma demo_s5_request: "session_request [1] 0 0 ''ann'' ''shell'' demo_s4 = Ret demo_s5"
  "chan_at demo_s4 0 0 = Some AwaitShell" "owner demo_s5 (0, 0) = Some 0" "hub_running (srv_hub demo_s5)"
  unfolding demo_s5_def demo_s4_def
  by (simp_all add: ssh_eval session_request_def terminal_start_def Join_call_def hub_call_def hub_eval
    upd_chan_def owner_def)

lemma demo_reach: "ssh_reach demo_ext demo_s0 (srv_Stop demo_s5)"
proof -
  let ?f = "\<lambda>c. c\<lparr>cn_user := Some ''ann'', cn_key := [8]\<rparr>"
  have "ssh_reach demo_ext demo_s0 (srv_Listen demo_s0)"
    by (rule reach_step [OF reach_refl Own [OF Listen]]) (simp add: demo_s0_def)
  then have "ssh_reach demo_ext demo_s0 (srv_accept (srv_Listen demo_s0))"
    by (rule reach_step [OF _ Own [OF Accept [where ctx = False and accepted = True and stops = False]]])
      (simp_all add: srv_Listen_def Serve_starts_def Serve_iter_def demo_s0_def)
  then have "ssh_reach demo_ext demo_s0 (upd_conn 0 ?f (srv_accept (srv_Listen demo_s0)))"
    by (rule reach_step [OF _ Own [OF AuthOk [where c = "\<lparr>cn_closed = False, cn_user = None, cn_key = [], cn_chans = []\<rparr>"]]])
      (simp_all add: ssh_eval publicKeyCallback_def)
  then have "ssh_reach demo_ext demo_s0 demo_s4"
    unfolding demo_s4_def
    by (rule reach_step [OF _ Own [OF Channel [where c = "\<lparr>cn_closed = False, cn_user = Some ''ann'', cn_key = [8], cn_chans = []\<rparr>"]]])
      (simp_all add: ssh_eval)
  then have "ssh_reach demo_ext demo_s0 demo_s5"
  proof (rule reach_step)
    show "ssh_step demo_ext demo_s4 demo_s5"
    proof (rule Own [OF Request [OF _ _ demo_s5_request(2) _ _ demo_s5_request(1)]])
      show "fmlookup (srv_live demo_s4) 0 =
          Some \<lparr>cn_closed = False, cn_user = Some ''ann'', cn_key = [8], cn_chans = [AwaitShell]\<rparr>"
        by (simp add: demo_s4_def ssh_eval)
      show "Suc (hub_next (srv_hub demo_s4)) < 2 ^ 64" by (simp add: demo_s4_def ssh_eval NewHub_def)
    qed simp_all
  qed
  then show ?thesis by (rule reach_step [OF _ Own [OF Stop]])
qed

theorem ssh_sessions_are_members_witness:
  "NewServer demo_parse (Some [7, 8]) (NewHub ''n'') = Some (Inr demo_s0) \<and>
   ssh_reach demo_ext demo_s0 (srv_Stop demo_s5) \<and> 0 \<in> members (srv_hub (srv_Stop demo_s5)) \<and>
   (\<exists>c. fmlookup (srv_live (srv_Stop demo_s5)) 0 = Some c \<and> cn_key c \<in> {[7], [8]} \<and> cn_closed c)"
proof -
  have keys: "loadAuthorizedKeys demo_parse (Some [7, 8]) = Some [[7], [8]]"
    by (simp add: loadAuthorizedKeys_def keys_loop.simps demo_parse_def)
  have "owner (srv_Stop demo_s5) = owner demo_s5" by (intro owner_cong) (auto simp: srv_Stop_def split: option.splits)
  then have o: "owner (srv_Stop demo_s5) (0, 0) = Some 0" using demo_s5_request(3) by simp
  have run: "hub_running (srv_hub (srv_Stop demo_s5))" and stop: "stopping (srv_Stop demo_s5)"
    using demo_s5_request(4) by (simp_all add: srv_Stop_def)
  have new: "NewServer demo_parse (Some [7, 8]) (if False then SetRemoteSend (NewHub ''n'') else NewHub ''n'') = Some (Inr demo_s0)"
    unfolding if_False by (rule demo_NewServer)
  note T = ssh_sessions_are_members [OF new demo_reach]
  have "0 \<in> members (srv_hub (srv_Stop demo_s5))"
    using T [THEN conjunct1, rule_format, OF run] o by (auto simp: ran_def)
  moreover obtain c where c: "fmlookup (srv_live (srv_Stop demo_s5)) 0 = Some c" "cn_key c \<in> {[7], [8]}"
    using T [THEN conjunct2, THEN conjunct2, THEN conjunct1, rule_format, OF o] keys by auto
  moreover have "cn_closed c"
    using T [THEN conjunct2, THEN conjunct2, THEN conjunct2, THEN conjunct2, THEN conjunct2, THEN conjunct2,
        THEN conjunct2, THEN conjunct2, rule_format, OF stop c(1)] .
  ultimately show ?thesis using demo_NewServer demo_reach by blast
qed

end
