(* ===== verification/Node.thy ===== *)
theory Node
  imports Discovery
begin

text \<open>
  The node as a whole: connecting to a peer (\<^verbatim>\<open>handleInbound\<close> and \<^verbatim>\<open>dial\<close> of
  \<^verbatim>\<open>internal/transport/manager.go\<close>), what a received frame makes the node do, and a step relation
  over all operations that change a node's state, in any order.

  A connection's bytes come from the network, so they are arguments: the bytes the other side sends
  during the handshake and the hello exchange, and later those that arrive. \<^verbatim>\<open>Peer.Run\<close> is the
  sequence of its loops' iterations, each a step of its own.
\<close>

section \<open>Connecting\<close>

datatype connect_result =
    AtCapacity
  | DialFailed
  | HandshakeFailed noise_error
  | HelloFailed hello_error
  | Rejected node_id string
  | Connected node_id

text \<open>
  The part \<^verbatim>\<open>handleInbound\<close> and \<^verbatim>\<open>dial\<close> share: from the handshake to \<^verbatim>\<open>onPeerConnected\<close>. \<open>s\<close> are the
  bytes the peer sends, \<open>uh\<close> and \<open>ux\<close> the fresh identifiers of the hello and of the first exchange.
\<close>

definition connect_peer ::
  "crypto \<Rightarrow> 'r codec \<Rightarrow> ('h, 'c) noise_lib \<Rightarrow> string \<Rightarrow> string \<Rightarrow> node_id list \<Rightarrow> instant \<Rightarrow> bool \<Rightarrow> bytes \<Rightarrow>
     'c Node \<Rightarrow> connect_result \<times> 'c Node" where
  "connect_peer cr cd nl uh ux ks now init s n =
     (let m = n_mgr n in
      case Handshake nl init (m_noiseKey m) s of
        Inl e \<Rightarrow> (HandshakeFailed e, n)
      | Inr (nc, px) \<Rightarrow>
          (case ExchangeHello cr cd nl uh (helloConfig m) (applyPeerTimeouts m (newPeer nc px (m_id m) init)) of
             Inl e \<Rightarrow> (HelloFailed e, n)
           | Inr peer \<Rightarrow>
               (case addPeer peer m of
                  (reason, m1) \<Rightarrow>
                    if reason \<noteq> '''' then (Rejected (p_NodeID peer) reason, n\<lparr>n_mgr := m1\<rparr>)
                    else (Connected (p_NodeID peer),
                          onPeerConnected cr cd ux ks now peer (n\<lparr>n_mgr := m1\<rparr>)))))"

definition handleInbound ::
  "crypto \<Rightarrow> 'r codec \<Rightarrow> ('h, 'c) noise_lib \<Rightarrow> string \<Rightarrow> string \<Rightarrow> node_id list \<Rightarrow> instant \<Rightarrow> bytes \<Rightarrow>
     'c Node \<Rightarrow> connect_result \<times> 'c Node" where
  "handleInbound cr cd nl uh ux ks now s n =
     (if cfg_MaxPeers (m_cfg (n_mgr n)) > 0 \<and>
         int (map_len (m_peers (n_mgr n))) \<ge> cfg_MaxPeers (m_cfg (n_mgr n)) then (AtCapacity, n)
      else connect_peer cr cd nl uh ux ks now False s n)"

text \<open>\<^const>\<open>None\<close> for the stream is a failed \<^verbatim>\<open>net.DialTimeout\<close>.\<close>

definition dial ::
  "crypto \<Rightarrow> 'r codec \<Rightarrow> ('h, 'c) noise_lib \<Rightarrow> string \<Rightarrow> string \<Rightarrow> node_id list \<Rightarrow> instant \<Rightarrow> bytes option \<Rightarrow>
     'c Node \<Rightarrow> connect_result \<times> 'c Node" where
  "dial cr cd nl uh ux ks now s n =
     (case s of
        None \<Rightarrow> (DialFailed, n)
      | Some stream \<Rightarrow> connect_peer cr cd nl uh ux ks now True stream n)"

section \<open>A running connection\<close>

definition set_peer :: "node_id \<Rightarrow> 'c Peer \<Rightarrow> 'c Node \<Rightarrow> 'c Node" where
  "set_peer k p n = n\<lparr>n_mgr := (n_mgr n)\<lparr>m_peers := fmupd k p (m_peers (n_mgr n))\<rparr>\<rparr>"

text \<open>The callbacks the manager sets on its peers, and the call of one of them.\<close>

definition peerExchangeHandler :: "crypto \<Rightarrow> node_id \<Rightarrow> PeerInfo list \<Rightarrow> 'c Node \<Rightarrow> 'c Node" where
  "peerExchangeHandler cr nodeID infos n = mergeDiscoveredPeers cr infos n"

definition gossipMessageHandler ::
  "crypto \<Rightarrow> 'r codec \<Rightarrow> runtime \<Rightarrow> node_id \<Rightarrow> Envelope \<Rightarrow> 'c Node \<Rightarrow> 'c Node" where
  "gossipMessageHandler cr cd rt fromPeerID env n =
     (case HandleIncoming cr cd rt fromPeerID env (n_eng n) (n_mgr n) of (e, m) \<Rightarrow> n\<lparr>n_eng := e, n_mgr := m\<rparr>)"

definition run_action :: "crypto \<Rightarrow> 'r codec \<Rightarrow> runtime \<Rightarrow> recv_action \<Rightarrow> 'c Node \<Rightarrow> 'c Node" where
  "run_action cr cd rt act n =
     (case act of
        NoAction \<Rightarrow> n
      | CallPeerExchange nodeID infos \<Rightarrow> peerExchangeHandler cr nodeID infos n
      | CallGossip fromPeerID env \<Rightarrow> gossipMessageHandler cr cd rt fromPeerID env n)"

lemmas action_defs = run_action_def peerExchangeHandler_def gossipMessageHandler_def

text \<open>
  An iteration of the receive loop of the peer \<open>k\<close>; when the loop returns, \<^verbatim>\<open>Run\<close> closes the peer.
\<close>

definition receive ::
  "crypto \<Rightarrow> 'r codec \<Rightarrow> ('h, 'c) noise_lib \<Rightarrow> runtime \<Rightarrow> instant \<Rightarrow> node_id \<Rightarrow> 'c Node \<Rightarrow> 'c Node" where
  "receive cr cd nl rt now k n =
     (case fmlookup (m_peers (n_mgr n)) k of
        None \<Rightarrow> n
      | Some p \<Rightarrow>
          (case recv_iter cr cd nl now p of
             (res, act, p1) \<Rightarrow>
               if res = LoopContinues then run_action cr cd rt act (set_peer k p1 n)
               else set_peer k (peer_Close p1) n))"

text \<open>An iteration of the send loop of the peer \<open>k\<close>.\<close>

definition transmit ::
  "'r codec \<Rightarrow> ('h, 'c) noise_lib \<Rightarrow> send_case \<Rightarrow> node_id \<Rightarrow> 'c Node \<Rightarrow> 'c Node" where
  "transmit cd nl c k n =
     (case fmlookup (m_peers (n_mgr n)) k of
        None \<Rightarrow> n
      | Some p \<Rightarrow>
          (case send_iter cd nl c p of
             Inr (Some p1) \<Rightarrow> set_peer k p1 n
           | _ \<Rightarrow> set_peer k (peer_Close p) n))"

text \<open>Bytes arrive on the connection to \<open>k\<close>, unless it is closed.\<close>

definition arrive :: "node_id \<Rightarrow> bytes \<Rightarrow> 'c Node \<Rightarrow> 'c Node" where
  "arrive k b n =
     (case fmlookup (m_peers (n_mgr n)) k of
        None \<Rightarrow> n
      | Some p \<Rightarrow>
          if nc_open (p_conn p) then set_peer k (p\<lparr>p_conn := (p_conn p)\<lparr>nc_in := nc_in (p_conn p) @ b\<rparr>\<rparr>) n
          else n)"

abbreviation on_mgr :: "('c Manager \<Rightarrow> 'c Manager) \<Rightarrow> 'c Node \<Rightarrow> 'c Node" where
  "on_mgr f n \<equiv> n\<lparr>n_mgr := f (n_mgr n)\<rparr>"

abbreviation on_eng :: "('c Manager Engine \<Rightarrow> 'c Manager Engine) \<Rightarrow> 'c Node \<Rightarrow> 'c Node" where
  "on_eng f n \<equiv> n\<lparr>n_eng := f (n_eng n)\<rparr>"

section \<open>Steps of a node\<close>

text \<open>
  Every goroutine's next operation on the shared state. Connecting is cut where the code takes the
  lock: a peer that completed the hello exchange is admitted, and greeted in a later step.
\<close>

inductive node_own ::
  "crypto \<Rightarrow> PeerRecord codec \<Rightarrow> ('h, 'c) noise_lib \<Rightarrow> 'c Node \<Rightarrow> 'c Node \<Rightarrow> bool" for cr cd nl where
  Admit: "ExchangeHello cr cd nl uh cfg q = Inr p \<Longrightarrow> sendCh q = [] \<Longrightarrow>
     node_own cr cd nl n (on_mgr (\<lambda>m. snd (addPeer p m)) n)"
| Greet: "fmlookup (m_peers (n_mgr n)) k = Some p \<Longrightarrow>
     node_own cr cd nl n (onPeerConnected cr cd ux ks now p n)"
| Arrival: "node_own cr cd nl n (arrive k b n)"
| Receive: "node_own cr cd nl n (receive cr cd nl rt now k n)"
| Transmit: "node_own cr cd nl n (transmit cd nl c k n)"
| Forget: "fmlookup (m_peers (n_mgr n)) k = Some p \<Longrightarrow>
     node_own cr cd nl n (set_peer k (cleanupSeen now p) n)"
| Disconnect: "node_own cr cd nl n (on_mgr (removePeer k) n)"
| Fanout: "node_own cr cd nl n (fanout_iter cr cd rt uuid now n)"
| Exchange: "node_own cr cd nl n (on_mgr (exchange_tick cr cd uuids orders now ks) n)"
| Discover: "node_own cr cd nl n (on_mgr (\<lambda>m. snd (tryDiscoveryDials ks draws now m)) n)"
| DialEnd: "node_own cr cd nl n (on_mgr (dial_finished cd failed now r) n)"
| Save: "node_own cr cd nl n (on_mgr (run_save cd i) n)"
| SweepSeen: "\<not> eng_done (n_eng n) \<Longrightarrow> node_own cr cd nl n (on_eng (\<lambda>e. e\<lparr>Seen := seen_cleanup now (Seen e)\<rparr>) n)"
| SweepLimiter: "\<not> eng_done (n_eng n) \<Longrightarrow> node_own cr cd nl n (on_eng (\<lambda>e. e\<lparr>Limiter := rl_cleanup now (Limiter e)\<rparr>) n)"
| Timeouts: "node_own cr cd nl n (on_mgr (SetPeerTimeouts idle keepalive) n)"
| WriteTimeout: "node_own cr cd nl n (on_mgr (SetPeerWriteTimeout d) n)"
| Listen: "node_own cr cd nl n (on_mgr (\<lambda>m. m\<lparr>m_listener := Some True, listenAddr := addr\<rparr>) n)"
| ListenFails: "node_own cr cd nl n (on_eng engine_Stop n)"
| Halt: "node_own cr cd nl n (mgr_Stop n)"

text \<open>The hub is shared with the SSH server and has a loop of its own, so it may also change by itself.\<close>

inductive node_step ::
  "crypto \<Rightarrow> PeerRecord codec \<Rightarrow> ('h, 'c) noise_lib \<Rightarrow> 'c Node \<Rightarrow> 'c Node \<Rightarrow> bool" for cr cd nl where
  Own: "node_own cr cd nl n n' \<Longrightarrow> node_step cr cd nl n n'"
| HubStep: "op_ok op (m_hub (n_mgr n)) \<Longrightarrow> hub_apply op (m_hub (n_mgr n)) = Inr h \<Longrightarrow>
     node_step cr cd nl n (on_mgr (\<lambda>m. m\<lparr>m_hub := h\<rparr>) n)"

inductive node_reach ::
  "crypto \<Rightarrow> PeerRecord codec \<Rightarrow> ('h, 'c) noise_lib \<Rightarrow> 'c Node \<Rightarrow> 'c Node \<Rightarrow> bool" for cr cd nl n0 where
  node_init: "node_reach cr cd nl n0 n0"
| node_next: "node_reach cr cd nl n0 n \<Longrightarrow> node_step cr cd nl n n' \<Longrightarrow> node_reach cr cd nl n0 n'"


section \<open>The invariant\<close>

definition mgr_inv :: "crypto \<Rightarrow> 'c Manager \<Rightarrow> bool" where
  "mgr_inv cr m \<longleftrightarrow> peers_inv cr m \<and> known_inv cr (knownPeers m) \<and>
     (\<forall>rs \<in> set (m_saves m). \<forall>r \<in> set rs. record_bound cr r) \<and> hub_inv (m_hub m)"

definition eng_inv :: "crypto \<Rightarrow> 'r codec \<Rightarrow> 'c Manager Engine \<Rightarrow> bool" where
  "eng_inv cr cd e \<longleftrightarrow> keys_bound cr (eng_KeyRing e) \<and> getPeers e = peerHandles \<and>
     handlers e = fmupd MsgTypeChat (chat_handler cd) fmempty"

definition node_inv :: "crypto \<Rightarrow> 'r codec \<Rightarrow> 'c Node \<Rightarrow> bool" where
  "node_inv cr cd n \<longleftrightarrow> mgr_inv cr (n_mgr n) \<and> eng_inv cr cd (n_eng n)"

lemma node_invI:
  "mgr_inv cr (n_mgr n) \<Longrightarrow> eng_inv cr cd (n_eng n) \<Longrightarrow> node_inv cr cd n"
  by (simp add: node_inv_def)

text \<open>One peer's part of the invariant.\<close>

definition peer_ok :: "crypto \<Rightarrow> node_id \<Rightarrow> 'c Peer \<Rightarrow> bool" where
  "peer_ok cr k p \<longleftrightarrow> p_NodeID p = k \<and> node_id_of cr (edPubKey p) = k \<and>
     length (edPubKey p) = PublicKeySize \<and> length (sendCh p) \<le> sendChCap"

lemma peers_inv_alt:
  "peers_inv cr m \<longleftrightarrow> (\<forall>k p. fmlookup (m_peers m) k = Some p \<longrightarrow> peer_ok cr k p) \<and>
     (cfg_MaxPeers (m_cfg m) > 0 \<longrightarrow> int (map_len (m_peers m)) \<le> cfg_MaxPeers (m_cfg m))"
  by (simp add: peers_inv_def peer_ok_def)

lemma mgr_invD:
  assumes "mgr_inv cr m"
  shows "peers_inv cr m" "known_inv cr (knownPeers m)" "hub_inv (m_hub m)"
    "fmlookup (m_peers m) k = Some p \<Longrightarrow> peer_ok cr k p"
  using assms by (simp_all add: mgr_inv_def peers_inv_alt)

lemma mgr_inv_cong:
  assumes "mgr_inv cr m" and "m_peers m' = m_peers m" and "m_cfg m' = m_cfg m"
    and "knownPeers m' = knownPeers m" and "m_saves m' = m_saves m" and "m_hub m' = m_hub m"
  shows "mgr_inv cr m'"
  using assms by (simp add: mgr_inv_def peers_inv_def)

text \<open>Replacing a connected peer, and mapping over the peers.\<close>

lemma mgr_inv_upd_peer:
  assumes "mgr_inv cr m" and "fmlookup (m_peers m) k = Some p" and "peer_ok cr k p'"
  shows "mgr_inv cr (m\<lparr>m_peers := fmupd k p' (m_peers m)\<rparr>)"
proof -
  have "k |\<in>| fmdom (m_peers m)" using assms(2) by (simp add: fmdomI)
  then show ?thesis using assms by (auto simp: mgr_inv_def peers_inv_alt finsert_absorb)
qed

lemma mgr_inv_map_peers:
  assumes "mgr_inv cr m" and "\<And>k p. peer_ok cr k p \<Longrightarrow> peer_ok cr k (f p)"
  shows "mgr_inv cr (m\<lparr>m_peers := fmmap f (m_peers m)\<rparr>)"
  using assms by (auto simp: mgr_inv_def peers_inv_alt)

lemma mgr_inv_send:
  assumes "mgr_inv cr m"
  shows "mgr_inv cr (snd (peer_send k raw m))"
proof (cases "fmlookup (m_peers m) k")
  case (Some p)
  have "peer_ok cr k (snd (SendRaw raw p))"
    using mgr_invD(4) [OF assms Some] by (auto simp: peer_ok_def SendRaw_def)
  from mgr_inv_upd_peer [OF assms Some this] Some show ?thesis
    by (simp add: peer_send_def split_beta)
qed (use assms in \<open>simp add: peer_send_def\<close>)

lemma mgr_inv_send_each:
  assumes "mgr_inv cr m" and "\<And>p. p \<in> set ps \<Longrightarrow> ph_Send p = peer_send (ph_NodeID p)"
  shows "mgr_inv cr (snd (send_each raw ps m))"
  using assms
proof (induction ps arbitrary: m)
  case (Cons p ps)
  have "mgr_inv cr (snd (ph_Send p raw m))" using Cons.prems mgr_inv_send by simp
  from Cons.IH [OF this] Cons.prems(2) show ?case by (simp add: split_beta Let_def)
qed simp

lemma peerHandles_send: "p \<in> set (peerHandles ks m) \<Longrightarrow> ph_Send p = peer_send (ph_NodeID p)"
  by (auto simp: peerHandles_def)

section \<open>Operations keep the invariant\<close>

lemma set_peer_inv:
  assumes "node_inv cr cd n" and "fmlookup (m_peers (n_mgr n)) k = Some p" and "peer_ok cr k p'"
  shows "node_inv cr cd (set_peer k p' n)"
  using assms mgr_inv_upd_peer [OF _ assms(2,3)] by (simp add: node_inv_def set_peer_def)

lemma peer_ok_dispatch: "peer_ok cr k p \<Longrightarrow> peer_ok cr k (snd (dispatch cr' cd now data p))"
  by (auto simp: peer_ok_def dispatch_def isDuplicate_def split: option.splits)

lemma peer_ok_conn [simp]: "peer_ok cr k (p\<lparr>p_conn := c\<rparr>) = peer_ok cr k p"
  by (simp add: peer_ok_def)

lemma peer_ok_Close: "peer_ok cr k p \<Longrightarrow> peer_ok cr k (peer_Close p)"
  by (simp add: peer_ok_def peer_Close_def)

lemma peer_ok_recv:
  assumes "peer_ok cr k p" and "recv_iter cr cd nl now p = (res, act, p1)"
  shows "peer_ok cr k p1"
proof (cases "ReadFrame (noise_ReadFull nl) (p_conn p)")
  case (Inr x)
  have "p1 = snd (dispatch cr cd now (fst x) (p\<lparr>p_conn := snd x\<rparr>))"
    using assms(2) Inr by (auto simp: recv_iter_def split_beta)
  then show ?thesis using assms(1) by (simp add: peer_ok_dispatch)
qed (use assms in \<open>auto simp: recv_iter_def\<close>)

lemma peer_ok_send:
  assumes "peer_ok cr k p" and "send_iter cd nl c p = Inr (Some p1)"
  shows "peer_ok cr k p1"
  using assms
  by (auto simp: send_iter_def sendWithDeadline_def writeKeepalive_def peer_ok_def
      split: send_case.splits list.splits sum.splits option.splits if_splits)

lemma deliver_inv:
  assumes "mgr_inv cr m" and "eng_inv cr cd e" and "deliver env e m = (e', m')"
  shows "mgr_inv cr m' \<and> eng_inv cr cd e'"
proof -
  have "mgr_inv cr (chat_handler cd sid pl m)" for sid pl
    using assms(1) by (auto simp: chat_handler_def mgr_inv_def peers_inv_def hub_inv_def DeliverRemote_def msg_ok_def
        split: option.splits)
  then show ?thesis
    using assms by (auto simp: deliver_def eng_inv_def split: option.splits if_splits)
qed

lemma forwardTo_inv:
  assumes "mgr_inv cr m" and "eng_inv cr cd e" and "forwardTo rt raw x e m = (e', m')"
  shows "mgr_inv cr m' \<and> eng_inv cr cd e'"
proof -
  have h: "ph_Send p = peer_send (ph_NodeID p)" if "p \<in> set (forward_set rt x e m)" for p
    using that forward_set_facts(2) [of rt x e m] assms(2) peerHandles_send by (auto simp: eng_inv_def)
  have "m' = snd (send_each raw (forward_set rt x e m) m)"
    using assms(3) by (auto simp: forwardTo_eq Let_def split_beta)
  moreover have "eng_inv cr cd e'"
    using assms(2,3) by (auto simp: forwardTo_eq Let_def split_beta eng_inv_def)
  ultimately show ?thesis using mgr_inv_send_each [OF assms(1) h] by simp
qed

lemma relay_inv:
  assumes "mgr_inv cr m" and "eng_inv cr cd e" and "relay cd' rt frm env e m = (e', m')"
  shows "mgr_inv cr m' \<and> eng_inv cr cd e'"
  using assms forwardTo_inv [OF assms(1,2)] by (auto simp: relay_def split: if_splits option.splits)

lemma HandleIncoming_inv:
  assumes "mgr_inv cr m" and "eng_inv cr cd e" and "HandleIncoming cr cd' rt frm env e m = (e', m')"
  shows "mgr_inv cr m' \<and> eng_inv cr cd e'"
proof -
  have kr: "keys_bound cr (snd (lookup_or_learn cr env (eng_KeyRing e)))"
    using assms(2) by (auto simp: eng_inv_def lookup_or_learn_def Let_def split: option.splits
        intro: keys_bound_Add learnable_bound)
  show ?thesis
  proof (cases "admitted cr rt env e")
    case True
    obtain e1 m1 where d: "deliver env (accept_state cr rt env e) m = (e1, m1)" by fastforce
    have "eng_inv cr cd (accept_state cr rt env e)" using assms(2) kr by (simp add: eng_inv_def accept_state_def)
    from deliver_inv [OF assms(1) this d] relay_inv [of cr m1 cd e1 cd' rt frm env e' m'] assms(3) d show ?thesis
      by (simp add: HandleIncoming_admitted [OF True])
  next
    case False
    have "m' = m" using HandleIncoming_refused [OF False, of cd' frm m] assms(3) by auto
    moreover have "eng_KeyRing e' = eng_KeyRing e \<or> eng_KeyRing e' = snd (lookup_or_learn cr env (eng_KeyRing e))"
      "getPeers e' = getPeers e" "handlers e' = handlers e"
      using HandleIncoming_refused [OF False, of cd' frm m] HandleIncoming_keyring [of cr cd' rt frm env e m] assms(3)
      by auto
    ultimately show ?thesis using assms(1,2) kr by (auto simp: eng_inv_def)
  qed
qed

text \<open>A peer that completed the hello exchange may be added.\<close>

lemma recvHello_frame:
  assumes "recvHello cr cd nl t a = Inr (h, b)"
  shows "\<exists>nc. b = a\<lparr>p_conn := nc\<rparr>" "length (hello_Ed25519Pubkey h) = PublicKeySize"
  using assms by (auto simp: recvHello_def VerifyEnvelope_def split: sum.splits option.splits if_splits)

lemma verifyPeerIdentity_sendCh: "verifyPeerIdentity cr h a = Inr b \<Longrightarrow> sendCh b = sendCh a"
  by (auto simp: verifyPeerIdentity_def Let_def split: if_splits option.splits)

lemma ExchangeHello_peer:
  assumes "ExchangeHello cr cd nl uh cfg q = Inr p"
  shows "node_id_of cr (edPubKey p) = p_NodeID p \<and> length (edPubKey p) = PublicKeySize \<and> sendCh p = sendCh q"
proof (cases "p_initiator q")
  case True
  then obtain p1 h p2 where 1: "sendHello cr cd nl uh (local_hello cfg q) MsgTypePeerHello q = Inr p1"
    "recvHello cr cd nl MsgTypePeerHelloAck p1 = Inr (h, p2)" "verifyPeerIdentity cr h p2 = Inr p"
    using assms by (auto simp: ExchangeHello_def split: sum.splits prod.splits)
  from sendHello_frame [OF 1(1)] recvHello_frame [OF 1(2)] verifyPeerIdentity_result(1,3) [OF 1(3)]
    verifyPeerIdentity_sendCh [OF 1(3)] show ?thesis by auto
next
  case False
  then obtain h p1 p2 where 1: "recvHello cr cd nl MsgTypePeerHello q = Inr (h, p1)"
    "verifyPeerIdentity cr h p1 = Inr p2" "sendHello cr cd nl uh (local_hello cfg q) MsgTypePeerHelloAck p2 = Inr p"
    using assms by (auto simp: ExchangeHello_def split: sum.splits prod.splits)
  from recvHello_frame [OF 1(1)] verifyPeerIdentity_result(1,3) [OF 1(2)] verifyPeerIdentity_sendCh [OF 1(2)]
    sendHello_frame [OF 1(3)] show ?thesis by auto
qed

lemma addPeer_inv:
  assumes "mgr_inv cr m" and "node_id_of cr (edPubKey p) = p_NodeID p" and "length (edPubKey p) = PublicKeySize"
    and "sendCh p = []"
  shows "mgr_inv cr (snd (addPeer p m))"
proof -
  let ?p = "p\<lparr>has_onPeerExchange := True, has_onGossipMessage := True\<rparr>"
  have "peer_ok cr (p_NodeID p) ?p" using assms(2-4) by (simp add: peer_ok_def)
  then show ?thesis
    using assms(1) by (auto simp: addPeer_def mgr_inv_def peers_inv_alt fcard_finsert_if)
qed

lemma exchange_inv:
  assumes "mgr_inv cr m"
  shows "mgr_inv cr (sendPeerExchangeTo cr' cd uuid ks now k m)"
  using assms mgr_inv_send [OF assms, of k] by (simp add: sendPeerExchangeTo_def Let_def split: option.splits)

lemma exchange_tick_inv:
  assumes "mgr_inv cr m"
  shows "mgr_inv cr (exchange_tick cr' cd uuids orders now ks m)"
proof -
  have "mgr_inv cr (fold (\<lambda>p. sendPeerExchangeTo cr' cd (uuids (p_NodeID p)) (orders (p_NodeID p)) now (p_NodeID p)) ps m)"
    for ps :: "'a Peer list"
    using assms by (induction ps arbitrary: m) (simp_all add: exchange_inv)
  then show ?thesis by (simp add: exchange_tick_def)
qed

lemma onPeerConnected_inv:
  assumes "node_inv cr cd n" and "fmlookup (m_peers (n_mgr n)) k = Some p"
  shows "node_inv cr cd (onPeerConnected cr cd' ux ks now p n)"
proof -
  have p: "peer_ok cr k p" using mgr_invD(4) assms by (auto simp: node_inv_def)
  define m where "m = n_mgr n"
  define old where "old = (case fmlookup (knownPeers m) (p_NodeID p) of Some r \<Rightarrow> r
    | None \<Rightarrow> \<lparr>rec_NodeID = p_NodeID p, rec_Addr = [], rec_Reachable = False, rec_PublicKey = [],
               rec_LastSeen = 0, rec_FailCount = 0, rec_LastFail = 0\<rparr>)"
  define r where "r = old\<lparr>rec_Addr := remoteListenAddr p, rec_Reachable := remoteReachable p,
    rec_PublicKey := hex_EncodeToString (edPubKey p), rec_LastSeen := Unix now, rec_FailCount := 0, rec_LastFail := 0\<rparr>"
  have m: "mgr_inv cr m" using assms(1) by (simp add: node_inv_def m_def)
  have id: "rec_NodeID r = p_NodeID p"
    using known_invD(1) [OF mgr_invD(2) [OF m]] by (auto simp: r_def old_def split: option.splits)
  have rb: "record_bound cr r"
    using p id by (intro record_boundI [of _ "edPubKey p"]) (simp_all add: peer_ok_def, simp add: r_def)
  have "mgr_inv cr (m\<lparr>knownPeers := fmupd (p_NodeID p) r (knownPeers m), m_saves := m_saves m @ [[r]]\<rparr>)"
    using m rb known_inv_upd [OF mgr_invD(2) [OF m] id rb] by (auto simp: mgr_inv_def peers_inv_def)
  then have "mgr_inv cr (n_mgr (onPeerConnected cr cd' ux ks now p n))"
    unfolding onPeerConnected_def Let_def by (simp add: exchange_inv flip: m_def old_def r_def)
  moreover have "eng_inv cr cd (n_eng (onPeerConnected cr cd' ux ks now p n))"
    using assms(1) p by (simp add: onPeerConnected_def Let_def node_inv_def eng_inv_def peer_ok_def keys_bound_Add)
  ultimately show ?thesis by (rule node_invI)
qed

lemma merge_inv:
  assumes "node_inv cr cd n"
  shows "node_inv cr cd (mergeDiscoveredPeers cr infos n)"
proof -
  let ?ok = "filter (acceptable cr (NodeID (m_id (n_mgr n)))) infos"
  have acc: "\<forall>info \<in> set ?ok. acceptable cr (NodeID (m_id (n_mgr n))) info" by simp
  have m: "mgr_inv cr (n_mgr n)" and e: "eng_inv cr cd (n_eng n)" using assms by (simp_all add: node_inv_def)
  have "keys_bound cr (fold (\<lambda>info. kr_Add (info_NodeId info) (info_Ed25519Pubkey info) TrustGossipLearned) is kr)"
    if "\<forall>info \<in> set is. acceptable cr self info" "keys_bound cr kr" for self kr and "is" :: "PeerInfo list"
    using that
  proof (induction "is" arbitrary: kr)
    case (Cons info infos)
    have "acceptable cr self info" using Cons.prems(1) by simp
    from Cons.IH [OF _ keys_bound_Add [OF Cons.prems(2) acceptable_bound(1) [OF this]]] Cons.prems(1)
    show ?case by simp
  qed simp
  from this [OF acc, of "eng_KeyRing (n_eng n)"] e
  have "eng_inv cr cd (n_eng (mergeDiscoveredPeers cr infos n))"
    by (simp add: mergeDiscoveredPeers_def Let_def split_beta eng_inv_def)
  moreover have "mgr_inv cr (n_mgr (mergeDiscoveredPeers cr infos n))"
    using m merge_fold_inv [of cr "(knownPeers (n_mgr n), [])" ?ok, OF _ _ acc]
    by (auto simp: mergeDiscoveredPeers_def Let_def split_beta mgr_inv_def peers_inv_def)
  ultimately show ?thesis by (simp add: node_inv_def)
qed

lemma fanout_inv:
  assumes "node_inv cr cd n"
  shows "node_inv cr cd (fanout_iter cr' cd' rt uuid now n)"
proof (cases "remote_recv (m_hub (n_mgr n))")
  case (Some x)
  obtain msg hub' where x: "x = (msg, hub')" by fastforce
  let ?m = "(n_mgr n)\<lparr>m_hub := hub'\<rparr>"
  have "hub_inv hub'" using hub_inv_apply [of "m_hub (n_mgr n)" OpTake] assms Some x
    by (auto simp: node_inv_def mgr_inv_def)
  then have m: "mgr_inv cr ?m" using assms by (simp add: node_inv_def mgr_inv_def peers_inv_def)
  have "mgr_inv cr w' \<and> eng_inv cr cd e'" if "Broadcast cd' rt' env (n_eng n) ?m = (res, e', w')" for rt' env res e' w'
    using that m assms mgr_inv_send_each [OF m, of "peerHandles (rt_order rt') ?m"] peerHandles_send
    by (auto simp: Broadcast_def Let_def split_beta node_inv_def eng_inv_def split: option.splits if_splits)
  then show ?thesis
    using Some x m assms
    by (auto simp: fanout_iter_def Let_def node_inv_def split: option.splits prod.splits)
qed (use assms in \<open>simp add: fanout_iter_def Let_def\<close>)

lemma tick_inv: "mgr_inv cr m \<Longrightarrow> mgr_inv cr (snd (tryDiscoveryDials ks draws now m))"
  by (auto simp: tryDiscoveryDials_def Let_def fold_dialing mgr_inv_def peers_inv_def)

lemma save_inv: "mgr_inv cr m \<Longrightarrow> mgr_inv cr (saveKnownPeer cd r m)"
  by (erule mgr_inv_cong) (simp_all add: saveKnownPeer_frame)

lemma run_save_inv:
  assumes "mgr_inv cr m"
  shows "mgr_inv cr (run_save cd i m)"
proof -
  have "mgr_inv cr (m\<lparr>m_saves := (m_saves m)[i := rs]\<rparr>)" if "i < length (m_saves m)" "m_saves m ! i = r # rs" for r rs
  proof -
    have "\<forall>x \<in> set (r # rs). record_bound cr x" using assms nth_mem [OF that(1)] unfolding that(2) mgr_inv_def by blast
    then show ?thesis
      using assms set_update_subset_insert [of "m_saves m" i rs] by (auto simp: mgr_inv_def peers_inv_def)
  qed
  then show ?thesis using assms by (auto simp: run_save_def save_inv split: list.splits)
qed

lemma dial_finished_inv:
  assumes "mgr_inv cr m"
  shows "mgr_inv cr (dial_finished cd failed now r m)"
proof -
  have drop: "mgr_inv cr (m'\<lparr>m_dialing := d\<rparr>)" if "mgr_inv cr m'" for m' :: "'a Manager" and d
    using that by (rule mgr_inv_cong) simp_all
  have "mgr_inv cr (m\<lparr>knownPeers := fmupd k (known\<lparr>rec_FailCount := f, rec_LastFail := t\<rparr>) (knownPeers m)\<rparr>)"
    if "fmlookup (knownPeers m) k = Some known" for k known f t
    using assms known_invD [OF mgr_invD(2) [OF assms] that]
    by (auto simp: mgr_inv_def peers_inv_def record_bound_def intro!: known_inv_upd)
  then show ?thesis using assms by (auto simp: dial_finished_def Let_def save_inv intro!: drop split: option.splits)
qed

lemma stop_inv:
  assumes "node_inv cr cd n"
  shows "node_inv cr cd (mgr_Stop n)"
proof -
  have "mgr_inv cr ((n_mgr n)\<lparr>m_peers := fmmap peer_Close (m_peers (n_mgr n))\<rparr>)"
    using assms peer_ok_Close by (intro mgr_inv_map_peers) (auto simp: node_inv_def)
  then have "mgr_inv cr ((n_mgr n)\<lparr>m_done := True, m_listener := map_option (\<lambda>_. False) (m_listener (n_mgr n)), m_peers := fmmap peer_Close (m_peers (n_mgr n))\<rparr>)"
    by (rule mgr_inv_cong) simp_all
  then show ?thesis
    using assms by (simp add: mgr_Stop_def node_inv_def eng_inv_def engine_Stop_def)
qed

lemma remove_inv: "mgr_inv cr m \<Longrightarrow> mgr_inv cr (removePeer k m)"
  using map_len_drop_le [of k "m_peers m"]
  by (auto simp: removePeer_def mgr_inv_def peers_inv_alt fmlookup_drop split: if_splits)

lemma receive_inv:
  assumes "node_inv cr cd n"
  shows "node_inv cr cd (receive cr cd nl rt now k n)"
proof (cases "fmlookup (m_peers (n_mgr n)) k")
  case (Some p)
  obtain res act p1 where r: "recv_iter cr cd nl now p = (res, act, p1)" by (metis prod_cases3)
  have "peer_ok cr k p" using mgr_invD(4) Some assms by (auto simp: node_inv_def)
  then have p1: "peer_ok cr k p1" by (rule peer_ok_recv [OF _ r])
  have n1: "node_inv cr cd (set_peer k p1 n)" by (rule set_peer_inv [OF assms Some p1])
  have run: "node_inv cr cd (run_action cr cd rt act n')" if "node_inv cr cd n'" for n' :: "'b Node"
    using that HandleIncoming_inv [of cr "n_mgr n'" cd "n_eng n'" cd rt] merge_inv [OF that]
    by (auto simp: action_defs node_inv_def split: recv_action.splits prod.splits)
  show ?thesis
    using Some r run [OF n1] set_peer_inv [OF assms Some peer_ok_Close [OF p1]] by (simp add: receive_def)
qed (use assms in \<open>simp add: receive_def\<close>)

lemma transmit_inv:
  assumes "node_inv cr cd n"
  shows "node_inv cr cd (transmit cd' nl c k n)"
proof (cases "fmlookup (m_peers (n_mgr n)) k")
  case (Some p)
  have p: "peer_ok cr k p" using mgr_invD(4) Some assms by (auto simp: node_inv_def)
  show ?thesis
    using Some set_peer_inv [OF assms Some peer_ok_Close [OF p]] set_peer_inv [OF assms Some peer_ok_send [OF p]]
    by (auto simp: transmit_def split: sum.splits option.splits)
qed (use assms in \<open>simp add: transmit_def\<close>)

lemma arrive_inv:
  assumes "node_inv cr cd n"
  shows "node_inv cr cd (arrive k b n)"
proof (cases "fmlookup (m_peers (n_mgr n)) k")
  case (Some p)
  have "peer_ok cr k p" using mgr_invD(4) Some assms by (auto simp: node_inv_def)
  then show ?thesis using Some set_peer_inv [OF assms Some] assms by (simp add: arrive_def)
qed (use assms in \<open>simp add: arrive_def\<close>)

lemma on_mgr_inv:
  assumes "node_inv cr cd n" and "\<And>m. mgr_inv cr m \<Longrightarrow> mgr_inv cr (f m)"
  shows "node_inv cr cd (on_mgr f n)"
  using assms by (simp add: node_inv_def)

lemma timeouts_inv: "mgr_inv cr m \<Longrightarrow> mgr_inv cr (SetPeerTimeouts idle keepalive m)"
  by (erule mgr_inv_cong) (simp_all add: SetPeerTimeouts_def)

lemma write_timeout_inv:
  assumes "mgr_inv cr m"
  shows "mgr_inv cr (SetPeerWriteTimeout d m)"
proof -
  have "mgr_inv cr (m\<lparr>m_peers := fmmap (\<lambda>p. p\<lparr>writeTimeout := d\<rparr>) (m_peers m)\<rparr>)"
    by (rule mgr_inv_map_peers [OF assms]) (simp add: peer_ok_def)
  then show ?thesis by (rule mgr_inv_cong) (simp_all add: SetPeerWriteTimeout_def)
qed

lemma node_own_inv:
  assumes "node_own cr cd nl n n'" and "node_inv cr cd n"
  shows "node_inv cr cd n'"
  using assms
proof (cases rule: node_own.cases)
  case (Admit uh cfg q p)
  from ExchangeHello_peer [OF Admit(2)] Admit(3) show ?thesis
    unfolding Admit(1) by (intro on_mgr_inv [OF assms(2)] addPeer_inv) simp_all
next
  case (Forget k p now)
  have "peer_ok cr k (cleanupSeen now p)"
    using mgr_invD(4) [OF _ Forget(2)] assms(2) by (auto simp: node_inv_def peer_ok_def cleanupSeen_def)
  then show ?thesis unfolding Forget(1) by (rule set_peer_inv [OF assms(2) Forget(2)])
next
  case (Listen addr)
  then show ?thesis by (auto intro!: on_mgr_inv [OF assms(2)] elim!: mgr_inv_cong)
next
  case (SweepSeen now)
  then show ?thesis using assms(2) by (simp add: node_inv_def eng_inv_def)
next
  case ListenFails
  then show ?thesis using assms(2) by (simp add: node_inv_def eng_inv_def engine_Stop_def)
next
  case (SweepLimiter now)
  then show ?thesis using assms(2) by (simp add: node_inv_def eng_inv_def)
qed (auto intro!: on_mgr_inv [OF assms(2)] onPeerConnected_inv [OF assms(2)] arrive_inv [OF assms(2)]
      receive_inv [OF assms(2)] transmit_inv [OF assms(2)] fanout_inv [OF assms(2)] stop_inv [OF assms(2)]
      remove_inv exchange_tick_inv tick_inv dial_finished_inv run_save_inv timeouts_inv write_timeout_inv)

lemma node_inv_hub: "node_inv cr cd n \<Longrightarrow> hub_inv h \<Longrightarrow> node_inv cr cd (on_mgr (\<lambda>m. m\<lparr>m_hub := h\<rparr>) n)"
  by (rule on_mgr_inv) (simp_all add: mgr_inv_def peers_inv_def)

lemma node_step_inv:
  assumes "node_step cr cd nl n n'" and "node_inv cr cd n"
  shows "node_inv cr cd n'"
  using assms
proof (cases rule: node_step.cases)
  case (HubStep op h)
  have "hub_inv h"
    using hub_inv_apply [OF _ HubStep(2)] HubStep(3) assms(2) by (auto simp: node_inv_def mgr_inv_def)
  then show ?thesis unfolding HubStep(1) by (rule node_inv_hub [OF assms(2)])
qed (rule node_own_inv [OF _ assms(2)])

lemma node_reach_inv:
  assumes "node_reach cr cd nl n0 n" and "node_inv cr cd n0"
  shows "node_inv cr cd n"
  using assms by (induction rule: node_reach.induct) (auto intro: node_step_inv)

lemma loadKnownPeers_frame:
  "m_peers (loadKnownPeers cr cd ks m) = m_peers m" "m_cfg (loadKnownPeers cr cd ks m) = m_cfg m"
  "m_saves (loadKnownPeers cr cd ks m) = m_saves m" "m_hub (loadKnownPeers cr cd ks m) = m_hub m"
  by (simp_all add: loadKnownPeers_def Let_def split: option.splits)

lemma NewManager_inv:
  assumes "NewManager cr cd ks cfg i hub st = Some n" and "identity_ok cr i" and "hub_inv (SetRemoteSend hub)"
  shows "node_inv cr cd n"
proof -
  obtain n1 where n1: "make_manager cr cd cfg i hub st = Some n1"
    and n: "n = n1\<lparr>n_mgr := loadKnownPeers cr cd ks (n_mgr n1)\<rparr>"
    using assms(1) by (auto simp: NewManager_def)
  have e: "eng_inv cr cd (n_eng n1)"
    using n1 identity_okD(2) [OF assms(2)]
    by (auto simp: make_manager_def Let_def NewEngine_def RegisterHandler_def eng_inv_def keys_bound_Add
        split: option.splits)
  have "mgr_inv cr (n_mgr n1)"
    using n1 assms(3)
    by (auto simp: make_manager_def Let_def mgr_inv_def peers_inv_def known_inv_def fcard.rep_eq split: option.splits)
  then have "mgr_inv cr (n_mgr n)"
    using known_inv_load [of cr "n_mgr n1" cd ks]
    by (simp add: n mgr_inv_def peers_inv_def loadKnownPeers_frame)
  with e show ?thesis by (simp add: n node_inv_def)
qed

text \<open>Connecting to a peer is made of steps.\<close>

lemma connect_steps:
  assumes "node_reach cr cd nl n0 n" and "connect_peer cr cd nl uh ux ks now init s n = (res, n')"
  shows "node_reach cr cd nl n0 n'"
proof (cases "n' = n")
  case False
  let ?m = "n_mgr n"
  obtain nc px p where h: "Handshake nl init (m_noiseKey ?m) s = Inr (nc, px)"
    and x: "ExchangeHello cr cd nl uh (helloConfig ?m) (applyPeerTimeouts ?m (newPeer nc px (m_id ?m) init)) = Inr p"
    using assms(2) False by (auto simp: connect_peer_def Let_def split: sum.splits)
  have q: "sendCh (applyPeerTimeouts ?m (newPeer nc px (m_id ?m) init)) = []"
    by (simp add: applyPeerTimeouts_def newPeer_def Let_def)
  let ?n1 = "on_mgr (\<lambda>m. snd (addPeer p m)) n"
  have r1: "node_reach cr cd nl n0 ?n1" by (rule node_next [OF assms(1) Own [OF node_own.Admit [OF x q]]])
  show ?thesis
  proof (cases "fst (addPeer p ?m) = ''''")
    case True
    let ?p = "p\<lparr>has_onPeerExchange := True, has_onGossipMessage := True\<rparr>"
    have l: "fmlookup (m_peers (n_mgr ?n1)) (p_NodeID p) = Some ?p"
      using True by (auto simp: addPeer_def split: if_splits)
    have same: "onPeerConnected cr cd ux ks now ?p n2 = onPeerConnected cr cd ux ks now p n2" for n2
      unfolding onPeerConnected_def by (simp cong: option.case_cong)
    have "n' = onPeerConnected cr cd ux ks now ?p ?n1"
      unfolding same using assms(2) h x True by (auto simp: connect_peer_def Let_def split_beta)
    then show ?thesis using node_next [OF r1 Own [OF node_own.Greet [OF l]]] by simp
  next
    case False
    then show ?thesis using r1 assms(2) h x by (auto simp: connect_peer_def Let_def split_beta)
  qed
qed (use assms in simp)

section \<open>Properties\<close>

text \<open>
  C4. What holds of a node at all times, whatever its peers send and however its goroutines are
  scheduled: at most the configured number of peers; every connected peer is stored under the hash
  of the key it proved to own and its send queue is within its bound; every key in the keyring
  hashes to the identifier it is stored under; and every known-peer record that has a key has a key
  of the right size that hashes to its identifier.
\<close>

theorem node_stays_consistent:
  assumes "NewManager cr cd ks cfg i hub st = Some n0" and "identity_ok cr i"
    and "hub_inv (SetRemoteSend hub)" and "node_reach cr cd nl n0 n"
  shows "(cfg_MaxPeers (m_cfg (n_mgr n)) > 0 \<longrightarrow> int (PeerCount (n_mgr n)) \<le> cfg_MaxPeers (m_cfg (n_mgr n))) \<and>
    (\<forall>k p. fmlookup (m_peers (n_mgr n)) k = Some p \<longrightarrow>
       p_NodeID p = k \<and> node_id_of cr (edPubKey p) = k \<and> length (sendCh p) \<le> 64) \<and>
    (\<forall>k e. kr_Lookup k (eng_KeyRing (n_eng n)) = Some e \<longrightarrow> node_id_of cr (PubKey e) = k) \<and>
    (\<forall>k r. fmlookup (knownPeers (n_mgr n)) k = Some r \<longrightarrow> rec_NodeID r = k \<and>
       (rec_PublicKey r \<noteq> [] \<longrightarrow>
          (\<exists>pub. hex_DecodeString (rec_PublicKey r) = Some pub \<and> length pub = PublicKeySize \<and>
             node_id_of cr pub = k)))"
proof -
  have "node_inv cr cd n" using node_reach_inv [OF assms(4) NewManager_inv [OF assms(1-3)]] .
  then show ?thesis
    by (auto simp: node_inv_def mgr_inv_def peers_inv_def eng_inv_def keys_bound_def known_inv_def
        record_bound_def PeerCount_def sendChCap_def)
qed

text \<open>The connection of a node that begins the hello exchange, and the hello it sends.\<close>

abbreviation fresh_peer :: "'c noiseConn \<Rightarrow> bytes \<Rightarrow> bool \<Rightarrow> 'c Manager \<Rightarrow> 'c Peer" where
  "fresh_peer nc px init m \<equiv> applyPeerTimeouts m (newPeer nc px (m_id m) init)"

definition node_hello :: "'c Manager \<Rightarrow> PeerHello" where
  "node_hello m = \<lparr>hello_NodeId = NodeID (m_id m), hello_Version = ''0.1.0'', hello_Tags = cfg_Tags (m_cfg m),
     hello_Reachable = (advertiseAddr m \<noteq> []), hello_ListenAddr = advertiseAddr m,
     hello_Ed25519Pubkey = PublicKey (m_id m)\<rparr>"

lemma fresh_peer_simps [simp]:
  "p_localID (fresh_peer nc px init m) = m_id m" "p_initiator (fresh_peer nc px init m) = init"
  "peerX25519 (fresh_peer nc px init m) = px" "p_conn (fresh_peer nc px init m) = nc"
  "sendCh (fresh_peer nc px init m) = []"
  "(fresh_peer nc px init m)\<lparr>p_conn := nc'\<rparr> = fresh_peer nc' px init m"
  by (simp_all add: applyPeerTimeouts_def newPeer_def Let_def)

lemma local_hello_node: "p_localID p = m_id m \<Longrightarrow> local_hello (helloConfig m) p = node_hello m"
  by (simp add: local_hello_def helloConfig_def node_hello_def Let_def)

lemma peer_send_other_fields:
  "fmlookup (m_peers (snd (peer_send k raw m))) j =
     map_option (\<lambda>p. if j = k then snd (SendRaw raw p) else p) (fmlookup (m_peers m) j)"
  by (cases "j = k"; cases "fmlookup (m_peers m) k"; cases "fmlookup (m_peers m) j")
    (auto simp: peer_send_def split_beta)

text \<open>What a node looks like right after a peer was connected.\<close>

definition linked :: "crypto \<Rightarrow> Identity \<Rightarrow> bytes \<Rightarrow> 'c Node \<Rightarrow> bool" where
  "linked cr i written n \<longleftrightarrow>
     (\<exists>p. fmlookup (m_peers (n_mgr n)) (NodeID i) = Some p \<and> edPubKey p = PublicKey i \<and>
        nc_out (p_conn p) = written \<and> has_onPeerExchange p \<and> has_onGossipMessage p) \<and>
     (\<exists>e. kr_Lookup (NodeID i) (eng_KeyRing (n_eng n)) = Some e \<and> ke_TrustLevel e = TrustDirectlyVerified) \<and>
     (\<exists>r. fmlookup (knownPeers (n_mgr n)) (NodeID i) = Some r \<and> rec_FailCount r = 0 \<and>
        rec_PublicKey r = hex_EncodeToString (PublicKey i))"

lemma sendPeerExchangeTo_peers:
  "\<exists>q. fmlookup (m_peers (sendPeerExchangeTo cr cd ux ks now k m)) j =
     map_option (\<lambda>p. p\<lparr>sendCh := q p\<rparr>) (fmlookup (m_peers m) j)"
  "knownPeers (sendPeerExchangeTo cr cd ux ks now k m) = knownPeers m"
proof -
  have id: "\<exists>q. fmlookup (m_peers m) j = map_option (\<lambda>p. p\<lparr>sendCh := q p\<rparr>) (fmlookup (m_peers m) j)"
    by (intro exI [of _ sendCh]) (simp add: option.map_ident)
  have snd: "\<exists>q. fmlookup (m_peers (snd (peer_send k raw m))) j =
      map_option (\<lambda>p. p\<lparr>sendCh := q p\<rparr>) (fmlookup (m_peers m) j)" for raw
    by (intro exI [of _ "\<lambda>p. if j = k then sendCh (snd (SendRaw raw p)) else sendCh p"])
      (auto simp: peer_send_other_fields SendRaw_def intro!: option.map_cong)
  show "\<exists>q. fmlookup (m_peers (sendPeerExchangeTo cr cd ux ks now k m)) j =
      map_option (\<lambda>p. p\<lparr>sendCh := q p\<rparr>) (fmlookup (m_peers m) j)"
    using id snd by (simp add: sendPeerExchangeTo_def Let_def split: option.splits)
  have "knownPeers (snd (peer_send k raw m)) = knownPeers m" for raw
    by (simp add: peer_send_def split_beta split: option.splits)
  then show "knownPeers (sendPeerExchangeTo cr cd ux ks now k m) = knownPeers m"
    by (simp add: sendPeerExchangeTo_def Let_def split: option.splits)
qed

lemma connected_linked:
  assumes "Handshake nl init (m_noiseKey (n_mgr n)) s = Inr (nc, px)"
    and "ExchangeHello cr cd nl uh (helloConfig (n_mgr n)) (fresh_peer nc px init (n_mgr n)) = Inr p"
    and "p_NodeID p = NodeID i" and "edPubKey p = PublicKey i"
    and "fmlookup (m_peers (n_mgr n)) (NodeID i) = None"
    and "\<not> (cfg_MaxPeers (m_cfg (n_mgr n)) > 0 \<and> int (PeerCount (n_mgr n)) \<ge> cfg_MaxPeers (m_cfg (n_mgr n)))"
  shows "\<exists>n'. connect_peer cr cd nl uh ux ks now init s n = (Connected (NodeID i), n') \<and>
    linked cr i (nc_out (p_conn p)) n'"
proof -
  let ?p = "p\<lparr>has_onPeerExchange := True, has_onGossipMessage := True\<rparr>"
  let ?m = "(n_mgr n)\<lparr>m_peers := fmupd (NodeID i) ?p (m_peers (n_mgr n))\<rparr>"
  let ?n' = "onPeerConnected cr cd ux ks now p (n\<lparr>n_mgr := ?m\<rparr>)"
  have "addPeer p (n_mgr n) = ('''', ?m)"
    using assms(3,5,6) by (simp add: addPeer_def PeerCount_def)
  then have c: "connect_peer cr cd nl uh ux ks now init s n = (Connected (NodeID i), ?n')"
    using assms(1-3) by (simp add: connect_peer_def Let_def)
  obtain m1 where m1: "n_mgr ?n' = sendPeerExchangeTo cr cd ux ks now (p_NodeID p) m1"
    "m_peers m1 = m_peers ?m" "\<exists>r. fmlookup (knownPeers m1) (NodeID i) = Some r \<and> rec_FailCount r = 0 \<and>
       rec_PublicKey r = hex_EncodeToString (PublicKey i)"
    using assms(3,4) by (auto simp: onPeerConnected_def Let_def)
  obtain q where "fmlookup (m_peers (n_mgr ?n')) (NodeID i) =
      map_option (\<lambda>p. p\<lparr>sendCh := q p\<rparr>) (fmlookup (m_peers m1) (NodeID i))"
    unfolding m1(1) using sendPeerExchangeTo_peers(1) by blast
  moreover have "\<exists>e. kr_Lookup k (kr_Add k pub TrustDirectlyVerified kr) = Some e \<and> ke_TrustLevel e = TrustDirectlyVerified"
    for k pub kr by (auto simp: kr_defs split: option.splits)
  ultimately have "linked cr i (nc_out (p_conn p)) ?n'"
    using assms(3,4) m1(2,3) unfolding linked_def m1(1) sendPeerExchangeTo_peers(2)
    by (simp add: onPeerConnected_def Let_def)
  with c show ?thesis by blast
qed

text \<open>Two honest nodes that read what the other writes both complete the handshake and the hello exchange.\<close>

lemma honest_exchange:
  assumes "NewHandshakeState nl True (m_noiseKey (n_mgr a)) = Some i0"
    and "NewHandshakeState nl False (m_noiseKey (n_mgr b)) = Some r0"
    and "WriteMessage nl i0 = Some (m1, x1, x2, i1)" and "ReadMessage nl r0 m1 = Some (x3, x4, r1)"
    and "WriteMessage nl r1 = Some (m2, x5, x6, r2)" and "ReadMessage nl i1 m2 = Some (x7, x8, i2)"
    and "WriteMessage nl i2 = Some (m3, ci1, ci2, i3)" and "ReadMessage nl r2 m3 = Some (cr1, cr2, r3)"
    and "length m1 \<le> 0xFFFF" and "length m2 \<le> 0xFFFF" and "length m3 \<le> 0xFFFF"
    and "paired_states nl R" and "R ci1 cr1" and "R cr2 ci2"
    and "EdPublicToX25519 cr (PublicKey (m_id (n_mgr b))) = Some (hs_PeerStatic nl i3)"
    and "EdPublicToX25519 cr (PublicKey (m_id (n_mgr a))) = Some (hs_PeerStatic nl r3)"
    and "codec_ok cd" and "identity_ok cr (m_id (n_mgr a))" and "identity_ok cr (m_id (n_mgr b))"
    and "hello_bytes cr cd ua (m_id (n_mgr a)) MsgTypePeerHello (node_hello (n_mgr a)) = Some ba"
    and "hello_bytes cr cd ub (m_id (n_mgr b)) MsgTypePeerHelloAck (node_hello (n_mgr b)) = Some bb"
    and "length ba \<le> MaxPayload" and "length bb \<le> MaxPayload"
  shows "\<exists>sa sb nca pxa ncb pxb pa pb.
    Handshake nl True (m_noiseKey (n_mgr a)) sb = Inr (nca, pxa) \<and>
    ExchangeHello cr cd nl ua (helloConfig (n_mgr a)) (fresh_peer nca pxa True (n_mgr a)) = Inr pa \<and>
    Handshake nl False (m_noiseKey (n_mgr b)) sa = Inr (ncb, pxb) \<and>
    ExchangeHello cr cd nl ub (helloConfig (n_mgr b)) (fresh_peer ncb pxb False (n_mgr b)) = Inr pb \<and>
    nc_out (p_conn pa) = sa \<and> nc_out (p_conn pb) = sb \<and>
    p_NodeID pa = NodeID (m_id (n_mgr b)) \<and> edPubKey pa = PublicKey (m_id (n_mgr b)) \<and>
    p_NodeID pb = NodeID (m_id (n_mgr a)) \<and> edPubKey pb = PublicKey (m_id (n_mgr a))"
proof -
  let ?ma = "n_mgr a" and ?mb = "n_mgr b"
  let ?pa = "hs_PeerStatic nl i3" and ?pb = "hs_PeerStatic nl r3"
  let ?oa = "hs_frame m1 @ hs_frame m3" and ?ob = "hs_frame m2"
  let ?na = "\<lambda>s. new_noiseConn ci1 ci2 s ?oa ?pa" and ?nb = "\<lambda>s. new_noiseConn cr2 cr1 s ?ob ?pb"
  note hs = handshake_run [OF assms(1-11)]
  have "\<exists>wa wb pa pb.
    ExchangeHello cr cd nl ua (helloConfig ?ma)
      ((fresh_peer (?na []) ?pa True ?ma)\<lparr>p_conn := (p_conn (fresh_peer (?na []) ?pa True ?ma))\<lparr>nc_in := wb\<rparr>\<rparr>) = Inr pa \<and>
    ExchangeHello cr cd nl ub (helloConfig ?mb)
      ((fresh_peer (?nb []) ?pb False ?mb)\<lparr>p_conn := (p_conn (fresh_peer (?nb []) ?pb False ?mb))\<lparr>nc_in := wa\<rparr>\<rparr>) = Inr pb \<and>
    nc_out (p_conn pa) = nc_out (p_conn (fresh_peer (?na []) ?pa True ?ma)) @ wa \<and>
    nc_out (p_conn pb) = nc_out (p_conn (fresh_peer (?nb []) ?pb False ?mb)) @ wb \<and>
    p_NodeID pa = NodeID (p_localID (fresh_peer (?nb []) ?pb False ?mb)) \<and>
    edPubKey pa = PublicKey (p_localID (fresh_peer (?nb []) ?pb False ?mb)) \<and>
    remoteReachable pa = hc_Reachable (helloConfig ?mb) \<and> remoteListenAddr pa = hc_ListenAddr (helloConfig ?mb) \<and>
    p_NodeID pb = NodeID (p_localID (fresh_peer (?na []) ?pa True ?ma)) \<and>
    edPubKey pb = PublicKey (p_localID (fresh_peer (?na []) ?pa True ?ma)) \<and>
    remoteReachable pb = hc_Reachable (helloConfig ?ma) \<and> remoteListenAddr pb = hc_ListenAddr (helloConfig ?ma)"
    by (rule hello_exchange_run [OF assms(12,17) _ _ _ _ _ _ _ _ _ _ _ _ _ _ assms(22,23)])
      (use assms(13-16,18-21) in \<open>simp_all add: local_hello_node new_noiseConn_def\<close>)
  then obtain wa wb pa pb where
    A: "ExchangeHello cr cd nl ua (helloConfig ?ma) (fresh_peer (?na wb) ?pa True ?ma) = Inr pa"
    and B: "ExchangeHello cr cd nl ub (helloConfig ?mb) (fresh_peer (?nb wa) ?pb False ?mb) = Inr pb"
    and w: "nc_out (p_conn pa) = ?oa @ wa" "nc_out (p_conn pb) = ?ob @ wb"
    and ids: "p_NodeID pa = NodeID (m_id ?mb)" "edPubKey pa = PublicKey (m_id ?mb)"
      "p_NodeID pb = NodeID (m_id ?ma)" "edPubKey pb = PublicKey (m_id ?ma)"
    by (auto simp: new_noiseConn_def)
  then show ?thesis using hs by blast
qed

text \<open>
  C7. Two honest nodes connect. If the Noise library accepts the three handshake messages in turn
  and pairs the cipher states, the handshake's static keys are those of the two identities, and the
  hellos can be marshalled within the frame limit, then the dialing side and the accepting side both
  end up connected when each reads exactly the bytes the other wrote: each has the other in its peer
  map under its identifier with its key, its key in the keyring as directly verified, and a known
  record with no failures.
\<close>

theorem honest_nodes_connect:
  assumes "NewHandshakeState nl True (m_noiseKey (n_mgr a)) = Some i0"
    and "NewHandshakeState nl False (m_noiseKey (n_mgr b)) = Some r0"
    and "WriteMessage nl i0 = Some (m1, x1, x2, i1)" and "ReadMessage nl r0 m1 = Some (x3, x4, r1)"
    and "WriteMessage nl r1 = Some (m2, x5, x6, r2)" and "ReadMessage nl i1 m2 = Some (x7, x8, i2)"
    and "WriteMessage nl i2 = Some (m3, ci1, ci2, i3)" and "ReadMessage nl r2 m3 = Some (cr1, cr2, r3)"
    and "length m1 \<le> 0xFFFF" and "length m2 \<le> 0xFFFF" and "length m3 \<le> 0xFFFF"
    and "paired_states nl R" and "R ci1 cr1" and "R cr2 ci2"
    and "EdPublicToX25519 cr (PublicKey (m_id (n_mgr b))) = Some (hs_PeerStatic nl i3)"
    and "EdPublicToX25519 cr (PublicKey (m_id (n_mgr a))) = Some (hs_PeerStatic nl r3)"
    and "codec_ok cd" and "identity_ok cr (m_id (n_mgr a))" and "identity_ok cr (m_id (n_mgr b))"
    and "hello_bytes cr cd ua (m_id (n_mgr a)) MsgTypePeerHello (node_hello (n_mgr a)) = Some ba"
    and "hello_bytes cr cd ub (m_id (n_mgr b)) MsgTypePeerHelloAck (node_hello (n_mgr b)) = Some bb"
    and "length ba \<le> MaxPayload" and "length bb \<le> MaxPayload"
    and "fmlookup (m_peers (n_mgr a)) (NodeID (m_id (n_mgr b))) = None"
    and "fmlookup (m_peers (n_mgr b)) (NodeID (m_id (n_mgr a))) = None"
    and "\<not> (cfg_MaxPeers (m_cfg (n_mgr a)) > 0 \<and> int (PeerCount (n_mgr a)) \<ge> cfg_MaxPeers (m_cfg (n_mgr a)))"
    and "\<not> (cfg_MaxPeers (m_cfg (n_mgr b)) > 0 \<and> int (PeerCount (n_mgr b)) \<ge> cfg_MaxPeers (m_cfg (n_mgr b)))"
  shows "\<exists>sa sb a' b'.
    dial cr cd nl ua xa ka ta (Some sb) a = (Connected (NodeID (m_id (n_mgr b))), a') \<and>
    handleInbound cr cd nl ub xb kb tb sa b = (Connected (NodeID (m_id (n_mgr a))), b') \<and>
    linked cr (m_id (n_mgr b)) sa a' \<and> linked cr (m_id (n_mgr a)) sb b'"
proof -
  from honest_exchange [OF assms(1-23)] obtain sa sb nca pxa ncb pxb pa pb where
    A: "Handshake nl True (m_noiseKey (n_mgr a)) sb = Inr (nca, pxa)"
      "ExchangeHello cr cd nl ua (helloConfig (n_mgr a)) (fresh_peer nca pxa True (n_mgr a)) = Inr pa"
    and B: "Handshake nl False (m_noiseKey (n_mgr b)) sa = Inr (ncb, pxb)"
      "ExchangeHello cr cd nl ub (helloConfig (n_mgr b)) (fresh_peer ncb pxb False (n_mgr b)) = Inr pb"
    and w: "nc_out (p_conn pa) = sa" "nc_out (p_conn pb) = sb"
    and ids: "p_NodeID pa = NodeID (m_id (n_mgr b))" "edPubKey pa = PublicKey (m_id (n_mgr b))"
      "p_NodeID pb = NodeID (m_id (n_mgr a))" "edPubKey pb = PublicKey (m_id (n_mgr a))" by blast
  obtain a' where a': "connect_peer cr cd nl ua xa ka ta True sb a = (Connected (NodeID (m_id (n_mgr b))), a')"
    "linked cr (m_id (n_mgr b)) sa a'"
    using connected_linked [OF A ids(1,2) assms(24,26), of xa ka ta] unfolding w by blast
  obtain b' where b': "connect_peer cr cd nl ub xb kb tb False sa b = (Connected (NodeID (m_id (n_mgr a))), b')"
    "linked cr (m_id (n_mgr a)) sb b'"
    using connected_linked [OF B ids(3,4) assms(25,27), of xb kb tb] unfolding w by blast
  show ?thesis
    using a' b' assms(27) unfolding dial_def handleInbound_def PeerCount_def
    by (intro exI [of _ sa] exI [of _ sb] exI [of _ a'] exI [of _ b']) simp
qed

section \<open>Witnesses\<close>

definition demo_net_cfg :: NetConfig where
  "demo_net_cfg = \<lparr>cfg_Listen = [], cfg_AdvertiseAddr = [], cfg_Bootstrap = [''b:2''], cfg_MaxPeers = 2, cfg_Tags = []\<rparr>"

definition demo_link_codec :: "PeerRecord codec" where
  "demo_link_codec = \<lparr>env_Marshal = (\<lambda>e. if e = demo_hello_a then Some [3] else if e = demo_hello_b then Some [4] else None),
     env_Unmarshal = (\<lambda>b. if b = [3] then Some demo_hello_a else if b = [4] then Some demo_hello_b else None),
     hello_Marshal = (\<lambda>h. if h = node_hello (demo_mgr 1 []) then Some [1]
       else if h = node_hello (demo_mgr 2 []) then Some [2] else None),
     hello_Unmarshal = (\<lambda>b. if b = [1] then Some (node_hello (demo_mgr 1 []))
       else if b = [2] then Some (node_hello (demo_mgr 2 [])) else None),
     chat_Marshal = (\<lambda>_. None), chat_Unmarshal = (\<lambda>_. None), px_Marshal = (\<lambda>_. None), px_Unmarshal = (\<lambda>_. None),
     json_Marshal = (\<lambda>_. None), json_Unmarshal = (\<lambda>_. None)\<rparr>"

definition demo_net :: "(nat, nat) noise_lib" where
  "demo_net = demo_noise\<lparr>NewHandshakeState := (\<lambda>i k. Some (if i then 0 else 10)),
     hs_PeerStatic := (\<lambda>h. if h < 10 then replicate 32 2 else replicate 32 1)\<rparr>"

lemma demo_link_ok: "codec_ok demo_link_codec"
  by (simp add: codec_ok_def demo_link_codec_def)

theorem node_stays_consistent_witness:
  "\<exists>n0 :: nat Node. NewManager demo_crypto demo_link_codec [] demo_net_cfg (demo_id 1) (NewHub ''n'') None = Some n0 \<and>
     int (PeerCount (n_mgr (mgr_Stop n0))) \<le> 2"
proof -
  obtain n0 :: "nat Node" where n0:
    "NewManager demo_crypto demo_link_codec [] demo_net_cfg (demo_id 1) (NewHub ''n'') None = Some n0"
    by (simp add: NewManager_def make_manager_def EdToNoiseKeypair_def EdPublicToX25519_def demo_crypto_def Let_def)
  have r: "node_reach demo_crypto demo_link_codec demo_net n0 (mgr_Stop n0)"
    by (rule node_next [OF node_init Own [OF node_own.Halt]])
  have "cfg_MaxPeers (m_cfg (n_mgr (mgr_Stop n0))) = 2"
    using n0 by (auto simp: NewManager_def make_manager_def mgr_Stop_def loadKnownPeers_frame demo_net_cfg_def Let_def
        split: option.splits)
  with node_stays_consistent [OF n0 demo_id_ok hub_inv_New(2) r] n0 show ?thesis by auto
qed

lemma demo_node_hellos:
  "node_hello (demo_mgr 2 []) \<noteq> node_hello (demo_mgr 1 [])"
  "hello_bytes demo_crypto demo_link_codec ''u1'' (demo_id 1) MsgTypePeerHello (node_hello (demo_mgr 1 [])) = Some [3]"
  "hello_bytes demo_crypto demo_link_codec ''u2'' (demo_id 2) MsgTypePeerHelloAck (node_hello (demo_mgr 2 [])) = Some [4]"
proof -
  have "hello_NodeId (node_hello (demo_mgr 2 [])) \<noteq> hello_NodeId (node_hello (demo_mgr 1 []))"
    by (simp add: node_hello_def demo_mgr_sel demo_ids)
  then show ne: "node_hello (demo_mgr 2 []) \<noteq> node_hello (demo_mgr 1 [])" by metis
  show "hello_bytes demo_crypto demo_link_codec ''u1'' (demo_id 1) MsgTypePeerHello (node_hello (demo_mgr 1 [])) = Some [3]"
    "hello_bytes demo_crypto demo_link_codec ''u2'' (demo_id 2) MsgTypePeerHelloAck (node_hello (demo_mgr 2 [])) = Some [4]"
    using ne demo_hellos_differ(2)
    by (simp_all add: hello_bytes_def demo_link_codec_def flip: demo_hello_a_def demo_hello_b_def)
qed

theorem honest_nodes_connect_witness:
  "\<exists>sa sb a' b'.
    dial demo_crypto demo_link_codec demo_net ''u1'' ''x1'' [] 0 (Some sb) (demo_node 1 []) =
      (Connected (NodeID (demo_id 2)), a') \<and>
    handleInbound demo_crypto demo_link_codec demo_net ''u2'' ''x2'' [] 0 sa (demo_node 2 []) =
      (Connected (NodeID (demo_id 1)), b')"
proof -
  have "\<exists>sa sb a' b'.
    dial demo_crypto demo_link_codec demo_net ''u1'' ''x1'' [] 0 (Some sb) (demo_node 1 []) =
      (Connected (NodeID (m_id (n_mgr (demo_node 2 [])))), a') \<and>
    handleInbound demo_crypto demo_link_codec demo_net ''u2'' ''x2'' [] 0 sa (demo_node 2 []) =
      (Connected (NodeID (m_id (n_mgr (demo_node 1 [])))), b') \<and>
    linked demo_crypto (m_id (n_mgr (demo_node 2 []))) sa a' \<and> linked demo_crypto (m_id (n_mgr (demo_node 1 []))) sb b'"
    by (rule honest_nodes_connect [where R = "(=)" and ?i0.0 = 0 and ?i1.0 = 1 and ?i2.0 = 2 and ?i3.0 = 3
          and ?r0.0 = 10 and ?r1.0 = 11 and ?r2.0 = 12 and ?r3.0 = 13 and ?m1.0 = "[0]" and ?m2.0 = "[11]" and ?m3.0 = "[2]"
          and ?ci1.0 = 10 and ?ci2.0 = 20 and ?cr1.0 = 10 and ?cr2.0 = 20 and ba = "[3]" and bb = "[4]"])
      (simp_all add: demo_mgr_sel demo_link_ok demo_id_ok demo_node_hellos MaxPayload_def PeerCount_def fcard.rep_eq,
       simp_all add: demo_net_def demo_noise_def paired_states_def EdPublicToX25519_def demo_crypto_def demo_id_def
         fromKeyPair_def)
  then show ?thesis by (simp add: demo_mgr_sel) blast
qed

end
