(* ===== verification/Startup.thy ===== *)
theory Startup
  imports Config KeyFile SSHServer Node
begin

text \<open>
  The start and the end of the program (\<^verbatim>\<open>cmd/micelio/main.go\<close>).

  \<^verbatim>\<open>main\<close> either stops with a fatal error or leaves a system of three parts: the node of the transport
  (if it listens or has bootstrap peers), the SSH server and the hub they share. Opening the database
  is the parameter \<open>open_store\<close>. The result is \<^const>\<open>None\<close> if the loop over the authorised keys does not end.
\<close>

datatype fatal =
    FatalStart start_error
  | FatalDataDir
  | FatalIdentity id_error
  | FatalStore
  | FatalTransport
  | FatalRegistry reg_panic
  | FatalListen

record ('c, 'x) system =
  sys_cfg :: Config
  sys_log :: log_state
  sys_id :: Identity
  sys_node :: "'c Node option"
  sys_ssh :: "'x Server"

definition start_transport ::
  "crypto \<Rightarrow> PeerRecord codec \<Rightarrow> bytes list \<Rightarrow> Config \<Rightarrow> Identity \<Rightarrow> PeerStore \<Rightarrow> Hub \<Rightarrow> (fatal + 'c Node option \<times> Hub)" where
  "start_transport cr cd ks cfg i st hub =
     (if nw_Listen (cf_Network cfg) \<noteq> [] \<or> nw_Bootstrap (cf_Network cfg) \<noteq> [] then
        (case NewManager cr cd ks (net_config cfg) i hub (Some st) of
           None \<Rightarrow> Inl FatalTransport
         | Some n \<Rightarrow> Inr (Some n, m_hub (n_mgr n)))
      else Inr (None, hub))"

definition start_services ::
  "crypto \<Rightarrow> PeerRecord codec \<Rightarrow> bytes list \<Rightarrow> (bytes \<Rightarrow> (bytes \<times> bytes) option) \<Rightarrow> Config \<Rightarrow> log_state \<Rightarrow> Identity \<Rightarrow>
     PeerStore \<Rightarrow> filesys \<Rightarrow> (fatal + ('c, 'x) system) option" where
  "start_services cr cd ks parse cfg lst i st fs =
     (case start_transport cr cd ks cfg i st (NewHub (nc_Name (cf_Node cfg))) of
        Inl e \<Rightarrow> Some (Inl e)
      | Inr (mgr, hub) \<Rightarrow>
          (case NewServer parse
              (case ReadFile (path_Join [nc_DataDir (cf_Node cfg), ''authorized_keys'']) fs of Inl _ \<Rightarrow> None | Inr d \<Rightarrow> Some d) hub of
             None \<Rightarrow> None
           | Some (Inl p) \<Rightarrow> Some (Inl (FatalRegistry p))
           | Some (Inr s) \<Rightarrow>
               Some (Inr \<lparr>sys_cfg = cfg, sys_log = lst, sys_id = i, sys_node = mgr, sys_ssh = s\<rparr>)))"

definition main_start ::
  "(string \<Rightarrow> Config \<Rightarrow> Config option) \<Rightarrow> environ \<Rightarrow> flags \<Rightarrow> log_state \<Rightarrow> crypto \<Rightarrow> keylib \<Rightarrow> (bytes \<times> bytes) option \<Rightarrow>
     (string \<Rightarrow> PeerStore option) \<Rightarrow> PeerRecord codec \<Rightarrow> bytes list \<Rightarrow> (bytes \<Rightarrow> (bytes \<times> bytes) option) \<Rightarrow> filesys \<Rightarrow>
     (fatal + ('c, 'x) system) option \<times> filesys" where
  "main_start td env fl lst0 cr kl rnd open_store cd ks parse fs =
     (case main_configure td env fl lst0 of
        Inl e \<Rightarrow> (Some (Inl (FatalStart e)), fs)
      | Inr (cfg, lst) \<Rightarrow>
          (let dir = nc_DataDir (cf_Node cfg) in
           if fs_denied fs dir then (Some (Inl FatalDataDir), fs)
           else
             (case identity_Load cr kl rnd dir fs of
                (Inl e, fs1) \<Rightarrow> (Some (Inl (FatalIdentity e)), fs1)
              | (Inr i, fs1) \<Rightarrow>
                  (case open_store (path_Join [dir, ''data.db'']) of
                     None \<Rightarrow> (Some (Inl FatalStore), fs1)
                   | Some st \<Rightarrow> (start_services cr cd ks parse cfg lst i st fs1, fs1)))))"

text \<open>The shutdown on a signal, in its order; \<^verbatim>\<open>hub.Stop\<close> acts on the shared hub.\<close>

definition main_stop :: "('c, 'x) system \<Rightarrow> hub_panic + ('c, 'x) system" where
  "main_stop sys =
     (let node = map_option mgr_Stop (sys_node sys); s = srv_Stop (sys_ssh sys) in
      case hub_Stop (srv_hub s) of
        Inl p \<Rightarrow> Inl p
      | Inr h \<Rightarrow> Inr (sys\<lparr>sys_node := map_option (\<lambda>n. n\<lparr>n_mgr := (n_mgr n)\<lparr>m_hub := h\<rparr>\<rparr>) node,
                          sys_ssh := s\<lparr>srv_hub := h\<rparr>\<rparr>))"

text \<open>
  The deferred calls when \<^verbatim>\<open>main\<close> returns: the store is closed, so its operations fail from then on.
\<close>

definition close_store :: "'c Manager \<Rightarrow> 'c Manager" where
  "close_store m = m\<lparr>m_store := map_option (\<lambda>st. st\<lparr>st_ok := False\<rparr>) (m_store m)\<rparr>"

definition main_return :: "('c, 'x) system \<Rightarrow> ('c, 'x) system" where
  "main_return sys = sys\<lparr>sys_node := map_option (\<lambda>n. n\<lparr>n_mgr := close_store (n_mgr n)\<rparr>) (sys_node sys)\<rparr>"

text \<open>A goroutine that is still to persist a record when \<^verbatim>\<open>main\<close> returns no longer changes what is stored.\<close>

lemma closed_store_unchanged:
  assumes "sys_node (main_return sys) = Some n"
  shows "m_store (run_save cd i (n_mgr n)) = m_store (n_mgr n)"
  using assms
  by (auto simp: main_return_def close_store_def run_save_def saveKnownPeer_def split: option.splits list.splits)

section \<open>A started system\<close>

lemma NewManager_hub:
  assumes "NewManager cr cd ks cfg i hub st = Some n"
  shows "m_hub (n_mgr n) = SetRemoteSend hub" "m_cfg (n_mgr n) = cfg" "m_id (n_mgr n) = i" "listenAddr (n_mgr n) = []"
proof -
  have load: "m_hub (loadKnownPeers cr cd ks m) = m_hub m" "m_cfg (loadKnownPeers cr cd ks m) = m_cfg m"
    "m_id (loadKnownPeers cr cd ks m) = m_id m" "listenAddr (loadKnownPeers cr cd ks m) = listenAddr m" for m :: "'a Manager"
    by (simp_all add: loadKnownPeers_def split: option.splits)
  obtain n1 where "make_manager cr cd cfg i hub st = Some n1" "n = n1\<lparr>n_mgr := loadKnownPeers cr cd ks (n_mgr n1)\<rparr>"
    using assms by (auto simp: NewManager_def)
  then show "m_hub (n_mgr n) = SetRemoteSend hub" "m_cfg (n_mgr n) = cfg" "m_id (n_mgr n) = i" "listenAddr (n_mgr n) = []"
    by (auto simp: make_manager_def Let_def load split: option.splits)
qed

lemma members_NewHub [simp]: "members (NewHub name) = {}" "members (SetRemoteSend (NewHub name)) = {}"
  by (simp_all add: members_def SetRemoteSend_def NewHub_def)

lemma start_services_ready:
  assumes "start_services cr cd ks parse cfg lst i st fs = Some (Inr sys)" and "identity_ok cr i"
  shows "ssh_inv (sys_ssh sys)" and "sys_id sys = i" and "sys_cfg sys = cfg" and "\<not> stop_closed (srv_hub (sys_ssh sys))"
    and "sys_node sys = None \<longleftrightarrow> nw_Listen (cf_Network cfg) = [] \<and> nw_Bootstrap (cf_Network cfg) = []"
    and "sys_node sys = Some n \<Longrightarrow> node_inv cr cd n \<and> m_hub (n_mgr n) = srv_hub (sys_ssh sys) \<and> m_cfg (n_mgr n) = net_config cfg"
proof -
  let ?h = "NewHub (nc_Name (cf_Node cfg))"
  obtain mgr hub s kf where t: "start_transport cr cd ks cfg i st ?h = Inr (mgr, hub)"
    "NewServer parse kf hub = Some (Inr s)" and sys: "sys_node sys = mgr" "sys_ssh sys = s" "sys_id sys = i" "sys_cfg sys = cfg"
    using assms(1) by (auto simp: start_services_def split: sum.splits prod.splits option.splits)
  then show "sys_id sys = i" "sys_cfg sys = cfg" by simp_all
  have hub: "hub = ?h \<or> hub = SetRemoteSend ?h"
    using t(1) by (auto simp: start_transport_def NewManager_hub(1) split: if_splits option.splits)
  then have "hub_inv hub" "members hub = {}" using hub_inv_New by auto
  note s = NewServer_inv(1) [OF t(2) this]
  then show "ssh_inv (sys_ssh sys)" using sys by simp
  have srv: "srv_hub s = hub" using t(2) by (auto simp: NewServer_def split: sum.splits option.splits)
  show "\<not> stop_closed (srv_hub (sys_ssh sys))"
    using hub srv sys(2) by (auto simp: NewHub_def SetRemoteSend_def)
  show "sys_node sys = None \<longleftrightarrow> nw_Listen (cf_Network cfg) = [] \<and> nw_Bootstrap (cf_Network cfg) = []"
    using t(1) sys by (auto simp: start_transport_def split: if_splits option.splits)
  show "node_inv cr cd n \<and> m_hub (n_mgr n) = srv_hub (sys_ssh sys) \<and> m_cfg (n_mgr n) = net_config cfg"
    if "sys_node sys = Some n"
  proof -
    have "NewManager cr cd ks (net_config cfg) i ?h (Some st) = Some n" "hub = m_hub (n_mgr n)"
      using that t(1) sys by (auto simp: start_transport_def split: if_splits option.splits)
    then show ?thesis using NewManager_inv [OF _ assms(2) hub_inv_New(2)] NewManager_hub(2) srv sys(2) by auto
  qed
qed

text \<open>
  C8. A node that starts is ready: its configuration passed validation; its identity is a usable key
  pair; the transport exists exactly if it listens or has bootstrap peers, starts in its invariant
  and shares its hub with the SSH server, which starts in its invariant with nobody connected. The
  shutdown does not panic and leaves the SSH server and the hub stopping. And the program keeps
  its identity: whenever it starts again on the files it left, with the same settings, the node
  identifier and keys are the same.
\<close>

theorem started_system_ready:
  assumes "keylib_ok cr kl" and "\<forall>pub priv. rnd = Some (pub, priv) \<longrightarrow> pub = drop 32 priv"
    and "main_start td env fl lst cr kl rnd open_store cd ks parse fs = (Some (Inr sys), fs')"
  shows "Validate (sys_cfg sys) = [] \<and> identity_ok cr (sys_id sys) \<and>
    (sys_node sys = None \<longleftrightarrow> nw_Listen (cf_Network (sys_cfg sys)) = [] \<and> nw_Bootstrap (cf_Network (sys_cfg sys)) = []) \<and>
    (\<forall>n. sys_node sys = Some n \<longrightarrow> node_inv cr cd n \<and> m_hub (n_mgr n) = srv_hub (sys_ssh sys) \<and>
       m_cfg (n_mgr n) = net_config (sys_cfg sys)) \<and>
    ssh_inv (sys_ssh sys) \<and>
    (\<exists>sys2. main_stop sys = Inr sys2 \<and> stopping (sys_ssh sys2) \<and> stop_closed (srv_hub (sys_ssh sys2))) \<and>
    (\<forall>rnd' open_store' ks' parse' sys' fs''.
       main_start td env fl lst cr kl rnd' open_store' cd ks' parse' fs' = (Some (Inr sys'), fs'') \<longrightarrow>
       sys_id sys' = sys_id sys)"
proof -
  have split: "\<exists>i st. identity_Load cr kl r (nc_DataDir (cf_Node cfg)) f = (Inr i, f') \<and>
      start_services cr cd k p cfg l i st f' = Some (Inr s)"
    if "main_start td env fl lst cr kl r os cd k p f = (Some (Inr s), f')" "main_configure td env fl lst = Inr (cfg, l)"
    for r os k p f s f' cfg l
    using that by (auto simp: main_start_def Let_def split: sum.splits prod.splits if_splits option.splits)
  obtain cfg l where c: "main_configure td env fl lst = Inr (cfg, l)"
    using assms(3) by (auto simp: main_start_def split: sum.splits prod.splits)
  from split [OF assms(3) c] obtain i st where i: "identity_Load cr kl rnd (nc_DataDir (cf_Node cfg)) fs = (Inr i, fs')"
    "start_services cr cd ks parse cfg l i st fs' = Some (Inr sys)" by blast
  note ok = identity_Load_stable(1) [OF assms(1,2) i(1)]
  note ready = start_services_ready [OF i(2) ok]
  have valid: "Validate cfg = []"
    using c by (auto simp: main_configure_def Let_def split: sum.splits if_splits)
  have "srv_hub (srv_Stop (sys_ssh sys)) = srv_hub (sys_ssh sys)" "stopping (srv_Stop (sys_ssh sys))"
    by (simp_all add: srv_Stop_def)
  then have stop: "\<exists>sys2. main_stop sys = Inr sys2 \<and> stopping (sys_ssh sys2) \<and> stop_closed (srv_hub (sys_ssh sys2))"
    using ready(4) by (simp add: main_stop_def Let_def hub_Stop_def)
  have again: "sys_id sys' = sys_id sys"
    if run: "main_start td env fl lst cr kl rnd' os cd k p fs' = (Some (Inr sys'), fs'')" for rnd' os k p and sys' :: "('c, 'd) system" and fs''
  proof -
    from split [OF run c] obtain i' st' where i': "identity_Load cr kl rnd' (nc_DataDir (cf_Node cfg)) fs' = (Inr i', fs'')"
      "start_services cr cd k p cfg l i' st' fs'' = Some (Inr sys')" by blast
    have "i' = i" using identity_Load_stable(2) [OF assms(1,2) i(1), of rnd'] i'(1) by simp
    then show ?thesis using start_services_ready(2) [OF i'(2)] ready(2) ok by simp
  qed
  show ?thesis using valid ok ready stop again by auto
qed

section \<open>Example\<close>

definition demo_boot :: "(fatal + (nat, unit) system) option \<times> filesys" where
  "demo_boot = main_start (demo_toml ''[::1]:80'') demo_environ demo_flags demo_log demo_crypto demo_keylib
     (Some (replicate 32 5, replicate 64 5)) (\<lambda>_. Some \<lparr>st_data = fmempty, st_ok = True\<rparr>) (demo_json (demo_record 1 0 0) (demo_record 1 0 0)) []
     demo_parse demo_fs"

lemma demo_identity:
  "\<exists>i fs'. identity_Load demo_crypto demo_keylib (Some (replicate 32 5, replicate 64 5)) dir demo_fs = (Inr i, fs')"
  by (simp add: identity_Load_def id_generate_def ReadFile_def WriteFile_def demo_fs_def Let_def
    fromKeyPair_signed_def demo_keylib_def)

lemma demo_NewServer_total: "\<exists>s. NewServer demo_parse kf hub = Some (Inr (s :: unit Server))"
proof -
  have "length r < length d" if "demo_parse d = Some (k, r)" for d k r
    using that by (auto simp: demo_parse_def split: list.splits)
  then have "\<exists>ks. loadAuthorizedKeys demo_parse kf = Some ks"
    using keys_loop_total [of demo_parse] unfolding loadAuthorizedKeys_def by (cases kf) (simp, simp, metis)
  then show ?thesis by (auto simp: NewServer_def demo_reg_builtins)
qed

lemma demo_boots: "\<exists>sys fs'. demo_boot = (Some (Inr sys), fs')"
proof -
  obtain cfg l where c: "main_configure (demo_toml ''[::1]:80'') demo_environ demo_flags demo_log = Inr (cfg, l)"
    using demo_starts(1) by (cases "demo_started ''[::1]:80''") simp
  obtain i fs1 where i: "identity_Load demo_crypto demo_keylib (Some (replicate 32 5, replicate 64 5))
      (nc_DataDir (cf_Node cfg)) demo_fs = (Inr i, fs1)" using demo_identity by blast
  have t: "\<exists>mgr hub. start_transport demo_crypto cd ks cfg i st h = Inr (mgr :: nat Node option, hub)" for cd ks st h
    by (simp add: start_transport_def NewManager_def make_manager_def EdToNoiseKeypair_def EdPublicToX25519_def
      demo_crypto_def Let_def split: option.splits)
  have "\<exists>sys. start_services demo_crypto cd ks demo_parse cfg l i st fs = Some (Inr (sys :: (nat, unit) system))" for cd ks st fs
  proof -
    obtain mgr hub where t': "start_transport demo_crypto cd ks cfg i st (NewHub (nc_Name (cf_Node cfg))) =
      Inr (mgr :: nat Node option, hub)" using t by blast
    show ?thesis
      using demo_NewServer_total [of "case ReadFile (path_Join [nc_DataDir (cf_Node cfg), ''authorized_keys'']) fs of
          Inl _ \<Rightarrow> None | Inr d \<Rightarrow> Some d" hub]
      by (auto simp: start_services_def t')
  qed
  moreover have "\<not> fs_denied demo_fs d" for d by (simp add: demo_fs_def)
  ultimately show ?thesis using c i by (simp add: demo_boot_def main_start_def Let_def)
qed

theorem started_system_ready_witness:
  "\<exists>sys fs'. demo_boot = (Some (Inr sys), fs') \<and> identity_ok demo_crypto (sys_id sys) \<and> Validate (sys_cfg sys) = [] \<and>
     (\<exists>sys2. main_stop sys = Inr sys2)"
proof -
  obtain sys fs' where b: "demo_boot = (Some (Inr sys), fs')" using demo_boots by blast
  have rnd: "\<forall>pub priv. Some (replicate 32 5 :: bytes, replicate 64 5) = Some (pub, priv) \<longrightarrow> pub = drop 32 priv" by simp
  from started_system_ready [OF demo_keylib_ok rnd b [unfolded demo_boot_def]] b show ?thesis by blast
qed

end
