(* ===== verification/Lifecycle.thy ===== *)
theory Lifecycle
  imports Config Node
begin

text \<open>
  The life of the transport and of its connections (\<^verbatim>\<open>internal/transport/manager.go\<close>, \<^verbatim>\<open>peer.go\<close>,
  \<^verbatim>\<open>discovery.go\<close>): what \<^verbatim>\<open>Manager.Start\<close> starts, the iterations of its loops and when they return, the loops
  of a connection from \<^verbatim>\<open>Peer.Run\<close> until both have ended, and what \<^verbatim>\<open>Manager.Stop\<close> does not reach.
\<close>

section \<open>Starting the manager\<close>

datatype goroutine =
    SeenCleanup
  | LimiterCleanup
  | ListenLoop
  | DialLoop string
  | FanoutLoop
  | ExchangeLoop duration
  | DiscoveryLoop duration

text \<open>The goroutines \<^verbatim>\<open>gossip.Start\<close> launches, and those of \<^verbatim>\<open>Start\<close> that do not depend on listening.\<close>

definition engine_goroutines :: "goroutine list" where
  "engine_goroutines = [SeenCleanup, LimiterCleanup]"

definition dial_goroutines :: "Config \<Rightarrow> goroutine list" where
  "dial_goroutines cfg = map DialLoop (nw_Bootstrap (cf_Network cfg)) @
     [FanoutLoop, ExchangeLoop (exchange_interval cfg), DiscoveryLoop (discovery_interval cfg)]"

text \<open>
  \<^verbatim>\<open>Start\<close> up to its wait for the context: whether it goes on, the goroutines launched and the node. \<open>listen\<close>
  is \<^verbatim>\<open>net.Listen\<close>: the address that was bound, or its failure.
\<close>

definition mgr_Start ::
  "(string \<Rightarrow> string option) \<Rightarrow> Config \<Rightarrow> 'c Node \<Rightarrow> bool \<times> goroutine list \<times> 'c Node" where
  "mgr_Start listen cfg n =
     (if nw_Listen (cf_Network cfg) \<noteq> [] then
        (case listen (nw_Listen (cf_Network cfg)) of
           None \<Rightarrow> (False, engine_goroutines, on_eng engine_Stop n)
         | Some addr \<Rightarrow>
             (True, engine_goroutines @ [ListenLoop] @ dial_goroutines cfg, on_mgr (\<lambda>m. m\<lparr>m_listener := Some True, listenAddr := addr\<rparr>) n))
      else (True, engine_goroutines @ dial_goroutines cfg, n))"

text \<open>\<^verbatim>\<open>Addr\<close>: the listener's own address, which \<open>listenAddr\<close> was set to when it was bound.\<close>

definition mgr_Addr :: "'c Manager \<Rightarrow> string" where
  "mgr_Addr m = (case m_listener m of None \<Rightarrow> [] | Some _ \<Rightarrow> listenAddr m)"

section \<open>The loops\<close>

text \<open>An iteration gives the node after it, or \<^const>\<open>None\<close> when the loop returns.\<close>

definition fanoutLoop ::
  "crypto \<Rightarrow> 'r codec \<Rightarrow> runtime \<Rightarrow> string \<Rightarrow> instant \<Rightarrow> wake \<Rightarrow> 'c Node \<Rightarrow> 'c Node option" where
  "fanoutLoop cr cd rt uuid now w n = (if w = WakeWork then Some (fanout_iter cr cd rt uuid now n) else None)"

definition exchangeLoop ::
  "crypto \<Rightarrow> 'r codec \<Rightarrow> (node_id \<Rightarrow> string) \<Rightarrow> (node_id \<Rightarrow> node_id list) \<Rightarrow> instant \<Rightarrow> node_id list \<Rightarrow> wake \<Rightarrow>
     'c Node \<Rightarrow> 'c Node option" where
  "exchangeLoop cr cd uuids orders now ks w n =
     (if w = WakeWork then Some (on_mgr (exchange_tick cr cd uuids orders now ks) n) else None)"

text \<open>An iteration also gives the peers whose dials it launches.\<close>

definition discoveryLoop ::
  "node_id list \<Rightarrow> (nat \<Rightarrow> nat) \<Rightarrow> instant \<Rightarrow> wake \<Rightarrow> 'c Node \<Rightarrow> (PeerRecord list \<times> 'c Node) option" where
  "discoveryLoop ks draws now w n =
     (if w = WakeWork then
        (case tryDiscoveryDials ks draws now (n_mgr n) of (chosen, m) \<Rightarrow> Some (chosen, n\<lparr>n_mgr := m\<rparr>))
      else None)"

text \<open>
  An iteration of \<^verbatim>\<open>listenLoop\<close>: the connections it hands to \<^verbatim>\<open>handleInbound\<close>. \<open>pending\<close> is the connection that
  \<^verbatim>\<open>Accept\<close> would return, \<^const>\<open>None\<close> for an error; on a closed listener it always fails.
\<close>

definition listenLoop :: "bool \<Rightarrow> bytes option \<Rightarrow> 'c Manager \<Rightarrow> bytes list option" where
  "listenLoop ctx pending m =
     (case (if m_listener m = Some True then pending else None) of
        None \<Rightarrow> if ctx \<or> m_done m then None else Some []
      | Some conn \<Rightarrow> Some [conn])"

section \<open>A connection\<close>

text \<open>
  The state of \<^verbatim>\<open>Run\<close>: the peer, which of its two loops still run, and whether the goroutine that sweeps the
  duplicate filter does. The steps are the iterations of the loops, the call of \<^verbatim>\<open>Close\<close> when one of them has
  ended, messages queued by others, and the sweeps, which go on until the peer is closed.
\<close>

record 'c running =
  rn_peer :: "'c Peer"
  rn_send :: bool
  rn_recv :: bool
  rn_sweep :: bool

definition run_start :: "'c Peer \<Rightarrow> 'c running" where
  "run_start p = \<lparr>rn_peer = p, rn_send = True, rn_recv = True, rn_sweep = True\<rparr>"

definition run_returned :: "'c running \<Rightarrow> bool" where
  "run_returned s \<longleftrightarrow> \<not> rn_send s \<and> \<not> rn_recv s \<and> \<not> rn_sweep s \<and> p_done (rn_peer s)"

fun send_ready :: "send_case \<Rightarrow> 'c Peer \<Rightarrow> bool" where
  "send_ready SendData p \<longleftrightarrow> sendCh p \<noteq> []"
| "send_ready KeepaliveTimer p \<longleftrightarrow> True"
| "send_ready SendDone p \<longleftrightarrow> p_done p"

inductive peer_step ::
  "crypto \<Rightarrow> 'r codec \<Rightarrow> ('h, 'c) noise_lib \<Rightarrow> 'c running \<Rightarrow> 'c running \<Rightarrow> bool" for cr cd nl where
  SendIter: "rn_send s \<Longrightarrow> send_ready c (rn_peer s) \<Longrightarrow> send_iter cd nl c (rn_peer s) = Inr (Some p) \<Longrightarrow>
    peer_step cr cd nl s (s\<lparr>rn_peer := p\<rparr>)"
| SendReturns: "rn_send s \<Longrightarrow> send_ready c (rn_peer s) \<Longrightarrow> send_iter cd nl c (rn_peer s) \<in> {Inr None} \<union> range Inl \<Longrightarrow>
    peer_step cr cd nl s (s\<lparr>rn_send := False\<rparr>)"
| RecvIter: "rn_recv s \<Longrightarrow> recv_iter cr cd nl now (rn_peer s) = (LoopContinues, act, p) \<Longrightarrow>
    peer_step cr cd nl s (s\<lparr>rn_peer := p\<rparr>)"
| RecvReturns: "rn_recv s \<Longrightarrow> recv_iter cr cd nl now (rn_peer s) = (res, act, p) \<Longrightarrow> res \<noteq> LoopContinues \<Longrightarrow>
    peer_step cr cd nl s (s\<lparr>rn_recv := False\<rparr>)"
| RunClose: "\<not> (rn_send s \<and> rn_recv s) \<Longrightarrow> \<not> p_done (rn_peer s) \<Longrightarrow>
    peer_step cr cd nl s (s\<lparr>rn_peer := peer_Close (rn_peer s)\<rparr>)"
| Queued: "SendRaw raw (rn_peer s) = (True, p) \<Longrightarrow> peer_step cr cd nl s (s\<lparr>rn_peer := p\<rparr>)"
| Swept: "rn_sweep s \<Longrightarrow> \<not> p_done (rn_peer s) \<Longrightarrow> peer_step cr cd nl s (s\<lparr>rn_peer := cleanupSeen now (rn_peer s)\<rparr>)"
| SweepReturns: "rn_sweep s \<Longrightarrow> p_done (rn_peer s) \<Longrightarrow> peer_step cr cd nl s (s\<lparr>rn_sweep := False\<rparr>)"

section \<open>Starting and stopping\<close>

text \<open>What \<^verbatim>\<open>Start\<close> does to the node is a step of it.\<close>

lemma mgr_Start_own:
  assumes "mgr_Start listen cfg n = (ok, gs, n')"
  shows "n' = n \<or> node_own cr cd nl n n'"
  using assms by (auto simp: mgr_Start_def intro: node_own.ListenFails node_own.Listen split: if_splits option.splits)

lemma intervals_pos: "0 < exchange_interval cfg" "0 < discovery_interval cfg"
  by (auto simp: exchange_interval_def discovery_interval_def Second_def not_le)

text \<open>
  C21. Starting and stopping the transport. If the listen address cannot be bound, \<^verbatim>\<open>Start\<close> fails, has
  launched nothing but the engine's clean-up loops and stops the engine, which ends them; the manager is
  unchanged. Otherwise it goes on with its loops: the listener exactly if an address is configured, one
  dialer for each bootstrap peer, and the fan-out, exchange and discovery loops with periods that are
  positive whatever the configuration says; the node keeps its invariant and \<^verbatim>\<open>Addr\<close> is the bound address.
  After \<^verbatim>\<open>Stop\<close> the engine is stopped, every connected peer is closed, each loop can take the case in which it
  returns, the listener is closed and its loop returns whatever is waiting there, and another \<^verbatim>\<open>Stop\<close> changes
  nothing.
\<close>

theorem manager_starts_and_stops:
  fixes cd :: "PeerRecord codec" and n :: "'c Node"
  assumes "node_inv cr cd n" and "mgr_Start listen cfg n = (ok, gs, n')" and "\<not> m_done (n_mgr n)"
  shows "(\<not> ok \<longleftrightarrow> nw_Listen (cf_Network cfg) \<noteq> [] \<and> listen (nw_Listen (cf_Network cfg)) = None) \<and>
    (\<not> ok \<longrightarrow> gs = [SeenCleanup, LimiterCleanup] \<and> eng_done (n_eng n') \<and> n_mgr n' = n_mgr n) \<and>
    (ok \<longrightarrow> mset gs = mset ([SeenCleanup, LimiterCleanup, FanoutLoop, ExchangeLoop (exchange_interval cfg),
         DiscoveryLoop (discovery_interval cfg)] @ (if nw_Listen (cf_Network cfg) \<noteq> [] then [ListenLoop] else []) @
         map DialLoop (nw_Bootstrap (cf_Network cfg))) \<and>
       0 < exchange_interval cfg \<and> 0 < discovery_interval cfg \<and> n_eng n' = n_eng n) \<and>
    (ok \<and> nw_Listen (cf_Network cfg) \<noteq> [] \<longrightarrow> listen (nw_Listen (cf_Network cfg)) = Some (mgr_Addr (n_mgr n'))) \<and>
    node_inv cr cd n' \<and>
    eng_done (n_eng (mgr_Stop n')) \<and>
    (\<forall>k p. fmlookup (m_peers (n_mgr (mgr_Stop n'))) k = Some p \<longrightarrow> p_done p) \<and>
    wake_ready ctx (n_mgr (mgr_Stop n')) WakeDone \<and> fanoutLoop cr cd rt u now WakeDone (mgr_Stop n') = None \<and>
    exchangeLoop cr cd us os now ks WakeDone (mgr_Stop n') = None \<and> discoveryLoop ks draws now WakeDone (mgr_Stop n') = None \<and>
    dialWithBackoff (\<lparr>dr_first = WakeDone, dr_dialed = d, dr_wait = w\<rparr> # rounds) = ([], True) \<and>
    listenLoop ctx pending (n_mgr (mgr_Stop n')) = None \<and> mgr_Stop (mgr_Stop n') = mgr_Stop n'"
proof -
  fix nl :: "('h, 'c) noise_lib"
  have inv: "node_inv cr cd n'"
    using mgr_Start_own [OF assms(2), of cr cd nl] node_own_inv [of cr cd nl n n'] assms(1) by blast
  have m: "m_done (n_mgr n') = m_done (n_mgr n)" "m_peers (n_mgr n') = m_peers (n_mgr n)"
    using assms(2) by (auto simp: mgr_Start_def split: if_splits option.splits)
  have stop: "m_done (n_mgr (mgr_Stop n'))" "eng_done (n_eng (mgr_Stop n'))" "m_listener (n_mgr (mgr_Stop n')) \<noteq> Some True"
    using m assms(3) by (simp_all add: mgr_Stop_def engine_Stop_def)
  have closed: "p_done p" if "fmlookup (m_peers (n_mgr (mgr_Stop n'))) k = Some p" for k p
    using that m assms(3) by (auto simp: mgr_Stop_def peer_Close_def)
  have started: "(\<not> ok \<longleftrightarrow> nw_Listen (cf_Network cfg) \<noteq> [] \<and> listen (nw_Listen (cf_Network cfg)) = None)"
    "(\<not> ok \<longrightarrow> gs = [SeenCleanup, LimiterCleanup] \<and> eng_done (n_eng n') \<and> n_mgr n' = n_mgr n)"
    "(ok \<longrightarrow> mset gs = mset ([SeenCleanup, LimiterCleanup, FanoutLoop, ExchangeLoop (exchange_interval cfg),
         DiscoveryLoop (discovery_interval cfg)] @ (if nw_Listen (cf_Network cfg) \<noteq> [] then [ListenLoop] else []) @
         map DialLoop (nw_Bootstrap (cf_Network cfg))) \<and> n_eng n' = n_eng n)"
    "(ok \<and> nw_Listen (cf_Network cfg) \<noteq> [] \<longrightarrow> listen (nw_Listen (cf_Network cfg)) = Some (mgr_Addr (n_mgr n')))"
    using assms(2) by (auto simp: mgr_Start_def mgr_Addr_def engine_goroutines_def dial_goroutines_def engine_Stop_def
        split: if_splits option.splits)
  show ?thesis
    using started intervals_pos inv stop closed
    by (simp add: fanoutLoop_def exchangeLoop_def discoveryLoop_def listenLoop_def dialWithBackoff_def) (simp add: mgr_Stop_def)
qed

section \<open>A connection ends\<close>

definition run_closed :: "'c running \<Rightarrow> bool" where
  "run_closed s \<longleftrightarrow> p_done (rn_peer s) \<and> \<not> nc_open (p_conn (rn_peer s))"

lemma closed_write: "\<not> nc_open (p_conn p) \<Longrightarrow> \<exists>e. sendWithDeadline nl data p = Inl e"
  by (auto simp: sendWithDeadline_def WriteFrame_def noise_Write_def conn_Write_def split: option.splits)

text \<open>On a closed connection every case the send loop can pick makes it return.\<close>

lemma closed_send:
  assumes "p_done p" and "\<not> nc_open (p_conn p)" and "send_ready c p"
  shows "send_iter cd nl c p \<in> {Inr None} \<union> range Inl"
proof (cases c)
  case SendData
  then obtain d rest where q: "sendCh p = d # rest" using assms(3) by (cases "sendCh p") auto
  obtain e where "sendWithDeadline nl d (p\<lparr>sendCh := rest\<rparr>) = Inl e"
    using closed_write [of "p\<lparr>sendCh := rest\<rparr>"] assms(2) by auto
  then show ?thesis using SendData q by (simp add: send_iter_def)
next
  case KeepaliveTimer
  have "map_sum id Some (sendWithDeadline nl d p) \<in> range Inl" for d
    using closed_write [OF assms(2), of nl d] by auto
  with KeepaliveTimer show ?thesis by (auto simp: send_iter_def writeKeepalive_def split: option.splits)
qed (use assms in \<open>simp add: send_iter_def\<close>)

definition run_rel :: "('h, 'c) noise_lib \<Rightarrow> ('c running \<times> 'c running) set" where
  "run_rel nl = measures [\<lambda>s. of_bool (rn_send s) + of_bool (rn_recv s) + of_bool (rn_sweep s), \<lambda>s. length (noise_pending nl (p_conn (rn_peer s))),
     \<lambda>s. sendChCap - length (sendCh (rn_peer s))]"

lemma dispatch_done: "p_done (snd (dispatch cr cd now data p)) = p_done p"
  by (auto simp: dispatch_def isDuplicate_def split: option.splits)

lemma recv_closed:
  assumes "recv_iter cr cd nl now p = (LoopContinues, act, p1)"
  shows "p_done p1 = p_done p" "nc_open (p_conn p1) = nc_open (p_conn p)"
proof -
  obtain data nc where r: "ReadFrame (noise_ReadFull nl) (p_conn p) = Inr (data, nc)"
    and p1: "p1 = snd (dispatch cr cd now data (p\<lparr>p_conn := nc\<rparr>))"
    using assms by (auto simp: recv_iter_def split_beta split: sum.splits if_splits)
  show "p_done p1 = p_done p" unfolding p1 dispatch_done by simp
  have "p_conn p1 = nc" unfolding p1 dispatch_frame by simp
  then show "nc_open (p_conn p1) = nc_open (p_conn p)"
    using r by (auto simp: ReadFrame_def noise_ReadFull_def Let_def dest!: noise_ReadLoop_frame
        split: sum.splits prod.splits if_splits)
qed

lemma SendRaw_True:
  "SendRaw raw p = (True, p1) \<Longrightarrow> length (sendCh p) < sendChCap \<and> p1 = p\<lparr>sendCh := sendCh p @ [raw]\<rparr>"
  by (auto simp: SendRaw_def split: if_splits)

lemma peer_step_closed:
  assumes "peer_step cr cd nl s s'" and "run_closed s"
  shows "run_closed s' \<and> (s', s) \<in> run_rel nl"
  using assms
proof cases
  case (SendIter c p)
  then show ?thesis using closed_send [of "rn_peer s" c cd nl] assms(2) by (auto simp: run_closed_def)
next
  case (RecvIter now act p)
  then show ?thesis
    using recv_closed [OF RecvIter(3)] recv_iter_consumes [OF RecvIter(3)] assms(2) by (simp add: run_closed_def run_rel_def)
next
  case (Queued raw p)
  note q = SendRaw_True [OF Queued(2)]
  have "sendChCap - length (sendCh p) < sendChCap - length (sendCh (rn_peer s))"
    using conjunct1 [OF q] conjunct2 [OF q] by (simp add: diff_less_mono2)
  then show ?thesis using Queued(1) q assms(2) by (simp add: run_closed_def run_rel_def)
qed (use assms(2) in \<open>auto simp: run_closed_def run_rel_def\<close>)

lemma wf_peer_step: "wf {(s', s). run_closed s \<and> peer_step cr cd nl s s'}"
  by (rule wf_subset [of "run_rel nl"]) (auto simp: run_rel_def dest: peer_step_closed [unfolded run_rel_def])

lemma run_progress:
  assumes "\<not> run_returned s"
  shows "\<exists>s'. peer_step cr cd nl s s'"
proof (cases "rn_recv s")
  case True
  obtain res act p where r: "recv_iter cr cd nl 0 (rn_peer s) = (res, act, p)" by (metis prod_cases3)
  then show ?thesis using RecvIter [OF True] RecvReturns [OF True r] by (cases "res = LoopContinues") blast+
next
  case recv: False
  show ?thesis
  proof (cases "p_done (rn_peer s)")
    case True
    then consider "rn_send s" | "rn_sweep s" using recv assms by (auto simp: run_returned_def)
    then show ?thesis
    proof cases
      case 1
      then show ?thesis using SendReturns [of s SendDone cd nl] True by (auto simp: send_iter_def)
    qed (use True in \<open>auto intro: SweepReturns\<close>)
  qed (use recv in \<open>auto intro: RunClose\<close>)
qed

text \<open>
  C20. \<^verbatim>\<open>Peer.Run\<close> returns. As soon as one of its loops has ended the connection can be closed; once it is
  closed, whatever is still buffered or queued and in whatever order the goroutines go on, no sequence of
  their steps is infinite, the connection stays closed, and as long as one of them is left it can go on: so
  they end with both loops and the sweeping goroutine ended, and \<^verbatim>\<open>Run\<close> returns.
\<close>

theorem peer_run_ends:
  "(\<not> (rn_send s \<and> rn_recv s) \<and> \<not> p_done (rn_peer s) \<longrightarrow>
      peer_step cr cd nl s (s\<lparr>rn_peer := peer_Close (rn_peer s)\<rparr>) \<and> run_closed (s\<lparr>rn_peer := peer_Close (rn_peer s)\<rparr>)) \<and>
   (run_closed s \<longrightarrow> \<not> (\<exists>f. f 0 = s \<and> (\<forall>i. peer_step cr cd nl (f i) (f (Suc i))))) \<and>
   (run_closed s \<and> peer_step cr cd nl s s' \<longrightarrow> run_closed s') \<and>
   (\<not> (\<exists>t. peer_step cr cd nl s t) \<longrightarrow> run_returned s)"
proof -
  have inf: "\<not> (\<exists>f. f 0 = s \<and> (\<forall>i. peer_step cr cd nl (f i) (f (Suc i))))" if c: "run_closed s"
  proof
    assume "\<exists>f. f 0 = s \<and> (\<forall>i. peer_step cr cd nl (f i) (f (Suc i)))"
    then obtain f where f: "f 0 = s" "\<And>i. peer_step cr cd nl (f i) (f (Suc i))" by blast
    have "run_closed (f i)" for i
    proof (induction i)
      case (Suc i)
      from peer_step_closed [OF f(2) Suc] show ?case by simp
    qed (simp add: f(1) c)
    then have "\<forall>i. (f (Suc i), f i) \<in> {(s', s). run_closed s \<and> peer_step cr cd nl s s'}" using f(2) by simp
    then show False using wf_peer_step [of cr cd nl] unfolding wf_iff_no_infinite_down_chain by blast
  qed
  have "run_closed (s\<lparr>rn_peer := peer_Close (rn_peer s)\<rparr>)" if "\<not> p_done (rn_peer s)"
    using that by (simp add: run_closed_def peer_Close_def noise_Close_def)
  then show ?thesis using inf peer_step_closed [of cr cd nl s s'] run_progress [of s cr cd nl] RunClose [of s cr cd nl] by blast
qed

section \<open>A connection that is made while the manager stops\<close>

lemma ReadFrame_open:
  "ReadFrame (noise_ReadFull nl) nc = Inr (data, nc') \<Longrightarrow> nc_open nc' = nc_open nc"
  by (auto simp: ReadFrame_def noise_ReadFull_def Let_def dest!: noise_ReadLoop_frame split: sum.splits prod.splits if_splits)

lemma WriteFrame_open:
  "WriteFrame (noise_Write nl) data nc = Inr nc' \<Longrightarrow> nc_open nc' = nc_open nc"
  by (auto simp: WriteFrame_def noise_Write_def conn_Write_def split: sum.splits option.splits if_splits)

lemma hello_parts_open:
  "sendHello cr cd nl uh h ty p = Inr q \<Longrightarrow> p_done q = p_done p \<and> nc_open (p_conn q) = nc_open (p_conn p)"
  "recvHello cr cd nl ty p = Inr (h, q) \<Longrightarrow> p_done q = p_done p \<and> nc_open (p_conn q) = nc_open (p_conn p)"
  "verifyPeerIdentity cr h p = Inr q \<Longrightarrow> p_done q = p_done p \<and> nc_open (p_conn q) = nc_open (p_conn p)"
  by (auto simp: sendHello_def recvHello_def verifyPeerIdentity_def Let_def dest!: WriteFrame_open ReadFrame_open
    split: sum.splits option.splits prod.splits if_splits)

lemma ExchangeHello_open:
  "ExchangeHello cr cd nl uh cfg p = Inr q \<Longrightarrow> p_done q = p_done p \<and> nc_open (p_conn q) = nc_open (p_conn p)"
  by (auto simp: ExchangeHello_def dest!: hello_parts_open split: sum.splits prod.splits if_splits)

lemma Handshake_open: "Handshake nl init key s = Inr (nc, px) \<Longrightarrow> nc_open nc"
  by (auto simp: Handshake_def new_noiseConn_def split: option.splits sum.splits prod.splits if_splits)

lemma peer_send_done: "m_done (snd (peer_send k raw m)) = m_done m"
  by (simp add: peer_send_def split_beta split: option.splits)

text \<open>A new connection is open, and only a peer that was not connected is admitted.\<close>

lemma inbound_parts:
  assumes "handleInbound cr cd nl uh ux ks now s n = (Connected k, n1)"
  shows "\<exists>nc px p. Handshake nl False (m_noiseKey (n_mgr n)) s = Inr (nc, px) \<and>
    ExchangeHello cr cd nl uh (helloConfig (n_mgr n)) (fresh_peer nc px False (n_mgr n)) = Inr p \<and>
    p_NodeID p = k \<and> \<not> p_done p \<and> nc_open (p_conn p) \<and> fmlookup (m_peers (n_mgr n)) k = None \<and>
    \<not> (cfg_MaxPeers (m_cfg (n_mgr n)) > 0 \<and> int (map_len (m_peers (n_mgr n))) \<ge> cfg_MaxPeers (m_cfg (n_mgr n)))"
proof -
  obtain nc px p where p: "Handshake nl False (m_noiseKey (n_mgr n)) s = Inr (nc, px)"
    "ExchangeHello cr cd nl uh (helloConfig (n_mgr n)) (fresh_peer nc px False (n_mgr n)) = Inr p"
    "fst (addPeer p (n_mgr n)) = ''''" "p_NodeID p = k"
    using assms by (auto simp: handleInbound_def connect_peer_def Let_def split: if_splits sum.splits prod.splits)
  have "\<not> p_done (fresh_peer nc px False (n_mgr n))" by (simp add: applyPeerTimeouts_def newPeer_def Let_def)
  then have "\<not> p_done p \<and> nc_open (p_conn p)" using ExchangeHello_open [OF p(2)] Handshake_open [OF p(1)] by simp
  then show ?thesis using p by (auto simp: addPeer_def split: if_splits)
qed

text \<open>
  C22. \<^verbatim>\<open>Stop\<close> misses a connection that is being made. It closes all peers in the map; but a connection
  that was accepted before and would have been admitted is admitted as well when its handshake completes after
  \<^verbatim>\<open>Stop\<close>: its peer is in the map, its connection is open, and since another \<^verbatim>\<open>Stop\<close> changes nothing the
  manager never closes it.
\<close>

theorem stop_misses_late_connection:
  assumes "\<not> m_done (n_mgr n)" and "handleInbound cr cd nl uh ux ks now s n = (Connected k, n1)"
  shows "(\<forall>j q. fmlookup (m_peers (n_mgr (mgr_Stop n))) j = Some q \<longrightarrow> p_done q) \<and>
    (\<exists>n'. handleInbound cr cd nl uh ux ks now s (mgr_Stop n) = (Connected k, n') \<and>
      (\<exists>q. fmlookup (m_peers (n_mgr n')) k = Some q \<and> \<not> p_done q \<and> nc_open (p_conn q)) \<and> mgr_Stop n' = n')"
proof -
  let ?n = "mgr_Stop n"
  let ?m = "n_mgr ?n"
  obtain nc px p where p: "Handshake nl False (m_noiseKey (n_mgr n)) s = Inr (nc, px)"
    "ExchangeHello cr cd nl uh (helloConfig (n_mgr n)) (fresh_peer nc px False (n_mgr n)) = Inr p"
    "p_NodeID p = k" "\<not> p_done p" "nc_open (p_conn p)" "fmlookup (m_peers (n_mgr n)) k = None"
    "\<not> (cfg_MaxPeers (m_cfg (n_mgr n)) > 0 \<and> int (map_len (m_peers (n_mgr n))) \<ge> cfg_MaxPeers (m_cfg (n_mgr n)))"
    using inbound_parts [OF assms(2)] by blast
  have n: "?n = n\<lparr>n_mgr := (n_mgr n)\<lparr>m_done := True, m_listener := map_option (\<lambda>_. False) (m_listener (n_mgr n)),
      m_peers := fmmap peer_Close (m_peers (n_mgr n))\<rparr>, n_eng := engine_Stop (n_eng n)\<rparr>"
    using assms(1) by (simp add: mgr_Stop_def)
  have m: "m_done ?m" "m_noiseKey ?m = m_noiseKey (n_mgr n)" "m_cfg ?m = m_cfg (n_mgr n)"
    "map_len (m_peers ?m) = map_len (m_peers (n_mgr n))" "fmlookup (m_peers ?m) k = None"
    unfolding n using p(6) by simp_all
  have "advertiseAddr ?m = advertiseAddr (n_mgr n)"
    unfolding n advertiseAddr_def by (auto split: option.splits)
  then have hello: "helloConfig ?m = helloConfig (n_mgr n)" by (simp add: helloConfig_def m(3))
  have fresh: "fresh_peer nc px False ?m = fresh_peer nc px False (n_mgr n)"
    unfolding n by (simp add: applyPeerTimeouts_def Let_def)
  have closed: "p_done q" if "fmlookup (m_peers ?m) j = Some q" for j q
    using that unfolding n by (auto simp: peer_Close_def)
  let ?p = "p\<lparr>has_onPeerExchange := True, has_onGossipMessage := True\<rparr>"
  let ?m1 = "?m\<lparr>m_peers := fmupd k ?p (m_peers ?m)\<rparr>"
  let ?n' = "onPeerConnected cr cd ux ks now p (?n\<lparr>n_mgr := ?m1\<rparr>)"
  have "addPeer p ?m = ('''', ?m1)" using p(3,7) m by (simp add: addPeer_def)
  then have c: "handleInbound cr cd nl uh ux ks now s ?n = (Connected k, ?n')"
    using p(1-3,7) m hello fresh by (simp add: handleInbound_def connect_peer_def Let_def)
  obtain m2 where m2: "n_mgr ?n' = sendPeerExchangeTo cr cd ux ks now k m2" "m_peers m2 = m_peers ?m1" "m_done m2"
    using m(1) p(3) by (auto simp: onPeerConnected_def Let_def)
  have done': "m_done (n_mgr ?n')"
    unfolding m2(1) using m2(3) by (simp add: sendPeerExchangeTo_def Let_def peer_send_done split: option.splits)
  obtain f where "fmlookup (m_peers (n_mgr ?n')) k = map_option (\<lambda>p. p\<lparr>sendCh := f p\<rparr>) (fmlookup (m_peers m2) k)"
    unfolding m2(1) using sendPeerExchangeTo_peers(1) by blast
  then have "\<exists>q. fmlookup (m_peers (n_mgr ?n')) k = Some q \<and> \<not> p_done q \<and> nc_open (p_conn q)"
    unfolding m2(2) using p(4,5) by simp
  moreover have "mgr_Stop ?n' = ?n'" using done' by (simp add: mgr_Stop_def [of ?n'])
  ultimately show ?thesis using c closed by blast
qed

section \<open>Examples\<close>

lemma demo_inbound:
  "\<exists>s n1. handleInbound demo_crypto demo_link_codec demo_net ''u2'' ''x2'' [] 0 s (demo_node 2 []) = (Connected (NodeID (demo_id 1)), n1)"
proof -
  have "\<exists>sa sb nca pxa ncb pxb pa pb.
    Handshake demo_net True (m_noiseKey (n_mgr (demo_node 1 []))) sb = Inr (nca, pxa) \<and>
    ExchangeHello demo_crypto demo_link_codec demo_net ''u1'' (helloConfig (n_mgr (demo_node 1 []))) (fresh_peer nca pxa True (n_mgr (demo_node 1 []))) = Inr pa \<and>
    Handshake demo_net False (m_noiseKey (n_mgr (demo_node 2 []))) sa = Inr (ncb, pxb) \<and>
    ExchangeHello demo_crypto demo_link_codec demo_net ''u2'' (helloConfig (n_mgr (demo_node 2 []))) (fresh_peer ncb pxb False (n_mgr (demo_node 2 []))) = Inr pb \<and>
    nc_out (p_conn pa) = sa \<and> nc_out (p_conn pb) = sb \<and>
    p_NodeID pa = NodeID (m_id (n_mgr (demo_node 2 []))) \<and> edPubKey pa = PublicKey (m_id (n_mgr (demo_node 2 []))) \<and>
    p_NodeID pb = NodeID (m_id (n_mgr (demo_node 1 []))) \<and> edPubKey pb = PublicKey (m_id (n_mgr (demo_node 1 [])))"
    by (rule honest_exchange [where R = "(=)" and ?i0.0 = 0 and ?i1.0 = 1 and ?i2.0 = 2 and ?i3.0 = 3
          and ?r0.0 = 10 and ?r1.0 = 11 and ?r2.0 = 12 and ?r3.0 = 13 and ?m1.0 = "[0]" and ?m2.0 = "[11]" and ?m3.0 = "[2]"
          and ?ci1.0 = 10 and ?ci2.0 = 20 and ?cr1.0 = 10 and ?cr2.0 = 20 and ba = "[3]" and bb = "[4]"])
      (simp_all add: demo_mgr_sel demo_link_ok demo_id_ok demo_node_hellos MaxPayload_def,
       simp_all add: demo_net_def demo_noise_def paired_states_def EdPublicToX25519_def demo_crypto_def demo_id_def
         fromKeyPair_def)
  then obtain s nc px p where p: "Handshake demo_net False (m_noiseKey (n_mgr (demo_node 2 []))) s = Inr (nc, px)"
    "ExchangeHello demo_crypto demo_link_codec demo_net ''u2'' (helloConfig (n_mgr (demo_node 2 []))) (fresh_peer nc px False (n_mgr (demo_node 2 []))) = Inr p"
    "p_NodeID p = NodeID (demo_id 1)" "edPubKey p = PublicKey (demo_id 1)"
    by (auto simp: demo_mgr_sel)
  have "\<exists>n1. connect_peer demo_crypto demo_link_codec demo_net ''u2'' ''x2'' [] 0 False s (demo_node 2 []) =
      (Connected (NodeID (demo_id 1)), n1) \<and> linked demo_crypto (demo_id 1) (nc_out (p_conn p)) n1"
    by (rule connected_linked [OF p]) (simp_all add: demo_mgr_sel PeerCount_def fcard.rep_eq)
  then show ?thesis by (auto simp: handleInbound_def demo_mgr_sel fcard.rep_eq)
qed

theorem stop_misses_late_connection_witness:
  "\<exists>s n' q. handleInbound demo_crypto demo_link_codec demo_net ''u2'' ''x2'' [] 0 s (mgr_Stop (demo_node 2 [])) =
      (Connected (NodeID (demo_id 1)), n') \<and>
    fmlookup (m_peers (n_mgr n')) (NodeID (demo_id 1)) = Some q \<and> \<not> p_done q"
proof -
  obtain s n1 where "handleInbound demo_crypto demo_link_codec demo_net ''u2'' ''x2'' [] 0 s (demo_node 2 []) =
      (Connected (NodeID (demo_id 1)), n1)" using demo_inbound by blast
  moreover have "\<not> m_done (n_mgr (demo_node 2 []))" by (simp add: demo_node_def demo_mgr_def)
  ultimately show ?thesis using stop_misses_late_connection by blast
qed

definition demo_listen_cfg :: Config where
  "demo_listen_cfg = (Defaults demo_environ)\<lparr>cf_Network :=
     (cf_Network (Defaults demo_environ))\<lparr>nw_Listen := ''[::1]:4000'', nw_Bootstrap := [''b:2'']\<rparr>\<rparr>"

theorem manager_starts_and_stops_witness:
  "\<exists>n0 :: nat Node. NewManager demo_crypto demo_link_codec [] demo_net_cfg (demo_id 1) (NewHub ''n'') None = Some n0 \<and>
     \<not> fst (mgr_Start (\<lambda>_. None) demo_listen_cfg n0) \<and> fst (mgr_Start Some demo_listen_cfg n0) \<and>
     mgr_Addr (n_mgr (snd (snd (mgr_Start Some demo_listen_cfg n0)))) = ''[::1]:4000''"
proof -
  obtain n0 :: "nat Node" where n0:
    "NewManager demo_crypto demo_link_codec [] demo_net_cfg (demo_id 1) (NewHub ''n'') None = Some n0"
    by (simp add: NewManager_def make_manager_def EdToNoiseKeypair_def EdPublicToX25519_def demo_crypto_def Let_def)
  have inv: "node_inv demo_crypto demo_link_codec n0" by (rule NewManager_inv [OF n0 demo_id_ok hub_inv_New(2)])
  have run: "\<not> m_done (n_mgr n0)"
    using n0 by (auto simp: NewManager_def make_manager_def loadKnownPeers_def Let_def split: option.splits)
  have l: "nw_Listen (cf_Network demo_listen_cfg) = ''[::1]:4000''" by (simp add: demo_listen_cfg_def)
  have eq: "mgr_Start f demo_listen_cfg n0 = (fst (mgr_Start f demo_listen_cfg n0), fst (snd (mgr_Start f demo_listen_cfg n0)),
      snd (snd (mgr_Start f demo_listen_cfg n0)))" for f by simp
  note T = manager_starts_and_stops [OF inv eq run]
  have fails: "\<not> fst (mgr_Start (\<lambda>_. None) demo_listen_cfg n0)"
    using T [of "\<lambda>_. None", THEN conjunct1] l by simp
  have works: "fst (mgr_Start Some demo_listen_cfg n0)" using T [of Some, THEN conjunct1] by simp
  have "Some (nw_Listen (cf_Network demo_listen_cfg)) = Some (mgr_Addr (n_mgr (snd (snd (mgr_Start Some demo_listen_cfg n0)))))"
    using T [of Some, THEN conjunct2, THEN conjunct2, THEN conjunct2, THEN conjunct1] works l by simp
  then show ?thesis using n0 fails works l by (intro exI [of _ n0]) simp
qed

definition demo_run :: "nat running" where
  "demo_run = (run_start (newPeer (new_noiseConn 10 20 [] [] []) [] (demo_id 1) True))\<lparr>rn_recv := False\<rparr>"

theorem peer_run_ends_witness:
  "run_closed (demo_run\<lparr>rn_peer := peer_Close (rn_peer demo_run)\<rparr>) \<and>
   \<not> (\<exists>f. f 0 = demo_run\<lparr>rn_peer := peer_Close (rn_peer demo_run)\<rparr> \<and>
     (\<forall>i. peer_step demo_crypto demo_link_codec demo_net (f i) (f (Suc i))))"
proof -
  have "\<not> (rn_send demo_run \<and> rn_recv demo_run) \<and> \<not> p_done (rn_peer demo_run)"
    by (simp add: demo_run_def run_start_def newPeer_def)
  with peer_run_ends [of demo_run demo_crypto demo_link_codec demo_net demo_run, THEN conjunct1]
  have "run_closed (demo_run\<lparr>rn_peer := peer_Close (rn_peer demo_run)\<rparr>)" by simp
  then show ?thesis
    using peer_run_ends [of "demo_run\<lparr>rn_peer := peer_Close (rn_peer demo_run)\<rparr>" demo_crypto demo_link_codec demo_net demo_run,
        THEN conjunct2, THEN conjunct1] by blast
qed

end
