(* ===== verification/Composition.thy ===== *)
theory Composition
  imports Startup Lifecycle
begin

text \<open>
  The running program: the transport's node and the SSH server at work on the hub they share, from the
  state \<^verbatim>\<open>main\<close> leaves to the shutdown.

  A step of either part changes the hub for both. The goroutine \<^verbatim>\<open>hub.Run\<close> takes messages from the
  hub's queue and ends when it is stopped; the calls that wait for its answer are steps of the caller.
\<close>

section \<open>What a node does to the hub\<close>

lemma send_each_frame:
  assumes "\<And>p. p \<in> set ps \<Longrightarrow> ph_Send p = peer_send (ph_NodeID p)"
  shows "m_hub (snd (send_each raw ps m)) = m_hub m" "m_cfg (snd (send_each raw ps m)) = m_cfg m"
    "m_id (snd (send_each raw ps m)) = m_id m"
proof -
  have "m_hub (snd (send_each raw ps m)) = m_hub m \<and> m_cfg (snd (send_each raw ps m)) = m_cfg m \<and>
      m_id (snd (send_each raw ps m)) = m_id m"
    using assms
  proof (induction ps arbitrary: m)
    case (Cons p ps)
    have "m_hub (snd (ph_Send p raw m)) = m_hub m" "m_cfg (snd (ph_Send p raw m)) = m_cfg m"
      "m_id (snd (ph_Send p raw m)) = m_id m"
      using Cons.prems by (simp_all add: peer_send_def split_beta split: option.splits)
    then show ?case using Cons.IH [of "snd (ph_Send p raw m)"] Cons.prems by (simp add: split_beta Let_def)
  qed simp
  then show "m_hub (snd (send_each raw ps m)) = m_hub m" "m_cfg (snd (send_each raw ps m)) = m_cfg m"
    "m_id (snd (send_each raw ps m)) = m_id m" by simp_all
qed

text \<open>The relation between the manager before and after a step: its settings are the same, and so is its hub.\<close>

definition keeps :: "'c Manager \<Rightarrow> 'c Manager \<Rightarrow> bool" where
  "keeps m m' \<longleftrightarrow> m_cfg m' = m_cfg m \<and> m_id m' = m_id m \<and> m_hub m' = m_hub m"

lemma keeps_refl [simp]: "keeps m m"
  by (simp add: keeps_def)

lemma keeps_trans: "keeps a b \<Longrightarrow> keeps b c \<Longrightarrow> keeps a c"
  by (simp add: keeps_def)

lemma keeps_send: "keeps m (snd (peer_send k raw m))"
  by (simp add: keeps_def peer_send_def split_beta split: option.splits)

lemma keeps_send_each:
  "(\<And>p. p \<in> set ps \<Longrightarrow> ph_Send p = peer_send (ph_NodeID p)) \<Longrightarrow> keeps m (snd (send_each raw ps m))"
  by (simp add: keeps_def send_each_frame)

lemma keeps_relay:
  assumes "getPeers e = peerHandles"
  shows "keeps m (snd (relay cd rt frm env e m))"
proof -
  have "keeps m (snd (send_each raw (forward_set rt x e m) m))" for raw x
    using forward_set_facts(2) [of rt x e m] assms peerHandles_send by (intro keeps_send_each) auto
  then show ?thesis by (simp add: relay_def forwardTo_eq Let_def split_beta split: option.splits)
qed

lemma relay_hub: "getPeers e = peerHandles \<Longrightarrow> m_hub (snd (relay cd rt frm env e m)) = m_hub m"
  using keeps_relay [of e m cd rt frm env] by (simp add: keeps_def)

lemma keeps_exchange: "keeps m (sendPeerExchangeTo cr cd uuid ks now k m)"
  by (simp add: sendPeerExchangeTo_def Let_def keeps_send split: option.splits)

lemmas exchange_frame = keeps_exchange [unfolded keeps_def, THEN conjunct1]
  keeps_exchange [unfolded keeps_def, THEN conjunct2, THEN conjunct1]
  keeps_exchange [unfolded keeps_def, THEN conjunct2, THEN conjunct2]

lemma keeps_exchange_tick: "keeps m (exchange_tick cr cd uuids orders now ks m)"
proof -
  have "keeps m (fold (\<lambda>p. sendPeerExchangeTo cr cd (uuids (p_NodeID p)) (orders (p_NodeID p)) now (p_NodeID p)) ps m)"
    for ps :: "'a Peer list"
    by (induction ps arbitrary: m) (auto intro: keeps_trans keeps_exchange)
  then show ?thesis by (simp add: exchange_tick_def)
qed

lemma keeps_onPeerConnected: "keeps (n_mgr n) (n_mgr (onPeerConnected cr cd ux ks now p n))"
  by (simp add: onPeerConnected_def Let_def keeps_def exchange_frame)

lemma keeps_save: "keeps m (saveKnownPeer cd r m)"
  by (simp add: keeps_def saveKnownPeer_frame)

text \<open>A message for the hub, or one taken from it: the other changes a node makes to the hub.\<close>

definition hub_effect :: "Hub \<Rightarrow> Hub \<Rightarrow> bool" where
  "hub_effect h h' \<longleftrightarrow> h' = h \<or> (\<exists>op. transport_op op \<and> op_ok op h \<and> hub_apply op h = Inr h')"

definition node_effect :: "'c Manager \<Rightarrow> 'c Manager \<Rightarrow> bool" where
  "node_effect m m' \<longleftrightarrow> m_cfg m' = m_cfg m \<and> m_id m' = m_id m \<and> hub_effect (m_hub m) (m_hub m')"

lemma keeps_effect: "keeps m m' \<Longrightarrow> node_effect m m'"
  by (simp add: keeps_def node_effect_def hub_effect_def)

lemma effect_keeps: "node_effect m m1 \<Longrightarrow> keeps m1 m2 \<Longrightarrow> node_effect m m2"
  by (simp add: keeps_def node_effect_def)

lemma keeps_effect_trans: "keeps m m1 \<Longrightarrow> node_effect m1 m2 \<Longrightarrow> node_effect m m2"
  by (simp add: keeps_def node_effect_def)

lemma effect_chat: "node_effect m (chat_handler cd sid pl m)"
proof -
  have "hub_effect (m_hub m) (DeliverRemote nick line (m_hub m))" for nick line
    unfolding hub_effect_def by (intro disjI2 exI [of _ "OpRemote nick line"]) simp
  then show ?thesis by (auto simp: chat_handler_def node_effect_def hub_effect_def split: option.splits)
qed

lemma effect_HandleIncoming:
  assumes "eng_inv cr cd e"
  shows "node_effect m (snd (HandleIncoming cr cd' rt frm env e m))"
proof (cases "admitted cr rt env e")
  case True
  obtain e1 m1 where d: "deliver env (accept_state cr rt env e) m = (e1, m1)" by fastforce
  then have "node_effect m m1" "getPeers e1 = peerHandles"
    using assms effect_chat [of m cd "SenderId env" "Payload env"] keeps_effect [OF keeps_refl, of m]
    by (auto simp: deliver_def accept_state_def eng_inv_def split: option.splits if_splits)
  then show ?thesis
    using keeps_relay [of e1 m1 cd' rt frm env] d by (simp add: HandleIncoming_admitted [OF True] effect_keeps)
next
  case False
  then show ?thesis using HandleIncoming_refused [OF False, of cd' frm m] by (auto intro: keeps_effect)
qed

lemma effect_receive:
  assumes "eng_inv cr cd (n_eng n)"
  shows "node_effect (n_mgr n) (n_mgr (receive cr cd nl rt now k n))"
proof -
  have set: "keeps (n_mgr n) (n_mgr (set_peer k p n))" for p by (simp add: keeps_def set_peer_def)
  have run: "node_effect (n_mgr n') (n_mgr (run_action cr cd rt act n'))" if "eng_inv cr cd (n_eng n')" for act and n' :: "'b Node"
    using effect_HandleIncoming [OF that, of "n_mgr n'" cd rt] keeps_effect [OF keeps_refl, of "n_mgr n'"]
    by (auto simp: action_defs mergeDiscoveredPeers_def Let_def split_beta node_effect_def split: recv_action.splits)
  have "eng_inv cr cd (n_eng (set_peer k p n))" for p using assms by (simp add: set_peer_def)
  then show ?thesis
    using keeps_effect_trans [OF set run] set [THEN keeps_effect] keeps_effect [OF keeps_refl, of "n_mgr n"]
    by (auto simp: receive_def split: option.splits prod.splits)
qed

lemma effect_fanout:
  assumes "eng_inv cr cd (n_eng n)"
  shows "node_effect (n_mgr n) (n_mgr (fanout_iter cr' cd' rt uuid now n))"
proof (cases "remote_recv (m_hub (n_mgr n))")
  case (Some x)
  obtain msg hub' where x: "x = (msg, hub')" by fastforce
  let ?m = "(n_mgr n)\<lparr>m_hub := hub'\<rparr>"
  have "hub_effect (m_hub (n_mgr n)) hub'"
    unfolding hub_effect_def by (intro disjI2 exI [of _ OpTake]) (simp add: Some x)
  then have m: "node_effect (n_mgr n) ?m" by (simp add: node_effect_def)
  have "keeps ?m (snd (snd (Broadcast cd' rt' env (n_eng n) ?m)))" for rt' env
    using assms keeps_send_each [of "peerHandles (rt_order rt') ?m" ?m] peerHandles_send
    by (auto simp: Broadcast_def Let_def split_beta eng_inv_def split: option.splits)
  then have "node_effect (n_mgr n) (snd (snd (Broadcast cd' rt' env (n_eng n) ?m)))" for rt' env
    using effect_keeps [OF m] by blast
  then show ?thesis using Some x m by (auto simp: fanout_iter_def Let_def split_beta split: option.splits)
qed (simp add: fanout_iter_def Let_def keeps_effect)

lemma node_own_effect:
  assumes "node_own cr cd nl n n'" and "eng_inv cr cd (n_eng n)"
  shows "node_effect (n_mgr n) (n_mgr n')"
  using assms
proof (cases rule: node_own.cases)
  case (DialEnd failed now r)
  then show ?thesis
    by (auto simp: dial_finished_def Let_def keeps_def saveKnownPeer_frame intro!: keeps_effect split: option.splits)
next
  case (Save i)
  then show ?thesis
    by (auto simp: run_save_def keeps_def saveKnownPeer_frame intro!: keeps_effect split: list.splits)
qed (auto intro!: keeps_effect effect_receive [OF assms(2)] effect_fanout [OF assms(2)] keeps_onPeerConnected keeps_exchange_tick
    simp: keeps_def addPeer_def arrive_def transmit_def set_peer_def removePeer_def tryDiscoveryDials_def Let_def fold_dialing
      SetPeerTimeouts_def SetPeerWriteTimeout_def mgr_Stop_def split: option.splits sum.splits)

section \<open>Steps of the running program\<close>

definition set_hub :: "Hub \<Rightarrow> ('c, 'x) system \<Rightarrow> ('c, 'x) system" where
  "set_hub h w =
     w\<lparr>sys_node := map_option (\<lambda>n. n\<lparr>n_mgr := (n_mgr n)\<lparr>m_hub := h\<rparr>\<rparr>) (sys_node w),
       sys_ssh := (sys_ssh w)\<lparr>srv_hub := h\<rparr>\<rparr>"

inductive run_step ::
  "crypto \<Rightarrow> PeerRecord codec \<Rightarrow> ('h, 'c) noise_lib \<Rightarrow> 'x ext \<Rightarrow> ('c, 'x) system \<Rightarrow> ('c, 'x) system \<Rightarrow> bool"
  for cr cd nl ext where
  Users: "ssh_own ext (sys_ssh w) s \<Longrightarrow> run_step cr cd nl ext w (set_hub (srv_hub s) (w\<lparr>sys_ssh := s\<rparr>))"
| Network: "sys_node w = Some n \<Longrightarrow> node_own cr cd nl n n' \<Longrightarrow>
    run_step cr cd nl ext w (set_hub (m_hub (n_mgr n')) (w\<lparr>sys_node := Some n'\<rparr>))"
| HubLoop: "distinct ks \<Longrightarrow> c = CBroadcast \<or> c = CStop \<Longrightarrow> hub_Run ks c (srv_hub (sys_ssh w)) = Inr h \<Longrightarrow>
    run_step cr cd nl ext w (set_hub h w)"
| HubStop: "\<not> stop_closed (srv_hub (sys_ssh w)) \<Longrightarrow> hub_Stop (srv_hub (sys_ssh w)) = Inr h \<Longrightarrow>
    run_step cr cd nl ext w (set_hub h w)"

inductive run_reach ::
  "crypto \<Rightarrow> PeerRecord codec \<Rightarrow> ('h, 'c) noise_lib \<Rightarrow> 'x ext \<Rightarrow> ('c, 'x) system \<Rightarrow> ('c, 'x) system \<Rightarrow> bool"
  for cr cd nl ext w0 where
  run_init: "run_reach cr cd nl ext w0 w0"
| run_next: "run_reach cr cd nl ext w0 w \<Longrightarrow> run_step cr cd nl ext w w' \<Longrightarrow> run_reach cr cd nl ext w0 w'"

section \<open>The invariant\<close>

text \<open>Both parts in their invariants, on one hub, the node with the settings and the identity of the program.\<close>

definition run_inv :: "crypto \<Rightarrow> PeerRecord codec \<Rightarrow> ('c, 'x) system \<Rightarrow> bool" where
  "run_inv cr cd w \<longleftrightarrow> ssh_inv (sys_ssh w) \<and>
     (\<forall>n. sys_node w = Some n \<longrightarrow> node_inv cr cd n \<and> m_hub (n_mgr n) = srv_hub (sys_ssh w) \<and>
        m_cfg (n_mgr n) = net_config (sys_cfg w) \<and> m_id (n_mgr n) = sys_id w)"

lemma run_invD:
  assumes "run_inv cr cd w"
  shows "ssh_inv (sys_ssh w)" "sys_node w = Some n \<Longrightarrow> node_inv cr cd n"
    "sys_node w = Some n \<Longrightarrow> m_hub (n_mgr n) = srv_hub (sys_ssh w)"
    "sys_node w = Some n \<Longrightarrow> m_cfg (n_mgr n) = net_config (sys_cfg w)"
    "sys_node w = Some n \<Longrightarrow> m_id (n_mgr n) = sys_id w"
  using assms by (simp_all add: run_inv_def)

lemma ssh_inv_hub_inv: "ssh_inv s \<Longrightarrow> hub_inv (srv_hub s)"
  by (auto simp: ssh_inv_def dest: hub.ownedD(1))

text \<open>A change of the hub that is in order for the server is in order for the program.\<close>

lemma set_hub_inv:
  assumes "ssh_inv ((sys_ssh w)\<lparr>srv_hub := h\<rparr>)"
    and "\<And>n. sys_node w = Some n \<Longrightarrow> node_inv cr cd n \<and> m_cfg (n_mgr n) = net_config (sys_cfg w) \<and> m_id (n_mgr n) = sys_id w"
  shows "run_inv cr cd (set_hub h w)"
  using assms node_inv_hub ssh_inv_hub_inv [OF assms(1)] by (auto simp: run_inv_def set_hub_def)

lemma ssh_inv_effect:
  assumes "ssh_inv s" and "hub_effect (srv_hub s) h"
  shows "ssh_inv (s\<lparr>srv_hub := h\<rparr>)"
  using assms ssh_inv_hub [OF assms(1)] by (auto simp: hub_effect_def)

lemma run_step_inv:
  assumes "run_step cr cd nl ext w w'" and "run_inv cr cd w"
  shows "run_inv cr cd w'"
  using assms(1)
proof cases
  case (Users s)
  then have "ssh_inv (s\<lparr>srv_hub := srv_hub s\<rparr>)" using ssh_own_inv run_invD(1) [OF assms(2)] by simp
  then show ?thesis unfolding Users(1) using run_invD [OF assms(2)] by (intro set_hub_inv) simp_all
next
  case (Network n n')
  note inv = run_invD [OF assms(2)]
  have n: "node_inv cr cd n" "m_hub (n_mgr n) = srv_hub (sys_ssh w)" using inv(2,3) Network(2) by simp_all
  then have e: "node_effect (n_mgr n) (n_mgr n')" using node_own_effect [OF Network(3)] by (simp add: node_inv_def)
  then have "ssh_inv ((sys_ssh w)\<lparr>srv_hub := m_hub (n_mgr n')\<rparr>)"
    using ssh_inv_effect [OF inv(1)] n(2) by (simp add: node_effect_def)
  then show ?thesis
    unfolding Network(1) using e inv(4,5) [OF Network(2)] node_own_inv [OF Network(3) n(1)]
    by (intro set_hub_inv) (auto simp: node_effect_def)
next
  case (HubLoop ks c h)
  have "hub_effect (srv_hub (sys_ssh w)) h"
    using HubLoop(2-4) unfolding hub_effect_def by (intro disjI2 exI [of _ "OpCase ks c"]) auto
  then show ?thesis unfolding HubLoop(1) using run_invD [OF assms(2)] by (intro set_hub_inv ssh_inv_effect) simp_all
next
  case (HubStop h)
  have "hub_effect (srv_hub (sys_ssh w)) h"
    using HubStop(2,3) unfolding hub_effect_def by (intro disjI2 exI [of _ OpStop]) simp
  then show ?thesis unfolding HubStop(1) using run_invD [OF assms(2)] by (intro set_hub_inv ssh_inv_effect) simp_all
qed

lemma run_step_settings: "run_step cr cd nl ext w w' \<Longrightarrow> sys_cfg w' = sys_cfg w \<and> sys_id w' = sys_id w"
  by (induction rule: run_step.induct) (simp_all add: set_hub_def)

lemma run_reach_inv:
  assumes "run_reach cr cd nl ext w0 w" and "run_inv cr cd w0"
  shows "run_inv cr cd w \<and> sys_cfg w = sys_cfg w0 \<and> sys_id w = sys_id w0"
  using assms by (induction rule: run_reach.induct) (auto dest: run_step_inv run_step_settings)

lemma main_start_inv:
  assumes "keylib_ok cr kl" and "\<forall>pub priv. rnd = Some (pub, priv) \<longrightarrow> pub = drop 32 priv"
    and "main_start td env fl lst cr kl rnd open_store cd ks parse fs = (Some (Inr w), fs')"
  shows "run_inv cr cd w" and "Validate (sys_cfg w) = []" and "srv_listener (sys_ssh w) = None"
proof -
  obtain cfg l i st fs1 where c: "main_configure td env fl lst = Inr (cfg, l)"
    and i: "identity_Load cr kl rnd (nc_DataDir (cf_Node cfg)) fs = (Inr i, fs1)"
    and s: "start_services cr cd ks parse cfg l i st fs1 = Some (Inr w)"
    using assms(3) by (auto simp: main_start_def Let_def split: sum.splits prod.splits if_splits option.splits)
  note ready = start_services_ready [OF s identity_Load_stable(1) [OF assms(1,2) i]]
  have "Validate cfg = []" using c by (auto simp: main_configure_def Let_def split: sum.splits if_splits)
  then show "Validate (sys_cfg w) = []" using ready(3) by simp
  show "srv_listener (sys_ssh w) = None"
    using s by (auto simp: start_services_def NewServer_def split: sum.splits prod.splits option.splits)
  have "m_id (n_mgr n) = i" if "sys_node w = Some n" for n
    using that s by (auto simp: start_services_def start_transport_def split: sum.splits prod.splits option.splits if_splits
        dest: NewManager_hub(3))
  then show "run_inv cr cd w" using ready by (simp add: run_inv_def)
qed

text \<open>The shutdown is made of steps: the node's, the server's and the hub's.\<close>

lemma set_hub_same:
  assumes "srv_hub (sys_ssh w) = h" and "\<And>n. sys_node w = Some n \<Longrightarrow> m_hub (n_mgr n) = h"
  shows "set_hub h w = w"
proof -
  have "n\<lparr>n_mgr := (n_mgr n)\<lparr>m_hub := h\<rparr>\<rparr> = n" if "sys_node w = Some n" for n using assms(2) [OF that] by auto
  then have "map_option (\<lambda>n. n\<lparr>n_mgr := (n_mgr n)\<lparr>m_hub := h\<rparr>\<rparr>) (sys_node w) = sys_node w" by (cases "sys_node w") simp_all
  moreover have "(sys_ssh w)\<lparr>srv_hub := h\<rparr> = sys_ssh w" using assms(1) by auto
  ultimately show ?thesis unfolding set_hub_def by simp
qed

lemma main_stop_run:
  assumes "run_inv cr cd w" and "\<not> stop_closed (srv_hub (sys_ssh w))"
  shows "\<exists>w'. main_stop w = Inr w' \<and> run_reach cr cd nl ext w w' \<and> stopping (sys_ssh w') \<and> stop_closed (srv_hub (sys_ssh w'))"
proof -
  define s where "s = srv_Stop (sys_ssh w)"
  define w1 where "w1 = w\<lparr>sys_node := map_option mgr_Stop (sys_node w)\<rparr>"
  have s: "srv_hub s = srv_hub (sys_ssh w)" "stopping s" by (simp_all add: s_def srv_Stop_def)
  obtain h where h: "hub_Stop (srv_hub s) = Inr h" "stop_closed h" using assms(2) s(1) by (simp add: hub_Stop_def)
  have node: "m_hub (n_mgr n) = srv_hub (sys_ssh w)" if n1: "sys_node w1 = Some n" for n
  proof -
    obtain n0 where "sys_node w = Some n0" "n = mgr_Stop n0" using n1 by (auto simp: w1_def)
    then show ?thesis using run_invD(3) [OF assms(1)] by (simp add: mgr_Stop_def)
  qed
  have r1: "run_reach cr cd nl ext w w1"
  proof (cases "sys_node w")
    case None
    then have "w1 = w" by (simp add: w1_def)
    then show ?thesis using run_init by simp
  next
    case (Some n)
    have w1: "w\<lparr>sys_node := Some (mgr_Stop n)\<rparr> = w1" by (simp add: w1_def Some)
    have "set_hub (m_hub (n_mgr (mgr_Stop n))) w1 = w1"
      using node [of "mgr_Stop n"] node by (intro set_hub_same) (simp_all add: w1_def Some)
    with run_next [OF run_init Network [OF Some node_own.Halt], of cr cd nl ext] w1 show ?thesis by simp
  qed
  have "set_hub (srv_hub s) (w1\<lparr>sys_ssh := s\<rparr>) = w1\<lparr>sys_ssh := s\<rparr>"
    using node s(1) by (intro set_hub_same) simp_all
  moreover have "ssh_own ext (sys_ssh w1) s" by (simp add: w1_def s_def ssh_own.Stop)
  ultimately have r2: "run_reach cr cd nl ext w (w1\<lparr>sys_ssh := s\<rparr>)" using run_next [OF r1 Users [of ext w1 s]] by simp
  have "run_step cr cd nl ext (w1\<lparr>sys_ssh := s\<rparr>) (set_hub h (w1\<lparr>sys_ssh := s\<rparr>))"
    using assms(2) s(1) h by (intro HubStop) simp_all
  with r2 have "run_reach cr cd nl ext w (set_hub h (w1\<lparr>sys_ssh := s\<rparr>))" by (rule run_next)
  moreover have "main_stop w = Inr (set_hub h (w1\<lparr>sys_ssh := s\<rparr>))"
    using h(1) by (simp add: main_stop_def Let_def s_def w1_def set_hub_def)
  ultimately show ?thesis using s(2) h(2) by (simp add: set_hub_def)
qed

section \<open>Serving\<close>

text \<open>
  The two goroutines of \<^verbatim>\<open>main\<close> that start the transport and the SSH server: a failure of the transport is
  only logged, one of the SSH server ends the program. \<open>listen\<close> and \<open>binds\<close> are the outcomes of \<^verbatim>\<open>net.Listen\<close>.
\<close>

definition main_serve ::
  "(string \<Rightarrow> string option) \<Rightarrow> (string \<Rightarrow> bool) \<Rightarrow> ('c, 'x) system \<Rightarrow> fatal + goroutine list \<times> ('c, 'x) system" where
  "main_serve listen binds w =
     (let (gs, node) = (case sys_node w of
            None \<Rightarrow> ([], None)
          | Some n \<Rightarrow> (case mgr_Start listen (sys_cfg w) n of (ok, gs, n') \<Rightarrow> (gs, Some n')))
      in case srv_Start (binds (sc_Listen (cf_SSH (sys_cfg w)))) (sys_ssh w) of
           None \<Rightarrow> Inl FatalListen
         | Some s \<Rightarrow> Inr (gs, w\<lparr>sys_node := node, sys_ssh := s\<rparr>))"

lemma main_serve_run:
  assumes "run_inv cr cd w" and "srv_listener (sys_ssh w) = None" and "main_serve listen binds w = Inr (gs, w')"
  shows "run_reach cr cd nl ext w w'"
proof -
  obtain node where node: "w' = w\<lparr>sys_node := node, sys_ssh := srv_Listen (sys_ssh w)\<rparr>"
    "node = None \<and> sys_node w = None \<or> (\<exists>n n' ok gs. sys_node w = Some n \<and> mgr_Start listen (sys_cfg w) n = (ok, gs, n') \<and> node = Some n')"
    using assms(3) by (auto simp: main_serve_def srv_Start_def Let_def split: option.splits prod.splits if_splits)
  let ?w1 = "w\<lparr>sys_node := node\<rparr>"
  have hub: "m_hub (n_mgr n') = srv_hub (sys_ssh w)" if n': "node = Some n'" for n'
    using node(2) n' run_invD(3) [OF assms(1)] by (auto simp: mgr_Start_def split: if_splits option.splits)
  have r1: "run_reach cr cd nl ext w ?w1"
  proof (cases "?w1 = w")
    case True
    then show ?thesis using run_init [of cr cd nl ext w] by simp
  next
    case False
    then obtain n n' ok gs where n: "sys_node w = Some n" "mgr_Start listen (sys_cfg w) n = (ok, gs, n')" "node = Some n'"
      using node(2) by auto
    then have "node_own cr cd nl n n'" using mgr_Start_own [OF n(2), of cr cd nl] False by auto
    moreover have "set_hub (m_hub (n_mgr n')) ?w1 = ?w1" using hub n(3) by (intro set_hub_same) auto
    ultimately show ?thesis using run_next [OF run_init Network [OF n(1)], of cr cd nl n' ext] n(3) by simp
  qed
  have "ssh_own ext (sys_ssh ?w1) (srv_Listen (sys_ssh w))" using ssh_own.Listen [OF assms(2)] by simp
  from run_next [OF r1 Users [OF this]]
  have "run_reach cr cd nl ext w (set_hub (srv_hub (srv_Listen (sys_ssh w))) (?w1\<lparr>sys_ssh := srv_Listen (sys_ssh w)\<rparr>))" .
  moreover have "set_hub (srv_hub (srv_Listen (sys_ssh w))) (?w1\<lparr>sys_ssh := srv_Listen (sys_ssh w)\<rparr>) = w'"
    unfolding node(1) using hub by (subst set_hub_same) (auto simp: srv_Listen_def)
  ultimately show ?thesis by simp
qed

text \<open>
  C9. The running program is consistent. The state after \<^verbatim>\<open>main\<close> has begun to serve, whether or not the
  transport could listen, is reached by steps from the one it prepared; and from there, whatever users, peers
  and the hub's loop do and however their steps interleave: the transport and the SSH server see the same hub;
  the node keeps its settings, its identity and its invariant, so it never has more peers than
  the validated configuration allows; while the hub runs its members are exactly the terminals that are
  logged in; and until the hub is stopped the shutdown of \<^verbatim>\<open>main\<close> does not panic, is made of steps of the
  parts and leaves the server and the hub stopping.
\<close>

theorem running_program_consistent:
  assumes "keylib_ok cr kl" and "\<forall>pub priv. rnd = Some (pub, priv) \<longrightarrow> pub = drop 32 priv"
    and "main_start td env fl lst cr kl rnd open_store cd ks parse fs = (Some (Inr w0), fs')"
    and "run_reach cr cd nl ext w0 w"
  shows "(\<forall>listen binds gs w1. main_serve listen binds w0 = Inr (gs, w1) \<longrightarrow> run_reach cr cd nl ext w0 w1) \<and>
    Validate (sys_cfg w) = [] \<and> sys_cfg w = sys_cfg w0 \<and> sys_id w = sys_id w0 \<and>
    (\<forall>n. sys_node w = Some n \<longrightarrow> m_hub (n_mgr n) = srv_hub (sys_ssh w) \<and> m_id (n_mgr n) = sys_id w \<and> node_inv cr cd n \<and>
       (nw_MaxPeers (cf_Network (sys_cfg w)) > 0 \<longrightarrow> int (PeerCount (n_mgr n)) \<le> nw_MaxPeers (cf_Network (sys_cfg w)))) \<and>
    ssh_inv (sys_ssh w) \<and>
    (hub_running (srv_hub (sys_ssh w)) \<longrightarrow> members (srv_hub (sys_ssh w)) = ran (owner (sys_ssh w))) \<and>
    (\<not> stop_closed (srv_hub (sys_ssh w)) \<longrightarrow>
       (\<exists>w'. main_stop w = Inr w' \<and> run_reach cr cd nl ext w w' \<and> stopping (sys_ssh w') \<and> stop_closed (srv_hub (sys_ssh w'))))"
proof -
  note start = main_start_inv [OF assms(1-3)]
  from run_reach_inv [OF assms(4) start(1)]
  have inv: "run_inv cr cd w" and fixed: "sys_cfg w = sys_cfg w0" "sys_id w = sys_id w0" by simp_all
  have "hub.owned (srv_hub (sys_ssh w)) (owner (sys_ssh w))" using run_invD(1) [OF inv] by (simp add: ssh_inv_def)
  note members = hub.ownedD(4) [OF this]
  have peers: "int (PeerCount (n_mgr n)) \<le> nw_MaxPeers (cf_Network (sys_cfg w))"
    if "sys_node w = Some n" "nw_MaxPeers (cf_Network (sys_cfg w)) > 0" for n
    using run_invD(2,4) [OF inv that(1)] that(2)
    by (simp add: node_inv_def mgr_inv_def peers_inv_def PeerCount_def net_config_def)
  show ?thesis using start(2) fixed run_invD [OF inv] peers members main_stop_run [OF inv, of nl ext]
    main_serve_run [OF start(1,3)] by auto
qed

theorem running_program_consistent_witness:
  "\<exists>w0 fs' w. demo_boot = (Some (Inr w0), fs') \<and>
     run_reach demo_crypto (demo_json (demo_record 1 0 0) (demo_record 1 0 0)) demo_noise demo_ext w0 w \<and>
     sys_id w = sys_id w0 \<and> ssh_inv (sys_ssh w) \<and> srv_listener (sys_ssh w) \<noteq> None"
proof -
  obtain w0 fs' where b: "demo_boot = (Some (Inr w0), fs')" using demo_boots by blast
  have "srv_listener (sys_ssh w0) = None"
    using b by (auto simp: demo_boot_def main_start_def start_services_def NewServer_def Let_def
        split: sum.splits prod.splits option.splits if_splits)
  define w where "w = set_hub (srv_hub (srv_Listen (sys_ssh w0))) (w0\<lparr>sys_ssh := srv_Listen (sys_ssh w0)\<rparr>)"
  have r: "run_reach demo_crypto (demo_json (demo_record 1 0 0) (demo_record 1 0 0)) demo_noise demo_ext w0 w"
    unfolding w_def by (rule run_next [OF run_init Users [OF ssh_own.Listen [OF \<open>srv_listener (sys_ssh w0) = None\<close>]]])
  have rnd: "\<forall>pub priv. Some (replicate 32 5 :: bytes, replicate 64 5) = Some (pub, priv) \<longrightarrow> pub = drop 32 priv" by simp
  note T = running_program_consistent [OF demo_keylib_ok rnd b [unfolded demo_boot_def] r]
  have "sys_id w = sys_id w0" by (rule T [THEN conjunct2, THEN conjunct2, THEN conjunct2, THEN conjunct1])
  moreover have "ssh_inv (sys_ssh w)"
    by (rule T [THEN conjunct2, THEN conjunct2, THEN conjunct2, THEN conjunct2, THEN conjunct2, THEN conjunct1])
  moreover have "srv_listener (sys_ssh w) \<noteq> None" by (simp add: w_def set_hub_def srv_Listen_def)
  ultimately show ?thesis using b r by blast
qed

end
