(* ===== verification/Network.thy ===== *)
theory Network
  imports Composition
begin

text \<open>
  A chat line on its way through several nodes: what its sender queues, what a node that admits it hands
  to its hub and queues for its other peers, and a path of such nodes, each receiving the frame the one
  before it queued.
\<close>

section \<open>A message at one node\<close>

text \<open>An admitted chat message ends up in the hub's queue.\<close>

lemma admitted_chat_delivered:
  assumes "admitted cr rt env e" and "eng_inv cr cd e" and "MsgType env = MsgTypeChat"
    and "chat_Unmarshal cd (Payload env) = Some chat"
  shows "m_hub (snd (HandleIncoming cr cd rt frm env e m)) = DeliverRemote (chat_Nick chat) (chat_Text chat) (m_hub m)"
proof -
  have d: "deliver env (accept_state cr rt env e) m =
      ((accept_state cr rt env e)\<lparr>statsDelivered := statsDelivered (accept_state cr rt env e) + 1\<rparr>,
       m\<lparr>m_hub := DeliverRemote (chat_Nick chat) (chat_Text chat) (m_hub m)\<rparr>)"
    using assms(2-4) by (simp add: deliver_def accept_state_def eng_inv_def chat_handler_def)
  show ?thesis
    unfolding HandleIncoming_admitted [OF assms(1)] d using assms(2)
    by (simp add: relay_hub accept_state_def eng_inv_def)
qed

text \<open>A chat message signed by a node is admitted by any node that has not seen it.\<close>

lemma chat_env_fields:
  "MessageId (chat_env cr u h i pl) = u" "SenderId (chat_env cr u h i pl) = NodeID i"
  "MsgType (chat_env cr u h i pl) = MsgTypeChat" "Payload (chat_env cr u h i pl) = pl"
  "SenderPubkey (chat_env cr u h i pl) = PublicKey i"
  by (simp_all add: chat_env_def frame_simps)

lemma chat_env_admitted:
  assumes "identity_ok cr i" and "length (sha256 cr (PublicKey i)) = 32"
    and "uuid \<noteq> []" and "length uuid \<le> MaxFieldLen" and "length payload \<le> MaxGossipPayload"
    and "\<not> seen_Has uuid (Seen e)" and "fst (rl_Allow (NodeID i) (rt_allow rt) (Limiter e))"
    and "\<forall>k. kr_Lookup (NodeID i) (eng_KeyRing e) = Some k \<longrightarrow> PubKey k = PublicKey i"
  shows "admitted cr rt (chat_env cr uuid hops i payload) e"
proof -
  let ?env = "chat_env cr uuid hops i payload"
  have id: "NodeID i = hex_EncodeToString (sha256 cr (PublicKey i))" "length (PublicKey i) = PublicKeySize"
    using identity_okD [OF assms(1)] by (simp_all add: node_id_of_def)
  have len: "length (NodeID i) = 64" using id(1) assms(2) by simp
  have wf: "well_formed ?env"
    using assms(3-5) len by (auto simp: well_formed_def chat_env_fields MaxFieldLen_def)
  have "\<exists>entry. fst (lookup_or_learn cr ?env (eng_KeyRing e)) = Some entry \<and> PubKey entry = PublicKey i"
    using assms(8) id
    by (cases "kr_Lookup (NodeID i) (eng_KeyRing e)")
      (auto simp: lookup_or_learn_def learnable_def chat_env_fields kr_defs)
  then obtain entry where entry: "fst (lookup_or_learn cr ?env (eng_KeyRing e)) = Some entry" "PubKey entry = PublicKey i"
    by blast
  have "VerifyEnvelope cr ?env (PublicKey i)"
    unfolding chat_env_def by (rule verify_signed [OF identity_okD(1) [OF assms(1)]])
  then show ?thesis
    using wf entry assms(6,7) by (auto simp: admitted_def verified_by_def chat_env_fields)
qed

text \<open>What the fanout loop puts into the queue of a connected peer.\<close>

lemma fanout_queues:
  assumes "node_inv cr cd n" and "remote_recv (m_hub (n_mgr n)) = Some (msg, hub')"
    and "chat_Marshal cd \<lparr>chat_Nick = rm_Nick msg, chat_Text = rm_Text msg, chat_Timestamp = word_of_int (Unix now)\<rparr> = Some payload"
    and "env_Marshal cd (chat_env cr uuid (MaxHops (n_eng n)) (m_id (n_mgr n)) payload) = Some raw"
    and "range_order (rt_order rt) (m_peers (n_mgr n))"
    and "fmlookup (m_peers (n_mgr n)) k = Some p" and "length (sendCh p) < sendChCap"
  shows "sendq (n_mgr (fanout_iter cr cd rt uuid now n)) k = Some (sendCh p @ [raw])"
proof -
  let ?m = "(n_mgr n)\<lparr>m_hub := hub'\<rparr>" and ?ks = "rt_order rt"
  let ?ps = "peerHandles ?ks ?m"
  have inv: "peers_inv cr ?m" "range_order ?ks (m_peers ?m)" "getPeers (n_eng n) = peerHandles"
    using assms(1,5) by (simp_all add: node_inv_def mgr_inv_def eng_inv_def peers_inv_def)
  note h = peerHandles_facts [OF inv(1,2)]
  have d: "distinct (map ph_NodeID ?ps)" using h(1) inv(2) by (simp add: range_order_def)
  have mem: "k \<in> ph_NodeID ` set ?ps"
    using h(1) range_order_set [OF assms(5), of k] assms(6) by (metis list.set_map option.distinct(1))
  have "sendq ?m k = Some (sendCh p)" using assms(6) by (simp add: sendq_def)
  then have q: "sendq (snd (send_each raw ?ps ?m)) k = Some (sendCh p @ [raw])"
    using sink.send_each_inbox [OF d h(2,3), of raw] mem assms(7) by simp
  have "n_mgr (fanout_iter cr cd rt uuid now n) = snd (send_each raw ?ps ?m)"
    using assms(2-4) inv(3)
    by (simp add: fanout_iter_def Let_def Broadcast_def split_beta split: prod.splits)
  with q show ?thesis by simp
qed

text \<open>Forwarding lowers the hop count and changes nothing else: the signature does not cover it.\<close>

lemma chat_env_hops: "(chat_env cr u h i pl)\<lparr>HopCount := h'\<rparr> = chat_env cr u h' i pl"
  by (simp add: chat_env_def SignEnvelope_def EnvelopeSignData_def)

text \<open>A node with at most \<open>fanout\<close> other peers forwards to all of them.\<close>

lemma forward_all:
  assumes "peers_inv cr m" and "range_order (rt_order rt) (m_peers m)" and "getPeers e = peerHandles"
    and "fmlookup (m_peers m) x \<noteq> None" and "map_len (m_peers m) \<le> Suc (fanout e)"
  shows "forward_set rt x e m = filter (\<lambda>p. ph_NodeID p \<noteq> x) (peerHandles (rt_order rt) m)"
proof -
  let ?ps = "peerHandles (rt_order rt) m"
  have ids: "map ph_NodeID ?ps = rt_order rt" by (rule peerHandles_facts(1) [OF assms(1,2)])
  then have "x \<in> ph_NodeID ` set ?ps"
    using range_order_set [OF assms(2), of x] assms(4) by (metis list.set_map)
  then have "length (filter (\<lambda>p. ph_NodeID p \<noteq> x) ?ps) < length ?ps"
    by (auto intro: length_filter_less)
  moreover have "length ?ps \<le> Suc (fanout e)"
    using ids range_order_length [OF assms(2)] assms(5) by (metis length_map)
  ultimately have "length (filter (\<lambda>p. ph_NodeID p \<noteq> x) ?ps) \<le> fanout e" by linarith
  then show ?thesis by (simp add: forward_set_def assms(3))
qed

lemma relay_queues:
  assumes "peers_inv cr m" and "range_order (rt_order rt) (m_peers m)" and "getPeers e = peerHandles"
    and "fmlookup (m_peers m) x \<noteq> None" and "map_len (m_peers m) \<le> Suc (fanout e)"
    and "HopCount env > 1" and "env_Marshal cd (env\<lparr>HopCount := HopCount env - 1\<rparr>) = Some raw"
    and "sendq m k = Some q" and "length q < sendChCap" and "k \<noteq> x"
  shows "sendq (snd (relay cd rt x env e m)) k = Some (q @ [raw])"
proof -
  let ?ps = "filter (\<lambda>p. ph_NodeID p \<noteq> x) (peerHandles (rt_order rt) m)"
  note h = peerHandles_facts [OF assms(1,2)]
  have "distinct (map ph_NodeID (peerHandles (rt_order rt) m))" using h(1) assms(2) by (simp add: range_order_def)
  then have d: "distinct (map ph_NodeID ?ps)" by (rule distinct_map_filter)
  have "k \<in> set (rt_order rt)"
    using range_order_set [OF assms(2), of k] assms(8) by (auto simp: sendq_def split: option.splits)
  then have "k \<in> ph_NodeID ` set (peerHandles (rt_order rt) m)" by (metis h(1) list.set_map)
  then have mem: "k \<in> ph_NodeID ` set ?ps" using assms(10) by auto
  have "snd (relay cd rt x env e m) = snd (send_each raw ?ps m)"
    using assms(6,7) forward_all [OF assms(1-5)]
    by (simp add: relay_def forwardTo_eq Let_def split_beta)
  then show ?thesis
    using sink.send_each_inbox [OF d, of m raw] h(2,3) mem assms(8,9) by simp
qed

text \<open>Whatever subset of the peers is chosen, a queue only grows by copies of the frame that is sent.\<close>

lemma send_each_adds:
  assumes "\<And>p. p \<in> set ps \<Longrightarrow> ph_Send p = peer_send (ph_NodeID p)" and "sendq m k = Some q"
  shows "\<exists>n. sendq (snd (send_each raw ps m)) k = Some (q @ replicate n raw)"
  using assms
proof (induction ps arbitrary: m q)
  case Nil
  then show ?case by (intro exI [of _ 0]) simp
next
  case (Cons p ps)
  let ?m = "snd (ph_Send p raw m)"
  have "sendq ?m k = Some q \<or> sendq ?m k = Some (q @ [raw])"
    using Cons.prems by (auto simp: peer_send_def SendRaw_def sendq_def split: option.splits)
  then obtain q' j where q': "sendq ?m k = Some q'" "q' = q @ replicate j raw" by (metis append_Nil2 replicate_0 replicate_Suc)
  obtain n where "sendq (snd (send_each raw ps ?m)) k = Some (q' @ replicate n raw)"
    using Cons.IH [OF _ q'(1)] Cons.prems(1) by auto
  then have "sendq (snd (send_each raw (p # ps) m)) k = Some (q @ replicate (j + n) raw)"
    by (simp add: q'(2) split_beta Let_def replicate_add)
  then show ?case by blast
qed

lemma relay_adds:
  assumes "getPeers e = peerHandles" and "sendq m k = Some q"
    and "sendq (snd (relay cd rt x env e m)) k = Some (q @ [f])"
  shows "HopCount env > 1 \<and> env_Marshal cd (env\<lparr>HopCount := HopCount env - 1\<rparr>) = Some f"
proof (cases "HopCount env > 1 \<and> env_Marshal cd (env\<lparr>HopCount := HopCount env - 1\<rparr>) \<noteq> None")
  case True
  then obtain raw where raw: "HopCount env > 1" "env_Marshal cd (env\<lparr>HopCount := HopCount env - 1\<rparr>) = Some raw" by auto
  then have "snd (relay cd rt x env e m) = snd (send_each raw (forward_set rt x e m) m)"
    by (simp add: relay_def forwardTo_eq Let_def split_beta)
  moreover have "\<exists>n. sendq (snd (send_each raw (forward_set rt x e m) m)) k = Some (q @ replicate n raw)"
    by (rule send_each_adds [OF _ assms(2)]) (use forward_set_facts(2) [of rt x e m] assms(1) peerHandles_send in auto)
  then obtain n where "sendq (snd (send_each raw (forward_set rt x e m) m)) k = Some (q @ replicate n raw)" ..
  ultimately have "[f] = replicate n raw" using assms(3) by simp
  then show ?thesis using raw by (cases n) auto
next
  case False
  then have "snd (relay cd rt x env e m) = m" by (auto simp: relay_def)
  then show ?thesis using assms(2,3) by simp
qed

section \<open>A path of nodes\<close>

text \<open>
  A station is a node at the time it receives the message, the peer it receives it from, the peer it is
  to reach next, and what the runtime supplies.
\<close>

record 'c Station =
  st_node :: "'c Node"
  st_from :: node_id
  st_to :: node_id
  st_rt :: runtime
  st_now :: instant

text \<open>The station after the iteration of the receive loop that takes the frame.\<close>

definition st_after :: "crypto \<Rightarrow> 'r codec \<Rightarrow> ('h, 'c) noise_lib \<Rightarrow> 'c Station \<Rightarrow> 'c Node" where
  "st_after cr cd nl s = receive cr cd nl (st_rt s) (st_now s) (st_from s) (st_node s)"

abbreviation st_hub :: "'c Node \<Rightarrow> bcastMsg list" where
  "st_hub n \<equiv> hub_broadcast (m_hub (n_mgr n))"

text \<open>The frame with the bytes \<open>raw\<close>, of a size that can be written, has arrived from the peer.\<close>

definition arrives :: "('h, 'c) noise_lib \<Rightarrow> bytes \<Rightarrow> 'c Station \<Rightarrow> bool" where
  "arrives nl raw s =
     (case fmlookup (m_peers (n_mgr (st_node s))) (st_from s) of
        None \<Rightarrow> False
      | Some p \<Rightarrow> has_onGossipMessage p \<and>
          length raw \<le> MaxPayload \<and> take (length (frame_buf raw)) (noise_pending nl (p_conn p)) = frame_buf raw)"

text \<open>The message is new to the station, within the sender's rate, and no other key is known for the sender.\<close>

definition accepts :: "Identity \<Rightarrow> string \<Rightarrow> 'c Station \<Rightarrow> bool" where
  "accepts i uuid s =
     (let e = n_eng (st_node s) in
      \<not> seen_Has uuid (Seen e) \<and> fst (rl_Allow (NodeID i) (rt_allow (st_rt s)) (Limiter e)) \<and>
      (case kr_Lookup (NodeID i) (eng_KeyRing e) of None \<Rightarrow> True | Some k \<Rightarrow> PubKey k = PublicKey i))"

text \<open>The next peer is connected, its queue has room, and the other peers are no more than the fanout.\<close>

definition passes_on :: "'c Station \<Rightarrow> bool" where
  "passes_on s =
     (let m = n_mgr (st_node s) in
      st_to s \<noteq> st_from s \<and> range_order (rt_order (st_rt s)) (m_peers m) \<and>
      map_len (m_peers m) \<le> Suc (fanout (n_eng (st_node s))) \<and>
      (case sendq m (st_to s) of None \<Rightarrow> False | Some q \<Rightarrow> length q < sendChCap))"

text \<open>
  The stations lie on a path: the first receives \<open>raw\<close>, and each of the others the frame that the one
  before it added to the queue for its next peer when it received its own. Which peers a station forwards
  to is the choice of the code.
\<close>

fun on_path :: "crypto \<Rightarrow> 'r codec \<Rightarrow> ('h, 'c) noise_lib \<Rightarrow> bytes \<Rightarrow> 'c Station list \<Rightarrow> bool" where
  "on_path cr cd nl raw [] = True"
| "on_path cr cd nl raw [s] = arrives nl raw s"
| "on_path cr cd nl raw (s # s' # ss) =
     (arrives nl raw s \<and>
      (case (sendq (n_mgr (st_node s)) (st_to s), sendq (n_mgr (st_after cr cd nl s)) (st_to s)) of
         (Some q, Some q') \<Rightarrow> q' \<noteq> [] \<and> butlast q' = q \<and> on_path cr cd nl (last q') (s' # ss)
       | _ \<Rightarrow> False))"

text \<open>A chat message that the node \<open>i\<close> can send.\<close>

definition sendable :: "crypto \<Rightarrow> 'r codec \<Rightarrow> Identity \<Rightarrow> string \<Rightarrow> ChatMessage \<Rightarrow> bytes \<Rightarrow> bool" where
  "sendable cr cd i uuid chat payload \<longleftrightarrow> identity_ok cr i \<and> length (sha256 cr (PublicKey i)) = 32 \<and>
     uuid \<noteq> [] \<and> length uuid \<le> MaxFieldLen \<and> chat_Marshal cd chat = Some payload \<and>
     length payload \<le> MaxGossipPayload"

text \<open>What a station does with the frame.\<close>

lemma station_receives:
  assumes "codec_ok cd" and "node_inv cr cd (st_node s)" and "arrives nl raw s"
    and "env_Marshal cd (chat_env cr uuid h i payload) = Some raw"
  obtains p nc where "fmlookup (m_peers (n_mgr (st_node s))) (st_from s) = Some p"
    and "st_after cr cd nl s = run_action cr cd (st_rt s) (CallGossip (st_from s) (chat_env cr uuid h i payload))
           (set_peer (st_from s) (p\<lparr>p_conn := nc\<rparr>) (st_node s))"
proof -
  obtain p where p: "fmlookup (m_peers (n_mgr (st_node s))) (st_from s) = Some p" "has_onGossipMessage p"
    "take (length (frame_buf raw)) (noise_pending nl (p_conn p)) = frame_buf raw" "length raw \<le> MaxPayload"
    using assms(3) by (auto simp: arrives_def split: option.splits)
  have "noise_pending nl (p_conn p) = frame_buf raw @ drop (length (frame_buf raw)) (noise_pending nl (p_conn p))"
    by (metis append_take_drop_id p(3))
  from noise.ReadFrame_frame [OF this p(4)]
  obtain nc where nc: "ReadFrame (noise_ReadFull nl) (p_conn p) = Inr (raw, nc)" by blast
  have "p_NodeID p = st_from s" using mgr_invD(4) [OF _ p(1)] assms(2) by (auto simp: node_inv_def peer_ok_def)
  then have "recv_iter cr cd nl (st_now s) p =
      (LoopContinues, CallGossip (st_from s) (chat_env cr uuid h i payload), p\<lparr>p_conn := nc\<rparr>)"
    using p(2) nc codec_okD(1) [OF assms(1,4)]
    by (simp add: recv_iter_def dispatch_def chat_env_fields msg_type_defs)
  then show thesis using that p(1) by (simp add: st_after_def receive_def)
qed

lemma station_admits:
  assumes "sendable cr cd i uuid chat payload" and "accepts i uuid s"
  shows "admitted cr (st_rt s) (chat_env cr uuid h i payload) (n_eng (st_node s))"
  using assms chat_env_admitted [of cr i uuid payload "n_eng (st_node s)" "st_rt s"]
  by (auto simp: sendable_def accepts_def Let_def split: option.splits)

lemma station_delivers:
  assumes "codec_ok cd" and "node_inv cr cd (st_node s)" and "arrives nl raw s"
    and "sendable cr cd i uuid chat payload" and "accepts i uuid s"
    and "env_Marshal cd (chat_env cr uuid h i payload) = Some raw"
  shows "st_hub (st_after cr cd nl s) = st_hub (st_node s) @
      [\<lparr>bm_from = None, bm_text = chat_line (chat_Nick chat) (chat_Text chat), bm_system = True\<rparr>]"
proof -
  let ?env = "chat_env cr uuid h i payload"
  obtain p nc where p: "fmlookup (m_peers (n_mgr (st_node s))) (st_from s) = Some p"
    and run: "st_after cr cd nl s = run_action cr cd (st_rt s) (CallGossip (st_from s) ?env)
        (set_peer (st_from s) (p\<lparr>p_conn := nc\<rparr>) (st_node s))"
    using station_receives [OF assms(1,2,3,6)] by metis
  have "chat_Unmarshal cd (Payload ?env) = Some chat"
    using codec_okD(3) [OF assms(1)] assms(4) by (simp add: sendable_def chat_env_fields)
  note del = admitted_chat_delivered [OF station_admits [OF assms(4,5)] _ chat_env_fields(3) this]
  have "m_hub (n_mgr (st_after cr cd nl s)) = DeliverRemote (chat_Nick chat) (chat_Text chat) (m_hub (n_mgr (st_node s)))"
    using del assms(2) by (simp add: run action_defs set_peer_def split_beta node_inv_def)
  then show ?thesis by (simp add: DeliverRemote_def)
qed

text \<open>The queues of a station change only by the relaying, which starts from the queues as they were.\<close>

lemma station_relays:
  assumes "codec_ok cd" and "node_inv cr cd (st_node s)" and "arrives nl raw s"
    and "sendable cr cd i uuid chat payload" and "accepts i uuid s"
    and "env_Marshal cd (chat_env cr uuid h i payload) = Some raw"
  obtains e m where "n_mgr (st_after cr cd nl s) = snd (relay cd (st_rt s) (st_from s) (chat_env cr uuid h i payload) e m)"
    and "getPeers e = peerHandles" and "fanout e = fanout (n_eng (st_node s))" and "peers_inv cr m"
    and "fmdom (m_peers m) = fmdom (m_peers (n_mgr (st_node s)))" and "fmlookup (m_peers m) (st_from s) \<noteq> None"
    and "\<And>k. sendq m k = sendq (n_mgr (st_node s)) k"
proof -
  let ?env = "chat_env cr uuid h i payload" and ?e = "n_eng (st_node s)" and ?rt = "st_rt s"
  obtain p nc where p: "fmlookup (m_peers (n_mgr (st_node s))) (st_from s) = Some p"
    and run: "st_after cr cd nl s = run_action cr cd ?rt (CallGossip (st_from s) ?env)
        (set_peer (st_from s) (p\<lparr>p_conn := nc\<rparr>) (st_node s))"
    using station_receives [OF assms(1,2,3,6)] by metis
  let ?m = "n_mgr (set_peer (st_from s) (p\<lparr>p_conn := nc\<rparr>) (st_node s))"
  have dom: "fmdom (m_peers ?m) = fmdom (m_peers (n_mgr (st_node s)))"
    using p by (simp add: set_peer_def fmdomI finsert_absorb)
  have q: "sendq ?m k = sendq (n_mgr (st_node s)) k" for k
    using p by (cases "k = st_from s") (simp_all add: sendq_def set_peer_def)
  obtain e1 m1 where d: "deliver ?env (accept_state cr ?rt ?env ?e) ?m = (e1, m1)" by fastforce
  have e: "eng_inv cr cd ?e" using assms(2) by (simp add: node_inv_def)
  have inv: "node_inv cr cd (set_peer (st_from s) (p\<lparr>p_conn := nc\<rparr>) (st_node s))"
    by (rule set_peer_inv [OF assms(2) p]) (use assms(2) p mgr_invD(4) in \<open>auto simp: node_inv_def\<close>)
  have m1: "m_peers m1 = m_peers ?m" "m_cfg m1 = m_cfg ?m" "getPeers e1 = peerHandles" "fanout e1 = fanout ?e"
    using d e by (auto simp: deliver_def accept_state_def eng_inv_def chat_handler_def chat_env_fields split: option.splits)
  show thesis
  proof (rule that [of e1 m1])
    show "n_mgr (st_after cr cd nl s) = snd (relay cd ?rt (st_from s) ?env e1 m1)"
      using HandleIncoming_admitted [OF station_admits [OF assms(4,5)], of cd "st_from s" h ?m] d
      by (simp add: run action_defs set_peer_def split_beta)
    show "peers_inv cr m1" using inv by (simp add: node_inv_def mgr_inv_def peers_inv_def m1(1,2))
    show "fmdom (m_peers m1) = fmdom (m_peers (n_mgr (st_node s)))" using dom by (simp add: m1(1))
    show "fmlookup (m_peers m1) (st_from s) \<noteq> None" by (simp add: m1(1) set_peer_def)
    show "sendq m1 k = sendq (n_mgr (st_node s)) k" for k using q [of k] by (simp add: sendq_def m1(1))
  qed (use m1 in auto)
qed

text \<open>With hops left, a frame that can be encoded and no more peers than the fanout, the next peer gets its copy.\<close>

lemma station_forwards:
  assumes "codec_ok cd" and "node_inv cr cd (st_node s)" and "arrives nl raw s"
    and "sendable cr cd i uuid chat payload" and "accepts i uuid s" and "passes_on s"
    and "env_Marshal cd (chat_env cr uuid h i payload) = Some raw"
    and "h > 1" and "env_Marshal cd (chat_env cr uuid (h - 1) i payload) = Some raw'"
  shows "\<exists>q. sendq (n_mgr (st_node s)) (st_to s) = Some q \<and>
    sendq (n_mgr (st_after cr cd nl s)) (st_to s) = Some (q @ [raw'])"
proof -
  let ?env = "chat_env cr uuid h i payload" and ?rt = "st_rt s"
  obtain e m where em: "n_mgr (st_after cr cd nl s) = snd (relay cd ?rt (st_from s) ?env e m)"
    "getPeers e = peerHandles" "fanout e = fanout (n_eng (st_node s))" "peers_inv cr m"
    "fmdom (m_peers m) = fmdom (m_peers (n_mgr (st_node s)))" "fmlookup (m_peers m) (st_from s) \<noteq> None"
    "\<And>k. sendq m k = sendq (n_mgr (st_node s)) k"
    using station_relays [OF assms(1-5,7)] by blast
  obtain q where q: "sendq (n_mgr (st_node s)) (st_to s) = Some q" "length q < sendChCap"
    and ps: "st_to s \<noteq> st_from s" "range_order (rt_order ?rt) (m_peers (n_mgr (st_node s)))"
      "map_len (m_peers (n_mgr (st_node s))) \<le> Suc (fanout (n_eng (st_node s)))"
    using assms(6) by (auto simp: passes_on_def Let_def split: option.splits)
  have "sendq (snd (relay cd ?rt (st_from s) ?env e m)) (st_to s) = Some (q @ [raw'])"
  proof (rule relay_queues [OF em(4) _ em(2,6)])
    show "range_order (rt_order ?rt) (m_peers m)" using ps(2) em(5) by (simp add: range_order_def)
    show "map_len (m_peers m) \<le> Suc (fanout e)" using ps(3) em(3,5) by simp
    show "HopCount ?env > 1" using assms(8) by (simp add: chat_env_def frame_simps)
    show "env_Marshal cd (?env\<lparr>HopCount := HopCount ?env - 1\<rparr>) = Some raw'"
      using assms(9) by (simp add: chat_env_hops) (simp add: chat_env_def frame_simps)
  qed (use q ps em(7) in auto)
  then show ?thesis using q em(1) by simp
qed

text \<open>A frame that was added to a queue is the message with one hop less, so there was one to spend.\<close>

lemma station_added:
  assumes "codec_ok cd" and "node_inv cr cd (st_node s)" and "arrives nl raw s"
    and "sendable cr cd i uuid chat payload" and "accepts i uuid s"
    and "env_Marshal cd (chat_env cr uuid h i payload) = Some raw"
    and "sendq (n_mgr (st_node s)) k = Some q" and "sendq (n_mgr (st_after cr cd nl s)) k = Some (q @ [f])"
  shows "h > 1 \<and> env_Marshal cd (chat_env cr uuid (h - 1) i payload) = Some f"
proof -
  have hop: "HopCount (chat_env cr uuid h i payload) = h" by (simp add: chat_env_def frame_simps)
  obtain e m where em: "n_mgr (st_after cr cd nl s) = snd (relay cd (st_rt s) (st_from s) (chat_env cr uuid h i payload) e m)"
    "getPeers e = peerHandles" "\<And>k. sendq m k = sendq (n_mgr (st_node s)) k"
    using station_relays [OF assms(1-6)] by blast
  show ?thesis
    using relay_adds [OF em(2), of m k q cd "st_rt s" "st_from s" "chat_env cr uuid h i payload" f] em(1,3) assms(7,8)
    by (simp add: chat_env_hops hop)
qed

text \<open>
  Along a path every station delivers the line, and a station with hops left and no more peers than the
  fanout passes it on to its next peer.
\<close>

definition passes :: "crypto \<Rightarrow> 'r codec \<Rightarrow> ('h, 'c) noise_lib \<Rightarrow> bytes \<Rightarrow> 'c Station \<Rightarrow> bool" where
  "passes cr cd nl raw s \<longleftrightarrow>
     (case sendq (n_mgr (st_node s)) (st_to s) of
        None \<Rightarrow> False | Some q \<Rightarrow> sendq (n_mgr (st_after cr cd nl s)) (st_to s) = Some (q @ [raw]))"

lemma path_delivers:
  assumes "codec_ok cd" and "sendable cr cd i uuid chat payload" and "on_path cr cd nl raw ss"
    and "\<forall>s \<in> set ss. node_inv cr cd (st_node s) \<and> accepts i uuid s"
    and "env_Marshal cd (chat_env cr uuid h i payload) = Some raw" and "j < length ss"
  shows "st_hub (st_after cr cd nl (ss ! j)) = st_hub (st_node (ss ! j)) @
      [\<lparr>bm_from = None, bm_text = chat_line (chat_Nick chat) (chat_Text chat), bm_system = True\<rparr>]"
    "passes_on (ss ! j) \<Longrightarrow> Suc j < unat h \<Longrightarrow>
       env_Marshal cd (chat_env cr uuid (h - of_nat (Suc j)) i payload) = Some raw' \<Longrightarrow> passes cr cd nl raw' (ss ! j)"
proof -
  have "st_hub (st_after cr cd nl (ss ! j)) = st_hub (st_node (ss ! j)) @
      [\<lparr>bm_from = None, bm_text = chat_line (chat_Nick chat) (chat_Text chat), bm_system = True\<rparr>] \<and>
    (passes_on (ss ! j) \<longrightarrow> Suc j < unat h \<longrightarrow>
       env_Marshal cd (chat_env cr uuid (h - of_nat (Suc j)) i payload) = Some raw' \<longrightarrow> passes cr cd nl raw' (ss ! j))"
    using assms(3-6)
  proof (induction ss arbitrary: raw h j)
    case (Cons s ss)
    have arr: "arrives nl raw s" using Cons.prems(1) by (cases ss) auto
    have s: "node_inv cr cd (st_node s)" "accepts i uuid s" using Cons.prems(2) by auto
    show ?case
    proof (cases j)
      case 0
      have "passes cr cd nl raw' s" if "passes_on s" "1 < unat h" "env_Marshal cd (chat_env cr uuid (h - 1) i payload) = Some raw'"
        using station_forwards [OF assms(1) s(1) arr assms(2) s(2) that(1) Cons.prems(3) _ that(3)] that(2)
        by (auto simp: passes_def word_less_nat_alt)
      then show ?thesis
        using 0 station_delivers [OF assms(1) s(1) arr assms(2) s(2) Cons.prems(3)] by simp
    next
      case (Suc j')
      then obtain s' ss' where ss: "ss = s' # ss'" using Cons.prems(4) by (cases ss) auto
      obtain q q' where q: "sendq (n_mgr (st_node s)) (st_to s) = Some q" "sendq (n_mgr (st_after cr cd nl s)) (st_to s) = Some q'"
        "q' \<noteq> []" "butlast q' = q" "on_path cr cd nl (last q') ss"
        using Cons.prems(1) ss by (auto split: option.splits)
      then have "q' = q @ [last q']" by (metis append_butlast_last_id)
      then have nxt: "h > 1" "env_Marshal cd (chat_env cr uuid (h - 1) i payload) = Some (last q')"
        using station_added [OF assms(1) s(1) arr assms(2) s(2) Cons.prems(3) q(1), of "last q'"] q(2) by simp_all
      from nxt(1) have "unat (h - 1) = unat h - 1" by (intro unat_minus_one) auto
      then have fewer: "Suc j' < unat (h - 1)" if "Suc j < unat h" using that Suc by simp
      have hops: "h - 1 - of_nat (Suc j') = h - of_nat (Suc j)" by (simp add: Suc algebra_simps)
      have "\<forall>s \<in> set ss. node_inv cr cd (st_node s) \<and> accepts i uuid s" "j' < length ss"
        using Cons.prems(2,4) Suc by simp_all
      from Cons.IH [OF q(5) this(1) nxt(2) this(2), unfolded hops] fewer show ?thesis unfolding Suc nth_Cons_Suc by blast
    qed
  qed simp
  then show "st_hub (st_after cr cd nl (ss ! j)) = st_hub (st_node (ss ! j)) @
      [\<lparr>bm_from = None, bm_text = chat_line (chat_Nick chat) (chat_Text chat), bm_system = True\<rparr>]"
    "passes_on (ss ! j) \<Longrightarrow> Suc j < unat h \<Longrightarrow>
       env_Marshal cd (chat_env cr uuid (h - of_nat (Suc j)) i payload) = Some raw' \<Longrightarrow> passes cr cd nl raw' (ss ! j)"
    by blast+
qed

end
