(* ===== verification/Wire.thy ===== *)
theory Wire
  imports Composition
begin

text \<open>
  The typing of what a node puts on the wire: in every reachable state, every frame in the send queue of a
  connected peer decodes to an envelope of one of the kinds a node may send, signed under the key its sender
  identifier names.
\<close>

section \<open>Kinds of outgoing envelopes\<close>

definition signed_by :: "crypto \<Rightarrow> Envelope \<Rightarrow> bytes \<Rightarrow> bool" where
  "signed_by cr env pub \<longleftrightarrow> node_id_of cr pub = SenderId env \<and> VerifyEnvelope cr env pub"

text \<open>A peer exchange of the node itself, for the peer only.\<close>

definition own_exchange :: "crypto \<Rightarrow> 'r codec \<Rightarrow> Identity \<Rightarrow> Envelope \<Rightarrow> bool" where
  "own_exchange cr cd i env \<longleftrightarrow> MsgType env = MsgTypePeerExchange \<and> signed_by cr env (PublicKey i) \<and> HopCount env = 1 \<and>
     (case px_Unmarshal cd (Payload env) of None \<Rightarrow> False | Some infos \<Rightarrow> infos \<noteq> [])"

text \<open>A chat message of the node itself.\<close>

definition own_chat :: "crypto \<Rightarrow> 'r codec \<Rightarrow> Identity \<Rightarrow> Envelope \<Rightarrow> bool" where
  "own_chat cr cd i env \<longleftrightarrow> MsgType env = MsgTypeChat \<and> signed_by cr env (PublicKey i) \<and>
     chat_Unmarshal cd (Payload env) \<noteq> None"

text \<open>A message of any sender that is on its way: within the limits, and never one of a single connection.\<close>

definition relayed :: "crypto \<Rightarrow> Envelope \<Rightarrow> bool" where
  "relayed cr env \<longleftrightarrow> well_formed env \<and> (\<exists>pub. signed_by cr env pub) \<and> HopCount env \<ge> 1 \<and>
     MsgType env \<notin> {MsgTypePeerHello, MsgTypePeerHelloAck, MsgTypePeerExchange, MsgTypeKeepalive}"

definition wire_typed :: "crypto \<Rightarrow> 'r codec \<Rightarrow> Identity \<Rightarrow> bytes \<Rightarrow> bool" where
  "wire_typed cr cd i raw =
     (case env_Unmarshal cd raw of
        None \<Rightarrow> False
      | Some env \<Rightarrow> own_exchange cr cd i env \<or> own_chat cr cd i env \<or> relayed cr env)"

section \<open>Queues\<close>

definition queues_all :: "(bytes \<Rightarrow> bool) \<Rightarrow> 'c Manager \<Rightarrow> bool" where
  "queues_all P m \<longleftrightarrow> (\<forall>k p. fmlookup (m_peers m) k = Some p \<longrightarrow> list_all P (sendCh p))"

lemma queues_cong: "m_peers m' = m_peers m \<Longrightarrow> queues_all P m' = queues_all P m"
  by (simp add: queues_all_def)

lemma queues_upd:
  "queues_all P m \<Longrightarrow> list_all P (sendCh p) \<Longrightarrow> queues_all P (m\<lparr>m_peers := fmupd k p (m_peers m)\<rparr>)"
  by (simp add: queues_all_def)

lemma queues_map:
  "queues_all P m \<Longrightarrow> (\<And>p. sendCh (f p) = sendCh p) \<Longrightarrow> queues_all P (m\<lparr>m_peers := fmmap f (m_peers m)\<rparr>)"
  by (auto simp: queues_all_def)

lemma queues_peer: "queues_all P m \<Longrightarrow> fmlookup (m_peers m) k = Some p \<Longrightarrow> list_all P (sendCh p)"
  by (simp add: queues_all_def)

lemma queues_send: "queues_all P m \<Longrightarrow> P raw \<Longrightarrow> queues_all P (snd (peer_send k raw m))"
  using queues_peer [of P m k]
  by (auto simp: peer_send_def SendRaw_def split_beta queues_upd split: option.splits)

lemma queues_send_each:
  assumes "queues_all P m" and "P raw" and "\<And>p. p \<in> set ps \<Longrightarrow> ph_Send p = peer_send (ph_NodeID p)"
  shows "queues_all P (snd (send_each raw ps m))"
  using assms
proof (induction ps arbitrary: m)
  case (Cons p ps)
  from queues_send [OF Cons.prems(1,2)] have "queues_all P (snd (ph_Send p raw m))" using Cons.prems(3) by simp
  from Cons.IH [OF this] Cons.prems show ?case by (simp add: split_beta Let_def)
qed simp

lemma queues_relay:
  assumes "queues_all P m" and "getPeers e = peerHandles"
    and "\<And>raw. HopCount env > 1 \<Longrightarrow> env_Marshal cd (env\<lparr>HopCount := HopCount env - 1\<rparr>) = Some raw \<Longrightarrow> P raw"
  shows "queues_all P (snd (relay cd rt x env e m))"
proof -
  have "queues_all P (snd (send_each raw (forward_set rt x e m) m))" if "P raw" for raw
    using forward_set_facts(2) [of rt x e m] assms(1,2) that peerHandles_send by (intro queues_send_each) auto
  then show ?thesis
    using assms(1,3) by (auto simp: relay_def forwardTo_eq Let_def split_beta not_le split: option.splits)
qed

lemma deliver_peers:
  assumes "eng_inv cr cd e"
  shows "m_peers (snd (deliver env (accept_state cr' rt env e) m)) = m_peers m"
    "getPeers (fst (deliver env (accept_state cr' rt env e) m)) = peerHandles"
  using assms by (auto simp: deliver_def accept_state_def eng_inv_def chat_handler_def split: option.splits if_splits)

lemma queues_incoming:
  assumes "queues_all P m" and "eng_inv cr cd e"
    and "\<And>raw. admitted cr rt env e \<Longrightarrow> HopCount env > 1 \<Longrightarrow>
      env_Marshal cd (env\<lparr>HopCount := HopCount env - 1\<rparr>) = Some raw \<Longrightarrow> P raw"
  shows "queues_all P (snd (HandleIncoming cr cd rt x env e m))"
proof (cases "admitted cr rt env e")
  case True
  note d = deliver_peers [OF assms(2), of env cr rt m]
  have "queues_all P (snd (relay cd rt x env (fst (deliver env (accept_state cr rt env e) m))
      (snd (deliver env (accept_state cr rt env e) m))))"
    using assms(1,3) True d by (intro queues_relay) (simp_all add: queues_cong [OF d(1)])
  then show ?thesis by (simp add: HandleIncoming_admitted [OF True] split_beta)
next
  case False
  then show ?thesis using HandleIncoming_refused [OF False, of cd x m] assms(1) by auto
qed

section \<open>What is sent is typed\<close>

lemma hop_signed: "signed_by cr (env\<lparr>HopCount := h\<rparr>) pub = signed_by cr env pub"
  by (simp add: signed_by_def VerifyEnvelope_def EnvelopeSignData_def)

lemma wire_relayed:
  assumes "codec_ok cd" and "admitted cr rt env e" and "keys_bound cr (eng_KeyRing e)"
    and "MsgType env \<notin> {MsgTypePeerHello, MsgTypePeerHelloAck, MsgTypePeerExchange, MsgTypeKeepalive}"
    and "HopCount env > 1" and "env_Marshal cd (env\<lparr>HopCount := HopCount env - 1\<rparr>) = Some raw"
  shows "wire_typed cr cd i raw"
proof -
  obtain entry where v: "well_formed env" "fst (lookup_or_learn cr env (eng_KeyRing e)) = Some entry"
    "VerifyEnvelope cr env (PubKey entry)"
    using assms(2) by (auto simp: admitted_def verified_by_def)
  have "signed_by cr env (PubKey entry)"
    using keys_bound_lookup [OF assms(3) v(2)] v(3) by (simp add: signed_by_def)
  moreover have "HopCount env - 1 \<ge> 1"
  proof -
    have "HopCount env \<noteq> 0" using assms(5) by auto
    then show ?thesis using assms(5) unat_minus_one [of "HopCount env"] by (simp add: word_le_nat_alt word_less_nat_alt)
  qed
  ultimately have "relayed cr (env\<lparr>HopCount := HopCount env - 1\<rparr>)"
    using v(1) assms(4) by (auto simp: relayed_def hop_signed well_formed_def)
  then show ?thesis using codec_okD(1) [OF assms(1,6)] by (simp add: wire_typed_def)
qed

lemma own_signed:
  assumes "identity_ok cr i" and "SenderId env = NodeID i"
  shows "signed_by cr (SignEnvelope cr env (PrivateKey i)) (PublicKey i)"
  using verify_signed [OF identity_okD(1) [OF assms(1)], of env] identity_okD [OF assms(1)] assms(2)
  by (simp add: signed_by_def frame_simps)

lemma queues_exchange:
  assumes "codec_ok cd" and "identity_ok cr (m_id m)" and "queues_all (wire_typed cr cd (m_id m)) m"
  shows "queues_all (wire_typed cr cd (m_id m)) (sendPeerExchangeTo cr cd uuid ks now k m)"
proof -
  let ?infos = "buildPeerInfoList ks now k m"
  let ?env = "\<lambda>payload. SignEnvelope cr (zero_Envelope\<lparr>MessageId := uuid, SenderId := NodeID (m_id m),
      MsgType := MsgTypePeerExchange, HopCount := 1, Payload := payload\<rparr>) (PrivateKey (m_id m))"
  have "wire_typed cr cd (m_id m) raw"
    if "?infos \<noteq> []" "px_Marshal cd ?infos = Some payload" "env_Marshal cd (?env payload) = Some raw" for payload raw
  proof -
    have "own_exchange cr cd (m_id m) (?env payload)"
      using own_signed [OF assms(2)] codec_okD(4) [OF assms(1) that(2)] that(1)
      by (simp add: own_exchange_def frame_simps)
    then show ?thesis using codec_okD(1) [OF assms(1) that(3)] by (simp add: wire_typed_def)
  qed
  then show ?thesis
    using assms(3) by (auto simp: sendPeerExchangeTo_def Let_def intro!: queues_send split: option.splits)
qed

lemma queues_exchange_tick:
  assumes "codec_ok cd" and "identity_ok cr (m_id m)" and "queues_all (wire_typed cr cd (m_id m)) m"
  shows "queues_all (wire_typed cr cd (m_id m)) (exchange_tick cr cd uuids orders now ks m)"
proof -
  have "queues_all (wire_typed cr cd (m_id m))
      (fold (\<lambda>p. sendPeerExchangeTo cr cd (uuids (p_NodeID p)) (orders (p_NodeID p)) now (p_NodeID p)) ps m)"
    for ps :: "'b Peer list"
    using assms
  proof (induction ps arbitrary: m)
    case (Cons p ps)
    let ?m = "sendPeerExchangeTo cr cd (uuids (p_NodeID p)) (orders (p_NodeID p)) now (p_NodeID p) m"
    have "m_id ?m = m_id m" by (simp add: exchange_frame)
    then show ?case
      using Cons.IH [of ?m] queues_exchange [OF Cons.prems] Cons.prems by simp
  qed simp
  then show ?thesis by (simp add: exchange_tick_def)
qed

lemma queues_connected:
  assumes "codec_ok cd" and "identity_ok cr (m_id (n_mgr n))" and "queues_all (wire_typed cr cd (m_id (n_mgr n))) (n_mgr n)"
  shows "queues_all (wire_typed cr cd (m_id (n_mgr n))) (n_mgr (onPeerConnected cr cd ux ks now p n))"
proof -
  obtain m1 where m1: "n_mgr (onPeerConnected cr cd ux ks now p n) = sendPeerExchangeTo cr cd ux ks now (p_NodeID p) m1"
    "m_peers m1 = m_peers (n_mgr n)" "m_id m1 = m_id (n_mgr n)"
    by (simp add: onPeerConnected_def Let_def)
  show ?thesis
    unfolding m1(1) using queues_exchange [OF assms(1), of cr m1] assms(2,3) by (simp add: m1(3) queues_cong [OF m1(2)])
qed

lemma queues_fanout:
  assumes "codec_ok cd" and "identity_ok cr (m_id (n_mgr n))" and "queues_all (wire_typed cr cd (m_id (n_mgr n))) (n_mgr n)"
    and "eng_inv cr cd (n_eng n)"
  shows "queues_all (wire_typed cr cd (m_id (n_mgr n))) (n_mgr (fanout_iter cr cd rt uuid now n))"
proof (cases "remote_recv (m_hub (n_mgr n))")
  case (Some x)
  obtain msg hub' where x: "x = (msg, hub')" by fastforce
  let ?m = "(n_mgr n)\<lparr>m_hub := hub'\<rparr>" and ?i = "m_id (n_mgr n)"
  let ?chat = "\<lparr>chat_Nick = rm_Nick msg, chat_Text = rm_Text msg, chat_Timestamp = word_of_int (Unix now)\<rparr>"
  have q: "queues_all (wire_typed cr cd ?i) ?m" using assms(3) by (simp add: queues_all_def)
  have typed: "wire_typed cr cd ?i raw"
    if "chat_Marshal cd ?chat = Some payload" "env_Marshal cd (chat_env cr uuid h ?i payload) = Some raw" for payload h raw
  proof -
    have "signed_by cr (chat_env cr uuid h ?i payload) (PublicKey ?i)"
      unfolding chat_env_def by (rule own_signed [OF assms(2)]) simp
    then have "own_chat cr cd ?i (chat_env cr uuid h ?i payload)"
      using codec_okD(3) [OF assms(1) that(1)] by (simp add: own_chat_def) (simp add: chat_env_def frame_simps)
    then show ?thesis using codec_okD(1) [OF assms(1) that(2)] by (simp add: wire_typed_def)
  qed
  have "queues_all (wire_typed cr cd ?i) (snd (snd (Broadcast cd rt (chat_env cr uuid h ?i payload) (n_eng n) ?m)))"
    if c: "chat_Marshal cd ?chat = Some payload" for payload h
  proof -
    have "queues_all (wire_typed cr cd ?i) (snd (send_each raw (peerHandles ks ?m) ?m))"
      if "env_Marshal cd (chat_env cr uuid h ?i payload) = Some raw" for raw ks
      using typed [OF c that] by (rule queues_send_each [OF q]) (rule peerHandles_send)
    then show ?thesis
      using q assms(4) by (auto simp: Broadcast_def Let_def split_beta eng_inv_def split: option.splits)
  qed
  then show ?thesis
    using Some x q by (auto simp: fanout_iter_def Let_def split_beta split: option.splits)
qed (use assms(3) in \<open>simp add: fanout_iter_def Let_def\<close>)

section \<open>Receiving and sending\<close>

lemma dispatch_queue: "sendCh (snd (dispatch cr cd now data p)) = sendCh p"
  by (auto simp: dispatch_def isDuplicate_def split: option.splits)

lemma dispatch_kind:
  "fst (dispatch cr cd now data p) = CallGossip sid env \<Longrightarrow>
     MsgType env \<notin> {MsgTypePeerHello, MsgTypePeerHelloAck, MsgTypePeerExchange, MsgTypeKeepalive}"
  by (auto simp: dispatch_def handlePeerExchange_def split: option.splits prod.splits if_splits bool.splits)

lemma recv_iter_cases:
  assumes "recv_iter cr cd nl now p = (res, act, p1)"
  obtains "act = NoAction" "p1 = p"
  | data nc where "dispatch cr cd now data (p\<lparr>p_conn := nc\<rparr>) = (act, p1)"
  using assms by (auto simp: recv_iter_def split_beta split: sum.splits intro: that)

lemma recv_queue:
  assumes "recv_iter cr cd nl now p = (res, act, p1)"
  shows "sendCh p1 = sendCh p"
  using assms
proof (cases rule: recv_iter_cases)
  case (2 data nc)
  then show ?thesis using dispatch_queue [of cr cd now data "p\<lparr>p_conn := nc\<rparr>"] by simp
qed simp

lemma recv_kind:
  assumes "recv_iter cr cd nl now p = (res, CallGossip sid env, p1)"
  shows "MsgType env \<notin> {MsgTypePeerHello, MsgTypePeerHelloAck, MsgTypePeerExchange, MsgTypeKeepalive}"
  using assms
proof (cases rule: recv_iter_cases)
  case (2 data nc)
  have "fst (dispatch cr cd now data (p\<lparr>p_conn := nc\<rparr>)) = CallGossip sid env" by (simp only: 2 fst_conv)
  then show ?thesis by (rule dispatch_kind)
qed simp

lemma queues_set_peer:
  "queues_all P (n_mgr n) \<Longrightarrow> list_all P (sendCh p) \<Longrightarrow> queues_all P (n_mgr (set_peer k p n))"
  by (simp add: set_peer_def queues_upd)

lemma queues_gossip:
  assumes "codec_ok cd" and "eng_inv cr cd (n_eng n)" and "queues_all (wire_typed cr cd i) (n_mgr n)"
    and "MsgType env \<notin> {MsgTypePeerHello, MsgTypePeerHelloAck, MsgTypePeerExchange, MsgTypeKeepalive}"
  shows "queues_all (wire_typed cr cd i) (n_mgr (gossipMessageHandler cr cd rt sid env n))"
proof -
  have k: "keys_bound cr (eng_KeyRing (n_eng n))" using assms(2) by (simp only: eng_inv_def)
  have "queues_all (wire_typed cr cd i) (snd (HandleIncoming cr cd rt sid env (n_eng n) (n_mgr n)))"
    by (rule queues_incoming [OF assms(3,2)]) (rule wire_relayed [OF assms(1) _ k assms(4)])
  then show ?thesis by (simp add: gossipMessageHandler_def split_beta)
qed

lemma queues_action:
  assumes "codec_ok cd" and "eng_inv cr cd (n_eng n)" and "queues_all (wire_typed cr cd i) (n_mgr n)"
    and "\<And>sid env. act = CallGossip sid env \<Longrightarrow>
       MsgType env \<notin> {MsgTypePeerHello, MsgTypePeerHelloAck, MsgTypePeerExchange, MsgTypeKeepalive}"
  shows "queues_all (wire_typed cr cd i) (n_mgr (run_action cr cd rt act n))"
proof (cases act)
  case (CallPeerExchange sid infos)
  have "m_peers (n_mgr (mergeDiscoveredPeers cr infos n)) = m_peers (n_mgr n)"
    by (simp add: mergeDiscoveredPeers_def Let_def split_beta)
  with CallPeerExchange assms(3) show ?thesis by (simp add: action_defs queues_all_def)
next
  case (CallGossip sid env)
  show ?thesis unfolding CallGossip run_action_def recv_action.case
    by (rule queues_gossip [OF assms(1-3) assms(4) [OF CallGossip]])
qed (use assms(3) in \<open>simp add: action_defs\<close>)

lemma queues_receive:
  assumes "codec_ok cd" and "eng_inv cr cd (n_eng n)" and "queues_all (wire_typed cr cd i) (n_mgr n)"
  shows "queues_all (wire_typed cr cd i) (n_mgr (receive cr cd nl rt now k n))"
proof (cases "fmlookup (m_peers (n_mgr n)) k")
  case (Some p)
  obtain res act p1 where r: "recv_iter cr cd nl now p = (res, act, p1)" by (metis prod_cases3)
  have p1: "list_all (wire_typed cr cd i) (sendCh p1)"
    using queues_peer [OF assms(3) Some] recv_queue [OF r] by simp
  have "eng_inv cr cd (n_eng (set_peer k p1 n))" using assms(2) by (simp add: set_peer_def)
  moreover have "MsgType env \<notin> {MsgTypePeerHello, MsgTypePeerHelloAck, MsgTypePeerExchange, MsgTypeKeepalive}"
    if "act = CallGossip sid env" for sid env
    using r unfolding that by (rule recv_kind)
  ultimately have run: "queues_all (wire_typed cr cd i) (n_mgr (run_action cr cd rt act (set_peer k p1 n)))"
    using queues_set_peer [OF assms(3) p1] by (intro queues_action [OF assms(1)])
  show ?thesis
    using Some r run queues_set_peer [OF assms(3), of "peer_Close p1"] p1
    by (simp add: receive_def peer_Close_def)
qed (use assms(3) in \<open>simp add: receive_def\<close>)

lemma send_queue:
  assumes "send_iter cd nl c p = Inr (Some p1)" and "list_all P (sendCh p)"
  shows "list_all P (sendCh p1)"
  using assms
  by (auto simp: send_iter_def sendWithDeadline_def writeKeepalive_def
      split: send_case.splits list.splits sum.splits option.splits if_splits)

lemma queues_transmit:
  assumes "queues_all P (n_mgr n)"
  shows "queues_all P (n_mgr (transmit cd nl c k n))"
proof (cases "fmlookup (m_peers (n_mgr n)) k")
  case (Some p)
  note p = queues_peer [OF assms Some]
  have "list_all P (sendCh (peer_Close p))" using p by (simp add: peer_Close_def)
  then show ?thesis
    using Some assms queues_set_peer [OF assms send_queue [OF _ p]]
    by (auto simp: transmit_def queues_set_peer split: sum.splits option.splits)
qed (use assms in \<open>simp add: transmit_def\<close>)

lemma queues_arrive: "queues_all P (n_mgr n) \<Longrightarrow> queues_all P (n_mgr (arrive k b n))"
  by (auto simp: arrive_def queues_set_peer queues_peer split: option.splits)

section \<open>Every step\<close>

lemma queues_add: "queues_all P m \<Longrightarrow> sendCh p = [] \<Longrightarrow> queues_all P (snd (addPeer p m))"
  by (auto simp: addPeer_def queues_upd)

lemma queues_remove: "queues_all P m \<Longrightarrow> queues_all P (removePeer k m)"
  by (simp add: queues_all_def removePeer_def)

lemma peers_unchanged:
  "m_peers (snd (tryDiscoveryDials ks draws now m)) = m_peers m"
  "m_peers (dial_finished cd failed now r m) = m_peers m"
  "m_peers (run_save cd j m) = m_peers m"
  by (auto simp: tryDiscoveryDials_def dial_finished_def run_save_def Let_def fold_dialing saveKnownPeer_frame
      split: option.splits list.splits)

lemma queues_own:
  assumes "node_own cr cd nl n n'" and "codec_ok cd" and "eng_inv cr cd (n_eng n)"
    and "identity_ok cr (m_id (n_mgr n))" and "queues_all (wire_typed cr cd (m_id (n_mgr n))) (n_mgr n)"
  shows "queues_all (wire_typed cr cd (m_id (n_mgr n))) (n_mgr n')"
  using assms(1)
proof (cases rule: node_own.cases)
  case (Admit uh cfg q p)
  with ExchangeHello_peer [OF Admit(2)] assms(5) show ?thesis by (simp add: queues_add)
next
  case (Forget k p now)
  with assms(5) queues_peer [OF assms(5) Forget(2)] show ?thesis by (simp add: queues_set_peer cleanupSeen_def)
next
  case (WriteTimeout d)
  then show ?thesis
    using queues_map [OF assms(5), of "\<lambda>p. p\<lparr>writeTimeout := d\<rparr>"] by (simp add: SetPeerWriteTimeout_def queues_all_def)
next
  case (Timeouts idle keepalive)
  then show ?thesis using assms(5) by (simp add: SetPeerTimeouts_def queues_all_def)
next
  case (Listen addr)
  then show ?thesis using assms(5) by (simp add: queues_all_def)
next
  case Halt
  then show ?thesis
    using assms(5) queues_map [OF assms(5), of peer_Close] by (auto simp: mgr_Stop_def peer_Close_def queues_all_def)
qed (use assms(5) in \<open>auto simp: queues_connected [OF assms(2,4)] queues_receive [OF assms(2,3)] queues_transmit queues_arrive
      queues_remove queues_fanout [OF assms(2,4) _ assms(3)] queues_exchange_tick [OF assms(2,4)]
      queues_cong [OF peers_unchanged(1)] queues_cong [OF peers_unchanged(2)] queues_cong [OF peers_unchanged(3)]\<close>)

definition typed_node :: "crypto \<Rightarrow> PeerRecord codec \<Rightarrow> Identity \<Rightarrow> 'c Node \<Rightarrow> bool" where
  "typed_node cr cd i n \<longleftrightarrow> node_inv cr cd n \<and> m_id (n_mgr n) = i \<and> queues_all (wire_typed cr cd i) (n_mgr n)"

lemma typed_step:
  assumes "node_step cr cd nl n n'" and "codec_ok cd" and "identity_ok cr i" and "typed_node cr cd i n"
  shows "typed_node cr cd i n'"
  using assms(1)
proof (cases rule: node_step.cases)
  case Own
  have e: "eng_inv cr cd (n_eng n)" and i: "m_id (n_mgr n) = i" using assms(4) by (simp_all add: typed_node_def node_inv_def)
  have "m_id (n_mgr n') = i" using node_own_effect [OF Own e] i by (simp add: node_effect_def)
  then show ?thesis
    using node_own_inv [OF Own] queues_own [OF Own assms(2) e] assms(3,4) i by (simp add: typed_node_def)
next
  case (HubStep op h)
  then show ?thesis
    using node_step_inv [OF assms(1)] assms(4) by (simp add: typed_node_def queues_all_def)
qed

lemma typed_reach:
  assumes "node_reach cr cd nl n0 n" and "codec_ok cd" and "identity_ok cr i" and "typed_node cr cd i n0"
  shows "typed_node cr cd i n"
  using assms by (induction rule: node_reach.induct) (auto intro: typed_step)

lemma typed_start:
  assumes "NewManager cr cd ks cfg i hub st = Some n" and "identity_ok cr i" and "hub_inv (SetRemoteSend hub)"
  shows "typed_node cr cd i n"
proof -
  have "m_peers (n_mgr n) = fmempty" "m_id (n_mgr n) = i"
    using assms(1) by (auto simp: NewManager_def make_manager_def loadKnownPeers_def Let_def split: option.splits)
  then show ?thesis using NewManager_inv [OF assms] by (simp add: typed_node_def queues_all_def)
qed

section \<open>Properties\<close>

text \<open>
  C6. The type of what a node sends. In every reachable state, each frame waiting in the send queue
  of a connected peer decodes to an envelope that is one of three kinds: a peer exchange of the node
  itself, sent for one hop and with a non-empty list that its receiver can decode; a chat message of
  the node itself, with a chat payload its receiver can decode; or a message being relayed, which is
  within the size limits, keeps at least one hop, carries a signature that verifies under a key
  hashing to its sender's identifier, and is never a hello, a peer exchange or a keepalive, the kinds
  that concern a single connection. The node's own frames are signed with its own key under its own
  identifier.
\<close>

theorem queued_frames_typed:
  assumes "codec_ok cd" and "NewManager cr cd ks cfg i hub st = Some n0" and "identity_ok cr i"
    and "hub_inv (SetRemoteSend hub)" and "node_reach cr cd nl n0 n"
    and "fmlookup (m_peers (n_mgr n)) k = Some p" and "raw \<in> set (sendCh p)"
  shows "wire_typed cr cd i raw"
proof -
  have "queues_all (wire_typed cr cd i) (n_mgr n)"
    using typed_reach [OF assms(5,1,3) typed_start [OF assms(2-4)]] by (simp add: typed_node_def)
  from queues_peer [OF this assms(6)] assms(7) show ?thesis by (simp add: list_all_iff)
qed

section \<open>Example\<close>

definition demo_wire_cfg :: NetConfig where
  "demo_wire_cfg = demo_net_cfg\<lparr>cfg_AdvertiseAddr := ''a:1''\<rparr>"

definition demo_self :: PeerInfo where
  "demo_self = \<lparr>info_NodeId = NodeID (demo_id 2), info_Addr = ''a:1'', info_Reachable = True,
     info_Ed25519Pubkey = PublicKey (demo_id 2), info_LastSeen = word_of_int (Unix 0)\<rparr>"

definition demo_px_env :: Envelope where
  "demo_px_env = SignEnvelope demo_crypto (zero_Envelope\<lparr>MessageId := ''u5'', SenderId := NodeID (demo_id 2),
     MsgType := MsgTypePeerExchange, HopCount := 1, Payload := [8]\<rparr>) (PrivateKey (demo_id 2))"

definition demo_wire_codec :: "PeerRecord codec" where
  "demo_wire_codec = \<lparr>env_Marshal = (\<lambda>e. if e = demo_hello_a then Some [3]
       else if e = demo_hello_b then Some [4] else if e = demo_px_env then Some [7] else None),
     env_Unmarshal = (\<lambda>b. if b = [3] then Some demo_hello_a
       else if b = [4] then Some demo_hello_b else if b = [7] then Some demo_px_env else None),
     hello_Marshal = (\<lambda>h. if h = local_hello demo_cfg demo_a then Some [1]
       else if h = local_hello demo_cfg demo_b then Some [2] else None),
     hello_Unmarshal = (\<lambda>b. if b = [1] then Some (local_hello demo_cfg demo_a)
       else if b = [2] then Some (local_hello demo_cfg demo_b) else None),
     chat_Marshal = (\<lambda>_. None), chat_Unmarshal = (\<lambda>_. None),
     px_Marshal = (\<lambda>l. if l = [demo_self] then Some [8] else None),
     px_Unmarshal = (\<lambda>b. if b = [8] then Some [demo_self] else None),
     json_Marshal = (\<lambda>_. None), json_Unmarshal = (\<lambda>_. None)\<rparr>"

lemma demo_wire_codec_ok: "codec_ok demo_wire_codec"
  by (simp add: codec_ok_def demo_wire_codec_def)

lemma demo_px_env_bytes: "env_Marshal demo_wire_codec demo_px_env = Some [7]"
proof -
  have "MsgType demo_px_env \<noteq> MsgType demo_hello_a" "MsgType demo_px_env \<noteq> MsgType demo_hello_b"
    by (simp_all add: demo_px_env_def demo_hello_a_def demo_hello_b_def hello_env_def frame_simps msg_type_defs)
  then show ?thesis by (auto simp: demo_wire_codec_def)
qed

lemma demo_wire_hello_bytes:
  "hello_bytes demo_crypto demo_wire_codec ''u1'' (p_localID demo_a) MsgTypePeerHello (local_hello demo_cfg demo_a) = Some [3]"
  "hello_bytes demo_crypto demo_wire_codec ''u2'' (p_localID demo_b) MsgTypePeerHelloAck (local_hello demo_cfg demo_b) = Some [4]"
  using demo_hellos_differ
  by (simp_all add: hello_bytes_def demo_wire_codec_def demo_a_def demo_b_def newPeer_def
      flip: demo_hello_a_def demo_hello_b_def)

lemma demo_accepts:
  "\<exists>q p. ExchangeHello demo_crypto demo_wire_codec demo_noise ''u2'' demo_cfg q = Inr p \<and> sendCh q = [] \<and>
     p_NodeID p = NodeID (demo_id 1)"
proof -
  have "\<exists>wa wb a' b'.
    ExchangeHello demo_crypto demo_wire_codec demo_noise ''u1'' demo_cfg
      (demo_a\<lparr>p_conn := (p_conn demo_a)\<lparr>nc_in := wb\<rparr>\<rparr>) = Inr a' \<and>
    ExchangeHello demo_crypto demo_wire_codec demo_noise ''u2'' demo_cfg
      (demo_b\<lparr>p_conn := (p_conn demo_b)\<lparr>nc_in := wa\<rparr>\<rparr>) = Inr b' \<and>
    nc_out (p_conn a') = nc_out (p_conn demo_a) @ wa \<and> nc_out (p_conn b') = nc_out (p_conn demo_b) @ wb \<and>
    p_NodeID a' = NodeID (p_localID demo_b) \<and> edPubKey a' = PublicKey (p_localID demo_b) \<and>
    remoteReachable a' = hc_Reachable demo_cfg \<and> remoteListenAddr a' = hc_ListenAddr demo_cfg \<and>
    p_NodeID b' = NodeID (p_localID demo_a) \<and> edPubKey b' = PublicKey (p_localID demo_a) \<and>
    remoteReachable b' = hc_Reachable demo_cfg \<and> remoteListenAddr b' = hc_ListenAddr demo_cfg"
    by (rule hello_exchange_run [OF demo_paired demo_wire_codec_ok _ _ _ _ _ _ _ _ _ _ _ _ demo_wire_hello_bytes])
      (simp_all add: demo_peers demo_id_ok new_noiseConn_def MaxPayload_def)
  then obtain wa b' where "ExchangeHello demo_crypto demo_wire_codec demo_noise ''u2'' demo_cfg
      (demo_b\<lparr>p_conn := (p_conn demo_b)\<lparr>nc_in := wa\<rparr>\<rparr>) = Inr b'" "p_NodeID b' = NodeID (demo_id 1)"
    by (auto simp: demo_peers)
  moreover have "sendCh (demo_b\<lparr>p_conn := (p_conn demo_b)\<lparr>nc_in := wa\<rparr>\<rparr>) = []" by (simp add: demo_b_def newPeer_def)
  ultimately show ?thesis by blast
qed

theorem queued_frames_typed_witness:
  "\<exists>(n0 :: nat Node) n p.
     NewManager demo_crypto demo_wire_codec [] demo_wire_cfg (demo_id 2) (NewHub ''n'') None = Some n0 \<and>
     node_reach demo_crypto demo_wire_codec demo_noise n0 n \<and>
     fmlookup (m_peers (n_mgr n)) (NodeID (demo_id 1)) = Some p \<and> [7] \<in> set (sendCh p) \<and>
     wire_typed demo_crypto demo_wire_codec (demo_id 2) [7]"
proof -
  obtain n0 :: "nat Node" where n0:
    "NewManager demo_crypto demo_wire_codec [] demo_wire_cfg (demo_id 2) (NewHub ''n'') None = Some n0"
    by (simp add: NewManager_def make_manager_def EdToNoiseKeypair_def EdPublicToX25519_def demo_crypto_def Let_def)
  have m0: "m_peers (n_mgr n0) = fmempty" "m_id (n_mgr n0) = demo_id 2" "m_cfg (n_mgr n0) = demo_wire_cfg"
    using n0 by (auto simp: NewManager_def make_manager_def loadKnownPeers_def Let_def split: option.splits)
  obtain q p where p: "ExchangeHello demo_crypto demo_wire_codec demo_noise ''u2'' demo_cfg q = Inr p" "sendCh q = []"
    "p_NodeID p = NodeID (demo_id 1)" using demo_accepts by blast
  have sp: "sendCh p = []" using ExchangeHello_peer [OF p(1)] p(2) by simp
  let ?p = "p\<lparr>has_onPeerExchange := True, has_onGossipMessage := True\<rparr>"
  let ?n1 = "on_mgr (\<lambda>m. snd (addPeer p m)) n0"
  let ?n2 = "onPeerConnected demo_crypto demo_wire_codec ''u5'' [] 0 ?p ?n1"
  have n1: "n_mgr ?n1 = (n_mgr n0)\<lparr>m_peers := fmupd (NodeID (demo_id 1)) ?p fmempty\<rparr>"
    using m0 p(3) by (simp add: addPeer_def demo_wire_cfg_def demo_net_cfg_def fcard.rep_eq)
  then have l1: "fmlookup (m_peers (n_mgr ?n1)) (NodeID (demo_id 1)) = Some ?p" by simp
  have r: "node_reach demo_crypto demo_wire_codec demo_noise n0 ?n2"
    by (intro node_next [OF node_next [OF node_init Own [OF node_own.Admit [OF p(1,2)]]] Own [OF node_own.Greet [OF l1]]])
  have "buildPeerInfoList [] 0 (NodeID (demo_id 1)) m = [demo_self]" if "m_cfg m = demo_wire_cfg" "m_id m = demo_id 2"
    for m :: "nat Manager"
    using that by (simp add: buildPeerInfoList_def Let_def advertiseAddr_def demo_wire_cfg_def demo_self_def map_range_def
        List.map_filter_simps)
  moreover have "px_Marshal demo_wire_codec [demo_self] = Some [8]" by (simp add: demo_wire_codec_def)
  ultimately have send: "sendPeerExchangeTo demo_crypto demo_wire_codec ''u5'' [] 0 (NodeID (demo_id 1)) m =
      snd (peer_send (NodeID (demo_id 1)) [7] m)" if "m_cfg m = demo_wire_cfg" "m_id m = demo_id 2" for m :: "nat Manager"
    using that demo_px_env_bytes by (simp add: sendPeerExchangeTo_def Let_def demo_px_env_def)
  obtain m1 where m1: "n_mgr ?n2 = sendPeerExchangeTo demo_crypto demo_wire_codec ''u5'' [] 0 (p_NodeID ?p) m1"
    "m_peers m1 = m_peers (n_mgr ?n1)" "m_id m1 = demo_id 2" "m_cfg m1 = demo_wire_cfg"
    using n1 m0 by (simp add: onPeerConnected_def Let_def)
  obtain p2 where p2: "fmlookup (m_peers (n_mgr ?n2)) (NodeID (demo_id 1)) = Some p2" "[7] \<in> set (sendCh p2)"
    unfolding m1(1) using send [OF m1(4,3)] p(3) sp l1
    by (simp add: m1(2) peer_send_def SendRaw_def sendChCap_def)
  from queued_frames_typed [OF demo_wire_codec_ok n0 demo_id_ok hub_inv_New(2) r p2] n0 r p2 show ?thesis by blast
qed

end
