(* ===== verification/Dialing.thy ===== *)
theory Dialing
  imports Node
begin

text \<open>
  The life of a dial that discovery has launched: \<^verbatim>\<open>dialDiscovered\<close> of \<^verbatim>\<open>internal/transport/discovery.go\<close>, what
  it leaves in the manager in each way it can end, and what later discovery ticks make of that.
\<close>

section \<open>The dial\<close>

text \<open>
  Dialing a discovered peer. \<open>w\<close> is the case of the \<^verbatim>\<open>select\<close> after the jitter. A dial that fails is
  counted and the mark is removed; with a connection the goroutine goes on in \<^verbatim>\<open>Run\<close>, and
  \<open>dialDiscovered_done\<close> is what it does when that returns.
\<close>

definition dial_ok :: "connect_result \<Rightarrow> bool" where
  "dial_ok res = (case res of Connected _ \<Rightarrow> True | _ \<Rightarrow> False)"

definition dialDiscovered_done :: "PeerRecord codec \<Rightarrow> instant \<Rightarrow> PeerRecord \<Rightarrow> 'c Node \<Rightarrow> 'c Node" where
  "dialDiscovered_done cd now r n = n\<lparr>n_mgr := dial_finished cd False now r (n_mgr n)\<rparr>"

definition dialDiscovered ::
  "crypto \<Rightarrow> PeerRecord codec \<Rightarrow> ('h, 'c) noise_lib \<Rightarrow> string \<Rightarrow> string \<Rightarrow> node_id list \<Rightarrow> instant \<Rightarrow> wake \<Rightarrow>
     (string \<Rightarrow> bytes option) \<Rightarrow> PeerRecord \<Rightarrow> 'c Node \<Rightarrow> connect_result option \<times> 'c Node" where
  "dialDiscovered cr cd nl uh ux ks now w network r n =
     (if w \<noteq> WakeWork then (None, dialDiscovered_done cd now r n)
      else
        (case dial cr cd nl uh ux ks now (network (rec_Addr r)) n of
           (res, n1) \<Rightarrow>
             if dial_ok res then (Some res, n1)
             else (Some res, n1\<lparr>n_mgr := dial_finished cd True now r (n_mgr n1)\<rparr>)))"

section \<open>How it ends\<close>

text \<open>A connection that is not made leaves the node as it was; one that is made keeps the marks.\<close>

lemma connect_peer_failed:
  assumes "connect_peer cr cd nl uh ux ks now init s n = (res, n1)" and "\<not> dial_ok res"
  shows "n1 = n"
  using assms by (auto simp: connect_peer_def addPeer_def dial_ok_def Let_def split: sum.splits prod.splits if_splits)

lemma onPeerConnected_dialing: "m_dialing (n_mgr (onPeerConnected cr cd ux ks now p n)) = m_dialing (n_mgr n)"
  by (simp add: onPeerConnected_def sendPeerExchangeTo_def peer_send_def Let_def split_beta split: option.splits)

lemma dial_ends:
  assumes "dial cr cd nl uh ux ks now s n = (res, n1)"
  shows "\<not> dial_ok res \<Longrightarrow> n1 = n" "m_dialing (n_mgr n1) = m_dialing (n_mgr n)"
proof -
  show "n1 = n" if "\<not> dial_ok res"
    using assms that connect_peer_failed by (auto simp: dial_def split: option.splits)
  show "m_dialing (n_mgr n1) = m_dialing (n_mgr n)"
    using assms
    by (auto simp: dial_def connect_peer_def addPeer_def Let_def onPeerConnected_dialing split: option.splits sum.splits prod.splits if_splits)
qed

lemma marked_not_dialed:
  "map_flag (m_dialing m) (rec_NodeID r) \<Longrightarrow> rec_NodeID r \<notin> rec_NodeID ` set (fst (tryDiscoveryDials ks draws now m))"
  by (metis dialed_not_dialing imageE)

lemma dial_finished_unmarks: "\<not> map_flag (m_dialing (dial_finished cd failed now r m)) (rec_NodeID r)"
  by (simp add: dial_finished_def Let_def map_flag_def)

lemma dialDiscovered_done_known: "knownPeers (n_mgr (dialDiscovered_done cd now r n)) = knownPeers (n_mgr n)"
  by (simp add: dialDiscovered_done_def dial_finished_def Let_def)

section \<open>Property\<close>

text \<open>
  C26. A dial of a discovered peer settles. If it is stopped before it starts, the mark that it is being
  dialed is removed and the known peers are as before. If no connection is made, the mark is removed too, the
  failure is counted with its time, nothing else is known differently, and no discovery tick picks the peer
  again until the backoff of its failures has passed. If a connection is made, the mark stays, so that no
  tick picks the peer while the connection runs, whoever answered, and is removed when it has ended.
\<close>

theorem discovery_dial_settles:
  assumes "known_inv cr (knownPeers (n_mgr n))" and "fmlookup (knownPeers (n_mgr n)) (rec_NodeID r) = Some known"
    and "0 \<le> rec_FailCount known" and "map_flag (m_dialing (n_mgr n)) (rec_NodeID r)"
    and "dialDiscovered cr cd nl uh ux ks now w network r n = (res, n1)"
  shows "(res = None \<longleftrightarrow> w \<noteq> WakeWork) \<and>
    (res = None \<longrightarrow> knownPeers (n_mgr n1) = knownPeers (n_mgr n) \<and> \<not> map_flag (m_dialing (n_mgr n1)) (rec_NodeID r)) \<and>
    (\<forall>x. res = Some x \<and> \<not> dial_ok x \<longrightarrow>
       knownPeers (n_mgr n1) = fmupd (rec_NodeID r)
         (known\<lparr>rec_FailCount := rec_FailCount known + 1, rec_LastFail := Unix now\<rparr>) (knownPeers (n_mgr n)) \<and>
       \<not> map_flag (m_dialing (n_mgr n1)) (rec_NodeID r) \<and>
       (\<forall>ks' draws t. range_order ks' (knownPeers (n_mgr n1)) \<and>
          t < Unix now * Second + min (2 ^ nat (rec_FailCount known)) 30 * Second \<longrightarrow>
          rec_NodeID r \<notin> rec_NodeID ` set (fst (tryDiscoveryDials ks' draws t (n_mgr n1))))) \<and>
    (\<forall>x. res = Some x \<and> dial_ok x \<longrightarrow>
       (\<forall>ks' draws t. rec_NodeID r \<notin> rec_NodeID ` set (fst (tryDiscoveryDials ks' draws t (n_mgr n1)))) \<and>
       \<not> map_flag (m_dialing (n_mgr (dialDiscovered_done cd later r n1))) (rec_NodeID r))"
proof (cases "w = WakeWork")
  case False
  then show ?thesis
    using assms(5) dial_finished_unmarks [of cd False now r "n_mgr n"] dialDiscovered_done_known [of cd now r n]
    by (auto simp: dialDiscovered_def dialDiscovered_done_def)
next
  case True
  obtain x n2 where d: "dial cr cd nl uh ux ks now (network (rec_Addr r)) n = (x, n2)" by fastforce
  show ?thesis
  proof (cases "dial_ok x")
    case ok: True
    then have n1: "res = Some x" "n1 = n2" using assms(5) True d by (simp_all add: dialDiscovered_def)
    have "map_flag (m_dialing (n_mgr n1)) (rec_NodeID r)" using dial_ends(2) [OF d] assms(4) n1 by simp
    then show ?thesis
      using marked_not_dialed [of "n_mgr n1" r] dial_finished_unmarks [of cd False later r "n_mgr n1"] n1 ok True
      by (simp add: dialDiscovered_done_def)
  next
    case failed: False
    have "n2 = n" by (rule dial_ends(1) [OF d failed])
    then have n1: "res = Some x" "n_mgr n1 = dial_finished cd True now r (n_mgr n)"
      using assms(5) True d failed by (auto simp: dialDiscovered_def)
    have kp: "knownPeers (n_mgr n1) = fmupd (rec_NodeID r)
        (known\<lparr>rec_FailCount := rec_FailCount known + 1, rec_LastFail := Unix now\<rparr>) (knownPeers (n_mgr n))"
      using assms(2) by (simp add: n1(2) dial_finished_def Let_def saveKnownPeer_frame)
    have "rec_NodeID r \<notin> rec_NodeID ` set (fst (tryDiscoveryDials ks' draws t (n_mgr n1)))"
      if "range_order ks' (knownPeers (n_mgr n1))" "t < Unix now * Second + min (2 ^ nat (rec_FailCount known)) 30 * Second"
      for ks' draws t
      using failed_dial_backs_off [OF assms(1-3), of ks' cd now t draws] that unfolding n1(2) by blast
    then show ?thesis
      using kp dial_finished_unmarks [of cd True now r "n_mgr n"] n1 failed True by simp
  qed
qed

section \<open>Witness\<close>

theorem discovery_dial_settles_witness:
  "\<exists>n1 :: nat Node. dialDiscovered demo_crypto (demo_json (demo_record 2 5 3) (demo_record 2 5 3)) demo_noise ''u'' ''x'' [] 0 WakeWork
       (\<lambda>_. None) (demo_record 2 5 3) (on_mgr (\<lambda>m. m\<lparr>m_dialing := fmupd (NodeID (demo_id 2)) True fmempty\<rparr>) (demo_node 1 [demo_record 2 5 3])) =
     (Some DialFailed, n1) \<and>
   \<not> map_flag (m_dialing (n_mgr n1)) (NodeID (demo_id 2)) \<and>
   rec_NodeID (demo_record 2 5 3) \<notin> rec_NodeID ` set (fst (tryDiscoveryDials [NodeID (demo_id 2)] (\<lambda>_. 0) (7 * Second) (n_mgr n1)))"
proof -
  let ?r = "demo_record 2 5 3" let ?cd = "demo_json ?r ?r"
  let ?n = "on_mgr (\<lambda>m. m\<lparr>m_dialing := fmupd (NodeID (demo_id 2)) True fmempty\<rparr>) (demo_node 1 [?r])"
  have id: "rec_NodeID ?r = NodeID (demo_id 2)" by (simp add: demo_record_def)
  have kn: "knownPeers (n_mgr ?n) = fmupd (NodeID (demo_id 2)) ?r fmempty"
    using demo_known(1) [of 1 2 5 3] by (simp add: demo_mgr_sel)
  have k: "known_inv demo_crypto (knownPeers (n_mgr ?n))" unfolding kn by (rule demo_known(2))
  have l: "fmlookup (knownPeers (n_mgr ?n)) (rec_NodeID ?r) = Some ?r" unfolding kn id by simp
  have fl: "map_flag (m_dialing (n_mgr ?n)) (rec_NodeID ?r)" "0 \<le> rec_FailCount ?r"
    by (simp_all add: id map_flag_def) (simp add: demo_record_def)
  obtain n1 where d: "dialDiscovered demo_crypto ?cd demo_noise ''u'' ''x'' [] 0 WakeWork (\<lambda>_. None) ?r ?n = (Some DialFailed, n1)"
    by (simp add: dialDiscovered_def dial_def dial_ok_def)
  have t: "7 * Second < Unix 0 * Second + min (2 ^ nat (rec_FailCount ?r)) 30 * Second"
    by (simp add: Unix_def demo_record_def Second_def)
  note S = discovery_dial_settles [OF k l fl(2,1) d, of 0, THEN conjunct2, THEN conjunct2, THEN conjunct1, rule_format, of DialFailed]
  have "knownPeers (n_mgr n1) = fmupd (NodeID (demo_id 2)) (?r\<lparr>rec_FailCount := rec_FailCount ?r + 1, rec_LastFail := Unix 0\<rparr>) (knownPeers (n_mgr ?n))"
    using S id by (simp add: dial_ok_def)
  then have o: "range_order [NodeID (demo_id 2)] (knownPeers (n_mgr n1))" unfolding kn by (simp add: range_order_def)
  from S o t d show ?thesis by (intro exI [of _ n1]) (simp add: dial_ok_def id)
qed

end
