(* ===== verification/SSHDrain.thy ===== *)
theory SSHDrain
  imports SSHServer
begin

text \<open>
  The shutdown of the SSH server: after \<^verbatim>\<open>Stop\<close> has closed the connections, the steps that remain
  for their goroutines end every session and every connection, so that the wait group \<^verbatim>\<open>Stop\<close> waits for
  reaches zero. The steps are those of \<^verbatim>\<open>ssh_step\<close> a goroutine takes when nothing more can be read:
  the read loop fails, the session leaves, the sender writes what is queued, the handler returns.
\<close>

section \<open>The goroutines' steps on closed connections\<close>

inductive drain_step :: "'x Server \<Rightarrow> 'x Server \<Rightarrow> bool" where
  DHandshake: "fmlookup (srv_live s) i = Some c \<Longrightarrow> cn_user c = None \<Longrightarrow> drain_step s (conn_done i s)"
| DRead: "chan_at s i j = Some (Running a t) \<Longrightarrow> drain_step s (upd_chan i j (Leaving a t) s)"
| DLeave: "chan_at s i j = Some (Leaving a t) \<Longrightarrow> distinct ks \<Longrightarrow> session_leave ks i j a t s = Ret s' \<Longrightarrow> drain_step s s'"
| DDeliver: "chan_at s i j = Some (Draining a t) \<Longrightarrow> terminal_deliver a t (srv_hub s) = Some (t', h) \<Longrightarrow>
    drain_step s ((upd_chan i j (Draining a t') s)\<lparr>srv_hub := h\<rparr>)"
| DDrained: "chan_at s i j = Some (Draining a t) \<Longrightarrow> terminal_deliver a t (srv_hub s) = None \<Longrightarrow>
    drain_step s (upd_chan i j Finished s)"
| DReqs: "chan_at s i j = Some AwaitShell \<Longrightarrow> drain_step s (upd_chan i j Finished s)"
| DEnd: "fmlookup (srv_live s) i = Some c \<Longrightarrow> list_all (\<lambda>x. x = Finished) (cn_chans c) \<Longrightarrow> drain_step s (conn_done i s)"

lemma drain_is_step: "drain_step s s' \<Longrightarrow> ssh_step ext s s'"
  by (induction rule: drain_step.induct) (auto intro: ssh_step.Own ssh_own.intros)

section \<open>The measure\<close>

text \<open>
  Each channel has so many state changes ahead of it, and each connection one more. A delivery changes
  no state but shortens a queue, whose length is the second component.
\<close>

fun chan_weight :: "chan_state \<Rightarrow> nat" where
  "chan_weight AwaitShell = 1"
| "chan_weight (Running a t) = 3"
| "chan_weight (Leaving a t) = 2"
| "chan_weight (Draining a t) = 1"
| "chan_weight Finished = 0"

definition conn_weight :: "ssh_conn \<Rightarrow> nat" where
  "conn_weight c = Suc (sum_list (map chan_weight (cn_chans c)))"

definition live_weight :: "'x Server \<Rightarrow> nat" where
  "live_weight s = (\<Sum>i \<in> fset (fmdom (srv_live s)). conn_weight (the (fmlookup (srv_live s) i)))"

definition pending :: "Hub \<Rightarrow> nat" where
  "pending h = (\<Sum>a \<in> fset (fmdom (hub_heap h)). length (ses_Send (the (fmlookup (hub_heap h) a))))"

definition drain_rel :: "('x Server \<times> 'x Server) set" where
  "drain_rel = measures [live_weight, \<lambda>s. pending (srv_hub s)]"

lemma live_weight_split:
  assumes "fmlookup (srv_live s) i = Some c"
  shows "live_weight s = conn_weight c +
    (\<Sum>k \<in> fset (fmdom (srv_live s)) - {i}. conn_weight (the (fmlookup (srv_live s) k)))"
proof -
  have "i \<in> fset (fmdom (srv_live s))" using assms by (simp add: fmdomI)
  from sum.remove [OF finite_fset this, of "\<lambda>k. conn_weight (the (fmlookup (srv_live s) k))"] assms
  show ?thesis by (simp add: live_weight_def)
qed

lemma live_weight_upd_conn:
  assumes "fmlookup (srv_live s) i = Some c"
  shows "live_weight (upd_conn i f s) + conn_weight c = live_weight s + conn_weight (f c)"
proof -
  have dom: "fmdom (srv_live (upd_conn i f s)) = fmdom (srv_live s)" by simp
  have new: "fmlookup (srv_live (upd_conn i f s)) i = Some (f c)" using assms by (simp add: upd_conn_def)
  have "(\<Sum>k \<in> fset (fmdom (srv_live s)) - {i}. conn_weight (the (fmlookup (srv_live (upd_conn i f s)) k))) =
      (\<Sum>k \<in> fset (fmdom (srv_live s)) - {i}. conn_weight (the (fmlookup (srv_live s) k)))"
    using assms by (intro sum.cong) (auto simp: upd_conn_def)
  with live_weight_split [OF new] live_weight_split [OF assms] show ?thesis unfolding dom by simp
qed

lemma sum_list_update_nat:
  fixes xs :: "nat list"
  assumes "j < length xs"
  shows "sum_list (xs[j := y]) + xs ! j = sum_list xs + y"
  using assms by (induction xs arbitrary: j) (auto split: nat.splits)

lemma live_weight_upd_chan:
  assumes "chan_at s i j = Some x"
  shows "live_weight (upd_chan i j y s) + chan_weight x = live_weight s + chan_weight y"
proof -
  obtain c where c: "fmlookup (srv_live s) i = Some c" "j < length (cn_chans c)" "cn_chans c ! j = x"
    using assms by (auto simp: chan_at_def split: option.splits if_splits)
  have "conn_weight (c\<lparr>cn_chans := (cn_chans c)[j := y]\<rparr>) + chan_weight x = conn_weight c + chan_weight y"
    using sum_list_update_nat [of j "map chan_weight (cn_chans c)" "chan_weight y"] c(2,3)
    by (simp add: conn_weight_def map_update)
  with live_weight_upd_conn [OF c(1), of "\<lambda>c. c\<lparr>cn_chans := (cn_chans c)[j := y]\<rparr>"] show ?thesis
    by (simp add: upd_chan_def)
qed

lemma live_weight_hub [simp]: "live_weight (s\<lparr>srv_hub := h\<rparr>) = live_weight s"
  by (simp add: live_weight_def)

lemma live_weight_done:
  assumes "fmlookup (srv_live s) i = Some c"
  shows "live_weight (conn_done i s) < live_weight s"
proof -
  have "live_weight (conn_done i s) = (\<Sum>k \<in> fset (fmdom (srv_live s)) - {i}. conn_weight (the (fmlookup (srv_live s) k)))"
    by (simp add: live_weight_def conn_done_def removeConn_def)
  with live_weight_split [OF assms] show ?thesis by (simp add: conn_weight_def)
qed

lemma pending_deliver:
  assumes "terminal_deliver a t h = Some (t', h')"
  shows "pending h' < pending h"
proof -
  obtain x msg rest where a: "fmlookup (hub_heap h) a = Some x" "ses_Send x = msg # rest" "h' = session_recv a h"
    using assms by (auto simp: terminal_deliver_def split: option.splits list.splits)
  have in_dom: "a \<in> fset (fmdom (hub_heap h))" using a(1) by (simp add: fmdomI)
  let ?q = "\<lambda>h k. length (ses_Send (the (fmlookup (hub_heap h) k)))"
  have dom: "fset (fmdom (hub_heap h')) = fset (fmdom (hub_heap h))"
    using a in_dom by (auto simp: session_recv_def)
  have rest: "(\<Sum>k \<in> fset (fmdom (hub_heap h)) - {a}. ?q h' k) = (\<Sum>k \<in> fset (fmdom (hub_heap h)) - {a}. ?q h k)"
    using a by (intro sum.cong) (auto simp: session_recv_def)
  have "?q h' a < ?q h a" using a by (simp add: session_recv_def)
  with rest sum.remove [OF finite_fset in_dom, of "?q h"] sum.remove [OF finite_fset in_dom, of "?q h'"]
  show ?thesis by (simp add: pending_def dom)
qed

lemma drain_decreases: "drain_step s s' \<Longrightarrow> (s', s) \<in> drain_rel"
proof (induction rule: drain_step.induct)
  case (DRead s i j a t)
  with live_weight_upd_chan [OF DRead(1), of "Leaving a t"] show ?case by (simp add: drain_rel_def)
next
  case (DLeave s i j a t ks s')
  with live_weight_upd_chan [OF DLeave(1), of "Draining a t"] show ?case
    by (auto simp: drain_rel_def session_leave_def)
next
  case (DDeliver s i j a t t' h)
  with live_weight_upd_chan [OF DDeliver(1), of "Draining a t'"] pending_deliver [OF DDeliver(2)] show ?case
    by (simp add: drain_rel_def)
next
  case (DDrained s i j a t)
  with live_weight_upd_chan [OF DDrained(1), of Finished] show ?case by (simp add: drain_rel_def)
next
  case (DReqs s i j)
  with live_weight_upd_chan [OF DReqs(1), of Finished] show ?case by (simp add: drain_rel_def)
qed (auto simp: drain_rel_def live_weight_done)

lemma wf_drain: "wf {(s', s). drain_step s s'}"
  by (rule wf_subset [of drain_rel]) (auto simp: drain_rel_def dest: drain_decreases)

section \<open>No goroutine is stuck\<close>

lemma drain_progress:
  assumes "ssh_inv s" and "hub_running (srv_hub s)" and "fmlookup (srv_live s) i = Some c"
  shows "\<exists>s'. drain_step s s'"
proof (cases "list_all (\<lambda>x. x = Finished) (cn_chans c)")
  case True
  then show ?thesis using DEnd [OF assms(3)] by blast
next
  case False
  then obtain j where j: "j < length (cn_chans c)" "cn_chans c ! j \<noteq> Finished" by (auto simp: list_all_length)
  then have at: "chan_at s i j = Some (cn_chans c ! j)" using assms(3) by (simp add: chan_at_def)
  show ?thesis
  proof (cases "cn_chans c ! j")
    case AwaitShell
    with at have "chan_at s i j = Some AwaitShell" by simp
    from DReqs [OF this] show ?thesis by blast
  next
    case (Running a t)
    with at have "chan_at s i j = Some (Running a t)" by simp
    from DRead [OF this] show ?thesis by blast
  next
    case (Leaving a t)
    then have a: "chan_at s i j = Some (Leaving a t)" "owner s (i, j) = Some a" using at by (simp_all add: owner_def)
    have own: "hub.owned (srv_hub s) (owner s)" using assms(1) by (simp add: ssh_inv_def)
    from hub_call_inv [OF hub.ownedD(1) [OF own], of "[]" "CLeave a"] hub.ownedD(2) [OF own a(2)] assms(2)
    have "\<exists>h. Leave_call [] a (srv_hub s) = Ret h"
      by (cases "hub_call [] (CLeave a) (srv_hub s)") (auto simp: Leave_call_def)
    then show ?thesis using DLeave [OF a(1), of "[]"] by (auto simp: session_leave_def)
  next
    case (Draining a t)
    then show ?thesis
      using DDeliver [of s i j a t] DDrained [of s i j a t] at
      by (cases "terminal_deliver a t (srv_hub s)") auto
  qed (use j in simp)
qed


text \<open>
  C16. The shutdown ends. In every state a server reaches, a goroutine's own step on a connection that
  can no longer be read is a step of the server, and no sequence of such steps is infinite. After
  \<^verbatim>\<open>Stop\<close> every connection is closed, and while the hub runs such a step exists as long as a handler is left:
  so when the steps have come to an end there is no handler, the wait group of \<^verbatim>\<open>Stop\<close> is at zero and no
  session is left among the members of the hub.
\<close>

theorem server_drains_after_stop:
  assumes "NewServer parse file (if p2p then SetRemoteSend (NewHub name) else NewHub name) = Some (Inr s0)"
    and "ssh_reach ext s0 s"
  shows "(\<forall>s'. drain_step s s' \<longrightarrow> ssh_step ext s s') \<and>
    \<not> (\<exists>f. f 0 = s \<and> (\<forall>n. drain_step (f n) (f (Suc n)))) \<and>
    (stopping s \<longrightarrow> (\<forall>i c. fmlookup (srv_live s) i = Some c \<longrightarrow> cn_closed c)) \<and>
    (hub_running (srv_hub s) \<and> \<not> (\<exists>s'. drain_step s s') \<longrightarrow>
       srv_live s = fmempty \<and> srv_conns s = {||} \<and> members (srv_hub s) = {})"
proof -
  have "members (if p2p then SetRemoteSend (NewHub name) else NewHub name) = {}"
    by (simp add: members_def SetRemoteSend_def NewHub_def)
  from NewServer_inv [OF assms(1) _ this] hub_inv_New have "ssh_inv s0" by simp
  with ssh_reach_inv [OF assms(2)] have inv: "ssh_inv s" by simp
  then have own: "hub.owned (srv_hub s) (owner s)" and conns: "conns_ok s" by (simp_all add: ssh_inv_def)
  have inf: "\<not> (\<exists>f. f 0 = s \<and> (\<forall>n. drain_step (f n) (f (Suc n))))"
    using wf_drain unfolding wf_iff_no_infinite_down_chain by blast
  have "srv_live s = fmempty \<and> srv_conns s = {||} \<and> members (srv_hub s) = {}"
    if run: "hub_running (srv_hub s)" and stuck: "\<not> (\<exists>s'. drain_step s s')"
  proof -
    have none: "fmlookup (srv_live s) i = None" for i
      using drain_progress [OF inv run, of i] stuck by (cases "fmlookup (srv_live s) i") auto
    then have live: "srv_live s = fmempty" by (intro fmap_ext) simp
    have "srv_conns s = {||}" using conns live by (simp add: conns_ok_def)
    moreover have "owner s = (\<lambda>_. None)" by (auto simp: owner_def chan_at_def none fun_eq_iff)
    ultimately show ?thesis using live hub.ownedD(4) [OF own run] by simp
  qed
  with inf show ?thesis using drain_is_step conns unfolding conns_ok_def by blast
qed

text \<open>The stopped server of the example: its connection is closed, and its terminal can take a step.\<close>

theorem server_drains_after_stop_witness:
  "\<exists>c. fmlookup (srv_live (srv_Stop demo_s5)) 0 = Some c \<and> cn_closed c \<and> (\<exists>s'. drain_step (srv_Stop demo_s5) s')"
proof -
  have "owner (srv_Stop demo_s5) = owner demo_s5" by (intro owner_cong) (auto simp: srv_Stop_def split: option.splits)
  then have "owner (srv_Stop demo_s5) (0, 0) \<noteq> None" using demo_s5_request(3) by simp
  then obtain c where c: "fmlookup (srv_live (srv_Stop demo_s5)) 0 = Some c"
    by (auto simp: owner_def chan_at_def split: option.splits)
  have run: "hub_running (srv_hub (srv_Stop demo_s5))" and stop: "stopping (srv_Stop demo_s5)"
    using demo_s5_request(4) by (simp_all add: srv_Stop_def)
  have new: "NewServer demo_parse (Some [7, 8]) (if False then SetRemoteSend (NewHub ''n'') else NewHub ''n'') = Some (Inr demo_s0)"
    unfolding if_False by (rule demo_NewServer)
  note T = server_drains_after_stop [OF new demo_reach]
  have "cn_closed c" by (rule T [THEN conjunct2, THEN conjunct2, THEN conjunct1, rule_format, OF stop c])
  moreover have "\<exists>s'. drain_step (srv_Stop demo_s5) s'"
    using T [THEN conjunct2, THEN conjunct2, THEN conjunct2] run c by auto
  ultimately show ?thesis using c by blast
qed

end
