(* ===== verification/Store.thy ===== *)
theory Store
  imports Prelude "HOL-Library.AList"
begin

text \<open>
  The persistent store (\<^verbatim>\<open>internal/store/bolt/bolt.go\<close>, which implements the interface of
  \<^verbatim>\<open>internal/store/store.go\<close>).

  The database library bbolt is the parameter \<^verbatim>\<open>bolt\<close>: a read transaction or its failure, an update that
  commits what its function leaves or fails, and the operations on buckets inside a transaction.
  \<open>bolt_ok\<close> states its documented behaviour through the contents of a database and of a transaction:
  what a committed update leaves is what the next transaction sees, a failed one changes nothing, and a
  bucket is a map. The specification of the store is one map from pairs of bucket and key to values.
\<close>

section \<open>The database library\<close>

record ('db, 'tx) bolt =
  bolt_View :: "'db \<Rightarrow> 'tx option"
  bolt_Update :: "'db \<Rightarrow> ('tx \<Rightarrow> 'tx option) \<Rightarrow> bool \<times> 'db"
  tx_Bucket :: "'tx \<Rightarrow> bytes \<Rightarrow> bool"
  tx_CreateBucket :: "'tx \<Rightarrow> bytes \<Rightarrow> 'tx option"
  tx_Get :: "'tx \<Rightarrow> bytes \<Rightarrow> bytes \<Rightarrow> bytes option"
  tx_Put :: "'tx \<Rightarrow> bytes \<Rightarrow> bytes \<Rightarrow> bytes \<Rightarrow> 'tx option"
  tx_Delete :: "'tx \<Rightarrow> bytes \<Rightarrow> bytes \<Rightarrow> 'tx option"
  tx_Entries :: "'tx \<Rightarrow> bytes \<Rightarrow> (bytes \<times> bytes) list"

type_synonym buckets = "bytes \<Rightarrow> (bytes \<Rightarrow> bytes option) option"

definition bolt_ok :: "('db, 'tx) bolt \<Rightarrow> ('db \<Rightarrow> buckets) \<Rightarrow> ('tx \<Rightarrow> buckets) \<Rightarrow> bool" where
  "bolt_ok B dbc txc \<longleftrightarrow>
     (\<forall>db tx. bolt_View B db = Some tx \<longrightarrow> txc tx = dbc db) \<and>
     (\<forall>db f db'. bolt_Update B db f = (True, db') \<longrightarrow>
        (\<exists>tx tx'. txc tx = dbc db \<and> f tx = Some tx' \<and> dbc db' = txc tx')) \<and>
     (\<forall>db f db'. bolt_Update B db f = (False, db') \<longrightarrow> dbc db' = dbc db) \<and>
     (\<forall>tx b. tx_Bucket B tx b \<longleftrightarrow> txc tx b \<noteq> None) \<and>
     (\<forall>tx b tx'. tx_CreateBucket B tx b = Some tx' \<longrightarrow>
        txc tx' = (if txc tx b = None then (txc tx)(b \<mapsto> Map.empty) else txc tx)) \<and>
     (\<forall>tx b m k. txc tx b = Some m \<longrightarrow> tx_Get B tx b k = m k) \<and>
     (\<forall>tx b m k v tx'. txc tx b = Some m \<longrightarrow> tx_Put B tx b k v = Some tx' \<longrightarrow>
        txc tx' = (txc tx)(b \<mapsto> m(k \<mapsto> v))) \<and>
     (\<forall>tx b m k tx'. txc tx b = Some m \<longrightarrow> tx_Delete B tx b k = Some tx' \<longrightarrow>
        txc tx' = (txc tx)(b \<mapsto> m(k := None))) \<and>
     (\<forall>tx b m. txc tx b = Some m \<longrightarrow>
        distinct (map fst (tx_Entries B tx b)) \<and> map_of (tx_Entries B tx b) = m)"

text \<open>
  The database files, in a state of the file system: opening may fail; \<open>bolt_files_ok\<close> states that an opened
  database has the contents of its file, and that a closed one has left its contents there.
\<close>

record ('fs, 'db) bolt_files =
  bolt_Open :: "string \<Rightarrow> 'fs \<Rightarrow> 'db option"
  bolt_Close :: "string \<Rightarrow> 'db \<Rightarrow> 'fs \<Rightarrow> bool \<times> 'fs"

definition bolt_files_ok :: "('fs, 'db) bolt_files \<Rightarrow> ('db \<Rightarrow> buckets) \<Rightarrow> ('fs \<Rightarrow> string \<Rightarrow> buckets) \<Rightarrow> bool" where
  "bolt_files_ok F dbc disk \<longleftrightarrow>
     (\<forall>path fs db. bolt_Open F path fs = Some db \<longrightarrow> dbc db = disk fs path) \<and>
     (\<forall>path db fs. fst (bolt_Close F path db fs) \<longrightarrow> disk (snd (bolt_Close F path db fs)) path = dbc db)"

section \<open>Operations\<close>

definition store_Open :: "('fs, 'db) bolt_files \<Rightarrow> string \<Rightarrow> 'fs \<Rightarrow> 'db option" where
  "store_Open F path fs = (case bolt_Open F path fs of None \<Rightarrow> None | Some db \<Rightarrow> Some db)"

definition store_Close :: "('fs, 'db) bolt_files \<Rightarrow> string \<Rightarrow> 'db \<Rightarrow> 'fs \<Rightarrow> bool \<times> 'fs" where
  "store_Close F path db fs = bolt_Close F path db fs"

text \<open>A failed transaction is the result \<^const>\<open>None\<close> of a read and the flag \<^const>\<open>False\<close> of an update.\<close>

definition store_Get :: "('db, 'tx) bolt \<Rightarrow> bytes \<Rightarrow> bytes \<Rightarrow> 'db \<Rightarrow> bytes option option" where
  "store_Get B bucket key db =
     (case bolt_View B db of
        None \<Rightarrow> None
      | Some tx \<Rightarrow> Some (if \<not> tx_Bucket B tx bucket then None else tx_Get B tx bucket key))"

definition store_Set :: "('db, 'tx) bolt \<Rightarrow> bytes \<Rightarrow> bytes \<Rightarrow> bytes \<Rightarrow> 'db \<Rightarrow> bool \<times> 'db" where
  "store_Set B bucket key value db =
     bolt_Update B db (\<lambda>tx.
       case tx_CreateBucket B tx bucket of None \<Rightarrow> None | Some tx' \<Rightarrow> tx_Put B tx' bucket key value)"

definition store_Delete :: "('db, 'tx) bolt \<Rightarrow> bytes \<Rightarrow> bytes \<Rightarrow> 'db \<Rightarrow> bool \<times> 'db" where
  "store_Delete B bucket key db =
     bolt_Update B db (\<lambda>tx. if \<not> tx_Bucket B tx bucket then Some tx else tx_Delete B tx bucket key)"

text \<open>The callback updates what it captured and says whether to go on.\<close>

fun each_entry :: "(bytes \<Rightarrow> bytes \<Rightarrow> 's \<Rightarrow> bool \<times> 's) \<Rightarrow> (bytes \<times> bytes) list \<Rightarrow> 's \<Rightarrow> bool \<times> 's" where
  "each_entry fn [] s = (True, s)"
| "each_entry fn ((k, v) # es) s = (case fn k v s of (ok, s') \<Rightarrow> if ok then each_entry fn es s' else (False, s'))"

definition store_ForEach ::
  "('db, 'tx) bolt \<Rightarrow> bytes \<Rightarrow> (bytes \<Rightarrow> bytes \<Rightarrow> 's \<Rightarrow> bool \<times> 's) \<Rightarrow> 'db \<Rightarrow> 's \<Rightarrow> bool \<times> 's" where
  "store_ForEach B bucket fn db s =
     (case bolt_View B db of
        None \<Rightarrow> (False, s)
      | Some tx \<Rightarrow> if \<not> tx_Bucket B tx bucket then (True, s) else each_entry fn (tx_Entries B tx bucket) s)"

definition store_Snapshot :: "('db, 'tx) bolt \<Rightarrow> bytes \<Rightarrow> 'db \<Rightarrow> bool \<times> (bytes, bytes) fmap" where
  "store_Snapshot B bucket db = store_ForEach B bucket (\<lambda>k v result. (True, fmupd k v result)) db fmempty"

section \<open>Refinement of a map\<close>

definition store_abs :: "('db \<Rightarrow> buckets) \<Rightarrow> 'db \<Rightarrow> bytes \<times> bytes \<Rightarrow> bytes option" where
  "store_abs dbc db = (\<lambda>(b, k). case dbc db b of None \<Rightarrow> None | Some m \<Rightarrow> m k)"

lemma bolt_okD:
  assumes "bolt_ok B dbc txc"
  shows "bolt_View B db = Some tx \<Longrightarrow> txc tx = dbc db"
    and "bolt_Update B db f = (True, db') \<Longrightarrow> \<exists>tx tx'. txc tx = dbc db \<and> f tx = Some tx' \<and> dbc db' = txc tx'"
    and "bolt_Update B db f = (False, db') \<Longrightarrow> dbc db' = dbc db"
    and "tx_Bucket B tx b \<longleftrightarrow> txc tx b \<noteq> None"
    and "tx_CreateBucket B tx b = Some tx' \<Longrightarrow>
      txc tx' = (if txc tx b = None then (txc tx)(b \<mapsto> Map.empty) else txc tx)"
    and "txc tx b = Some m \<Longrightarrow> tx_Get B tx b k = m k"
    and "txc tx b = Some m \<Longrightarrow> tx_Put B tx b k v = Some tx' \<Longrightarrow> txc tx' = (txc tx)(b \<mapsto> m(k \<mapsto> v))"
    and "txc tx b = Some m \<Longrightarrow> tx_Delete B tx b k = Some tx' \<Longrightarrow> txc tx' = (txc tx)(b \<mapsto> m(k := None))"
    and "txc tx b = Some m \<Longrightarrow> distinct (map fst (tx_Entries B tx b)) \<and> map_of (tx_Entries B tx b) = m"
  using assms unfolding bolt_ok_def by metis+

lemma store_Get_abs:
  assumes "bolt_ok B dbc txc" and "store_Get B b k db = Some v"
  shows "v = store_abs dbc db (b, k)"
  using assms(2) bolt_okD(1,4,6) [OF assms(1)]
  by (auto simp: store_Get_def store_abs_def split: option.splits)

lemma store_Set_abs:
  assumes "bolt_ok B dbc txc" and "store_Set B b k v db = (ok, db')"
  shows "store_abs dbc db' = (if ok then (store_abs dbc db)((b, k) \<mapsto> v) else store_abs dbc db)"
proof (cases ok)
  case True
  then obtain tx tx1 tx' where t: "txc tx = dbc db" "tx_CreateBucket B tx b = Some tx1"
    "tx_Put B tx1 b k v = Some tx'" "dbc db' = txc tx'"
    using bolt_okD(2) [OF assms(1)] assms(2) unfolding store_Set_def by (fastforce split: option.splits)
  let ?m = "case dbc db b of None \<Rightarrow> Map.empty | Some m \<Rightarrow> m"
  have "txc tx1 b = Some ?m" using bolt_okD(5) [OF assms(1) t(2)] t(1) by (simp split: option.splits)
  from bolt_okD(7) [OF assms(1) this t(3)] bolt_okD(5) [OF assms(1) t(2)] t(1,4)
  have "dbc db' = (dbc db)(b \<mapsto> ?m(k \<mapsto> v))" by (auto split: option.splits)
  then show ?thesis using True by (auto simp: store_abs_def fun_eq_iff split: option.splits)
next
  case False
  then show ?thesis using bolt_okD(3) [OF assms(1)] assms(2) by (simp add: store_Set_def store_abs_def)
qed

lemma store_Delete_abs:
  assumes "bolt_ok B dbc txc" and "store_Delete B b k db = (ok, db')"
  shows "store_abs dbc db' = (if ok then (store_abs dbc db)((b, k) := None) else store_abs dbc db)"
proof (cases ok)
  case True
  then obtain tx tx' where t: "txc tx = dbc db" "dbc db' = txc tx'"
    "(if \<not> tx_Bucket B tx b then Some tx else tx_Delete B tx b k) = Some tx'"
    using bolt_okD(2) [OF assms(1)] assms(2) unfolding store_Delete_def by fastforce
  have "dbc db' = (case dbc db b of None \<Rightarrow> dbc db | Some m \<Rightarrow> (dbc db)(b \<mapsto> m(k := None)))"
    using t bolt_okD(4) [OF assms(1), of tx b] bolt_okD(8) [OF assms(1), of tx b _ k tx'] by (cases "dbc db b") auto
  then show ?thesis using True by (auto simp: store_abs_def fun_eq_iff split: option.splits)
next
  case False
  then show ?thesis using bolt_okD(3) [OF assms(1)] assms(2) by (simp add: store_Delete_def store_abs_def)
qed

lemma each_entry_all: "each_entry (\<lambda>k v r. (True, f k v r)) es s = (True, fold (\<lambda>(k, v). f k v) es s)"
  by (induction es arbitrary: s) auto

lemma fold_fmupd_lookup:
  "distinct (map fst es) \<Longrightarrow>
     fmlookup (fold (\<lambda>(k, v). fmupd k v) es m) k = (case map_of es k of None \<Rightarrow> fmlookup m k | Some v \<Rightarrow> Some v)"
proof (induction es arbitrary: m)
  case (Cons e es)
  then have "map_of es (fst e) = None" by (simp add: map_of_eq_None_iff)
  with Cons show ?case by (auto split: option.splits prod.splits)
qed simp

lemma store_Snapshot_abs:
  assumes "bolt_ok B dbc txc" and "store_Snapshot B b db = (True, r)"
  shows "fmlookup r k = store_abs dbc db (b, k)"
proof -
  obtain tx where tx: "bolt_View B db = Some tx" using assms(2)
    by (auto simp: store_Snapshot_def store_ForEach_def split: option.splits)
  note c = bolt_okD(1) [OF assms(1) tx]
  show ?thesis
  proof (cases "dbc db b")
    case None
    then show ?thesis using assms(2) tx c bolt_okD(4) [OF assms(1), of tx b]
      by (simp add: store_Snapshot_def store_ForEach_def store_abs_def)
  next
    case (Some m)
    then have "r = fold (\<lambda>(k, v). fmupd k v) (tx_Entries B tx b) fmempty"
      using assms(2) tx c bolt_okD(4) [OF assms(1), of tx b]
      by (simp add: store_Snapshot_def store_ForEach_def each_entry_all)
    then show ?thesis
      using bolt_okD(9) [OF assms(1), of tx b m] c Some fold_fmupd_lookup [of "tx_Entries B tx b" fmempty k]
      by (simp add: store_abs_def split: option.splits)
  qed
qed

section \<open>Runs\<close>

datatype store_op = SGet bytes bytes | SSet bytes bytes bytes | SDelete bytes bytes | SSnapshot bytes

datatype store_result = RFail | RGot "bytes option" | RDone | RSnapshot "(bytes, bytes) fmap"

fun store_do :: "('db, 'tx) bolt \<Rightarrow> store_op \<Rightarrow> 'db \<Rightarrow> store_result \<times> 'db" where
  "store_do B (SGet b k) db = ((case store_Get B b k db of None \<Rightarrow> RFail | Some v \<Rightarrow> RGot v), db)"
| "store_do B (SSet b k v) db = (case store_Set B b k v db of (ok, db') \<Rightarrow> (if ok then RDone else RFail, db'))"
| "store_do B (SDelete b k) db = (case store_Delete B b k db of (ok, db') \<Rightarrow> (if ok then RDone else RFail, db'))"
| "store_do B (SSnapshot b) db = (case store_Snapshot B b db of (ok, r) \<Rightarrow> (if ok then RSnapshot r else RFail, db))"

fun store_run :: "('db, 'tx) bolt \<Rightarrow> store_op list \<Rightarrow> 'db \<Rightarrow> store_result list \<times> 'db" where
  "store_run B [] db = ([], db)"
| "store_run B (op # ops) db =
     (case store_do B op db of (r, db1) \<Rightarrow> case store_run B ops db1 of (rs, db') \<Rightarrow> (r # rs, db'))"

text \<open>The specification: a failed operation changes nothing, and a map answers the others.\<close>

inductive map_step :: "store_op \<Rightarrow> store_result \<Rightarrow> (bytes \<times> bytes \<Rightarrow> bytes option) \<Rightarrow> (bytes \<times> bytes \<Rightarrow> bytes option) \<Rightarrow> bool" where
  MFail: "map_step op RFail m m"
| MGet: "map_step (SGet b k) (RGot (m (b, k))) m m"
| MSet: "map_step (SSet b k v) RDone m (m((b, k) \<mapsto> v))"
| MDelete: "map_step (SDelete b k) RDone m (m((b, k) := None))"
| MSnapshot: "(\<And>k. fmlookup r k = m (b, k)) \<Longrightarrow> map_step (SSnapshot b) (RSnapshot r) m m"

inductive map_run :: "store_op list \<Rightarrow> store_result list \<Rightarrow> (bytes \<times> bytes \<Rightarrow> bytes option) \<Rightarrow> (bytes \<times> bytes \<Rightarrow> bytes option) \<Rightarrow> bool" where
  MNil: "map_run [] [] m m"
| MCons: "map_step op r m m1 \<Longrightarrow> map_run ops rs m1 m' \<Longrightarrow> map_run (op # ops) (r # rs) m m'"

inductive_cases map_stepE: "map_step op r m m'"
inductive_cases map_run_ConsE: "map_run (op # ops) rs m m'"

lemma store_do_step:
  assumes "bolt_ok B dbc txc" and "store_do B op db = (r, db')"
  shows "map_step op r (store_abs dbc db) (store_abs dbc db')"
proof (cases op)
  case (SGet b k)
  then show ?thesis using assms(2) store_Get_abs [OF assms(1), of b k db]
    by (auto intro: map_step.intros split: option.splits)
next
  case (SSet b k v)
  then show ?thesis using assms(2) store_Set_abs [OF assms(1), of b k v db]
    by (auto intro: map_step.intros split: prod.splits if_splits)
next
  case (SDelete b k)
  then show ?thesis using assms(2) store_Delete_abs [OF assms(1), of b k db]
    by (auto intro: map_step.intros split: prod.splits if_splits)
next
  case (SSnapshot b)
  then show ?thesis using assms(2) store_Snapshot_abs [OF assms(1), of b db]
    by (auto intro: map_step.intros split: prod.splits if_splits)
qed

text \<open>
  C29. The store implements a map from bucket and key to value: every run of its operations, with
  transactions failing anywhere, is a run of the map with the same results, where a failed operation
  has no effect. So a value read is the last one successfully set and not deleted since, buckets do
  not disturb one another, and a snapshot of a bucket holds exactly its entries.
\<close>

theorem store_refines_map:
  assumes "bolt_ok B dbc txc" and "store_run B ops db = (rs, db')"
  shows "map_run ops rs (store_abs dbc db) (store_abs dbc db')"
  using assms(2)
proof (induction ops arbitrary: db rs)
  case (Cons op ops)
  then obtain r db1 rs1 where "store_do B op db = (r, db1)" "store_run B ops db1 = (rs1, db')" "rs = r # rs1"
    by (auto split: prod.splits)
  then show ?case using MCons [OF store_do_step [OF assms(1)] Cons.IH] by blast
qed (simp add: MNil)

section \<open>Example\<close>

type_synonym alist_db = "(bytes \<times> (bytes \<times> bytes) list) list"

definition demo_bolt :: "(alist_db, alist_db) bolt" where
  "demo_bolt = \<lparr>bolt_View = (\<lambda>db. Some db),
     bolt_Update = (\<lambda>db f. case f db of None \<Rightarrow> (False, db) | Some db' \<Rightarrow> (True, db')),
     tx_Bucket = (\<lambda>tx b. map_of tx b \<noteq> None),
     tx_CreateBucket = (\<lambda>tx b. if b = [] then None else Some (if map_of tx b = None then (b, []) # tx else tx)),
     tx_Get = (\<lambda>tx b k. map_of (the (map_of tx b)) k),
     tx_Put = (\<lambda>tx b k v. if k = [] then None else Some ((b, (k, v) # the (map_of tx b)) # tx)),
     tx_Delete = (\<lambda>tx b k. Some ((b, AList.delete k (the (map_of tx b))) # tx)),
     tx_Entries = (\<lambda>tx b. AList.clearjunk (the (map_of tx b)))\<rparr>"

definition demo_contents :: "alist_db \<Rightarrow> buckets" where
  "demo_contents db b = map_option map_of (map_of db b)"

lemma demo_bolt_ok: "bolt_ok demo_bolt demo_contents demo_contents"
  by (auto simp: bolt_ok_def demo_bolt_def demo_contents_def fun_eq_iff delete_conv map_of_clearjunk
    distinct_clearjunk split: option.splits if_splits)

definition demo_store_ops :: "store_op list" where
  "demo_store_ops = [SSet [1] [2] [3], SSet [1] [] [4], SSet [9] [2] [5], SDelete [9] [2], SGet [1] [2], SGet [9] [2]]"

theorem store_refines_map_witness:
  "\<exists>m'. map_run demo_store_ops [RDone, RFail, RDone, RDone, RGot (Some [3]), RGot None] (\<lambda>_. None) m'"
proof -
  have "fst (store_run demo_bolt demo_store_ops []) = [RDone, RFail, RDone, RDone, RGot (Some [3]), RGot None]"
    by code_simp
  moreover have "store_abs demo_contents [] = (\<lambda>_. None)" by (auto simp: store_abs_def demo_contents_def)
  ultimately show ?thesis
    using store_refines_map [OF demo_bolt_ok, of demo_store_ops "[]"] by (metis prod.collapse)
qed

end
