(* ===== verification/PeerDisk.thy ===== *)
theory PeerDisk
  imports Store Discovery
begin

text \<open>
  The known peers on disk: the persistence of \<^verbatim>\<open>internal/transport/discovery.go\<close> (\<^verbatim>\<open>saveKnownPeer\<close>,
  \<^verbatim>\<open>loadKnownPeers\<close>) over the store of \<^verbatim>\<open>internal/store/bolt/bolt.go\<close>.

  The manager's model has a bucket that is a map and whose operations succeed or fail (\<^verbatim>\<open>PeerStore\<close>); here the
  same operations act on the database, and simulate that model.
\<close>

section \<open>Persistence over the database\<close>

definition peersBucket :: bytes where
  "peersBucket = str_bytes ''peers''"

text \<open>\<^verbatim>\<open>saveKnownPeer\<close>: whether the record reached the store, and the database afterwards.\<close>

definition disk_save :: "('db, 'tx) bolt \<Rightarrow> PeerRecord codec \<Rightarrow> PeerRecord \<Rightarrow> 'db \<Rightarrow> bool \<times> 'db" where
  "disk_save B cd r db =
     (case json_Marshal cd r of
        None \<Rightarrow> (False, db)
      | Some data \<Rightarrow> store_Set B peersBucket (str_bytes (rec_NodeID r)) data db)"

text \<open>\<^verbatim>\<open>loadKnownPeers\<close>: the records of a snapshot that pass the checks; \<open>ks\<close> is the order of the \<^verbatim>\<open>range\<close>.\<close>

definition disk_load ::
  "('db, 'tx) bolt \<Rightarrow> crypto \<Rightarrow> PeerRecord codec \<Rightarrow> bytes list \<Rightarrow> 'db \<Rightarrow> 'c Manager \<Rightarrow> 'c Manager" where
  "disk_load B cr cd ks db m =
     (case store_Snapshot B peersBucket db of
        (ok, snap) \<Rightarrow>
          if \<not> ok then m
          else
            (let recs = List.map_filter (json_Unmarshal cd) (map_range ks snap);
                 valid = filter (loadable cr) recs
             in m\<lparr>knownPeers := fold (\<lambda>r. fmupd (rec_NodeID r) r) valid (knownPeers m)\<rparr>))"

section \<open>Simulation\<close>

definition on_disk :: "('db \<Rightarrow> buckets) \<Rightarrow> 'db \<Rightarrow> PeerStore \<Rightarrow> bool" where
  "on_disk dbc db st \<longleftrightarrow> (\<forall>k. store_abs dbc db (peersBucket, k) = fmlookup (st_data st) k)"

lemma disk_save_sim:
  assumes "bolt_ok B dbc txc" and "on_disk dbc db st" and "disk_save B cd r db = (ok, db')"
  shows "\<exists>st'. m_store (saveKnownPeer cd r (m\<lparr>m_store := Some (st\<lparr>st_ok := ok\<rparr>)\<rparr>)) = Some st' \<and> on_disk dbc db' st'"
proof (cases "json_Marshal cd r")
  case (Some data)
  then have "store_Set B peersBucket (str_bytes (rec_NodeID r)) data db = (ok, db')" using assms(3) by (simp add: disk_save_def)
  from store_Set_abs [OF assms(1) this] assms(2) Some show ?thesis
    by (cases ok) (auto simp: saveKnownPeer_def on_disk_def)
qed (use assms in \<open>auto simp: disk_save_def saveKnownPeer_def on_disk_def\<close>)

lemma disk_load_sim:
  assumes "bolt_ok B dbc txc" and "on_disk dbc db st"
  shows "disk_load B cr cd ks db m =
    (loadKnownPeers cr cd ks (m\<lparr>m_store := Some (st\<lparr>st_ok := fst (store_Snapshot B peersBucket db)\<rparr>)\<rparr>))\<lparr>m_store := m_store m\<rparr>"
proof (cases "store_Snapshot B peersBucket db")
  case (Pair ok snap)
  have "snap = st_data st" if ok
    using store_Snapshot_abs [OF assms(1), of peersBucket db snap] Pair that assms(2) by (intro fmap_ext) (simp add: on_disk_def)
  then show ?thesis by (auto simp: disk_load_def loadKnownPeers_def Pair Let_def)
qed

text \<open>
  C30. The known peers are kept on disk as the manager's model says. Saving a record and loading the table, done on
  the database, simulate the model of the manager's store, with the same outcome when a transaction fails: what
  was saved under a node's identifier is what the bucket holds, other buckets do not matter, and a table loaded
  from the database is the one loaded from the model. A database that was closed and is opened again, as
  at the next start, is related to the same state.
\<close>

theorem known_peers_on_disk:
  assumes "bolt_ok B dbc txc" and "bolt_files_ok F dbc disk" and "on_disk dbc db st"
  shows "(\<forall>cd r ok db'. disk_save B cd r db = (ok, db') \<longrightarrow>
      (\<exists>st'. m_store (saveKnownPeer cd r (m\<lparr>m_store := Some (st\<lparr>st_ok := ok\<rparr>)\<rparr>)) = Some st' \<and> on_disk dbc db' st')) \<and>
    (\<forall>b k v. b \<noteq> peersBucket \<longrightarrow> on_disk dbc (snd (store_Set B b k v db)) st) \<and>
    (\<forall>cr cd ks. disk_load B cr cd ks db m =
      (loadKnownPeers cr cd ks (m\<lparr>m_store := Some (st\<lparr>st_ok := fst (store_Snapshot B peersBucket db)\<rparr>)\<rparr>))\<lparr>m_store := m_store m\<rparr>) \<and>
    (\<forall>path fs fs' db'. store_Close F path db fs = (True, fs') \<and> store_Open F path fs' = Some db' \<longrightarrow> on_disk dbc db' st)"
proof -
  have other: "on_disk dbc (snd (store_Set B b k v db)) st" if "b \<noteq> peersBucket" for b k v
    using store_Set_abs [OF assms(1), of b k v db] that assms(3)
    by (cases "store_Set B b k v db") (auto simp: on_disk_def)
  have reopen: "on_disk dbc db' st" if c: "store_Close F path db fs = (True, fs')" "store_Open F path fs' = Some db'" for path fs fs' db'
  proof -
    have "disk fs' path = dbc db" "dbc db' = disk fs' path"
      using c assms(2) unfolding bolt_files_ok_def store_Close_def store_Open_def by (auto split: option.splits) (metis fst_conv snd_conv)
    then show ?thesis using assms(3) by (simp add: on_disk_def store_abs_def)
  qed
  show ?thesis using disk_save_sim [OF assms(1,3)] disk_load_sim [OF assms(1,3)] other reopen by blast
qed

section \<open>Example\<close>

text \<open>A file system with one database per path, which closing writes back.\<close>

definition demo_files :: "(string \<Rightarrow> alist_db, alist_db) bolt_files" where
  "demo_files = \<lparr>bolt_Open = (\<lambda>path fs. Some (fs path)), bolt_Close = (\<lambda>path db fs. (True, fs(path := db)))\<rparr>"

lemma demo_files_ok: "bolt_files_ok demo_files demo_contents (\<lambda>fs path. demo_contents (fs path))"
  by (simp add: bolt_files_ok_def demo_files_def)

definition demo_saved :: PeerRecord where
  "demo_saved = (demo_record 1 0 0)\<lparr>rec_NodeID := ''a''\<rparr>"

theorem known_peers_on_disk_witness:
  "\<exists>db' st'. disk_save demo_bolt (demo_json demo_saved demo_saved) demo_saved [] = (True, db') \<and>
     on_disk demo_contents db' st' \<and> fmlookup (st_data st') (str_bytes ''a'') = Some [1]"
proof -
  have empty: "on_disk demo_contents [] \<lparr>st_data = fmempty, st_ok = True\<rparr>"
    by (simp add: on_disk_def store_abs_def demo_contents_def)
  have "str_bytes ''peers'' \<noteq> []" "str_bytes ''a'' \<noteq> []" by (simp_all add: str_bytes_def)
  then obtain db' where db': "disk_save demo_bolt (demo_json demo_saved demo_saved) demo_saved [] = (True, db')"
    by (simp add: disk_save_def demo_json_def store_Set_def demo_bolt_def peersBucket_def demo_saved_def)
  let ?m = "demo_mgr 1 []"
  from known_peers_on_disk [OF demo_bolt_ok demo_files_ok empty, of ?m, THEN conjunct1] db'
  obtain st' where st': "on_disk demo_contents db' st'" "m_store (saveKnownPeer (demo_json demo_saved demo_saved) demo_saved
      (?m\<lparr>m_store := Some (\<lparr>st_data = fmempty, st_ok = True\<rparr>\<lparr>st_ok := True\<rparr>)\<rparr>)) = Some st'" by blast
  then have "fmlookup (st_data st') (str_bytes ''a'') = Some [1]"
    by (auto simp: saveKnownPeer_def demo_json_def) (auto simp: demo_saved_def)
  with db' st'(1) show ?thesis by blast
qed

end
