(* ===== verification/Duration.thy ===== *)
theory Duration
  imports GoStrings F64
begin

text \<open>
  The durations of the configuration (\<^verbatim>\<open>Duration.UnmarshalText\<close> of \<^verbatim>\<open>internal/config/config.go\<close>): a text
  such as \<^verbatim>\<open>1h30m\<close> is read by \<^verbatim>\<open>time.ParseDuration\<close>. The model follows the parser of the standard library with
  its \<^verbatim>\<open>uint64\<close> arithmetic, its overflow checks and the floating point computation of fractions; an error
  is \<^const>\<open>None\<close>. Strings are the bytes of their UTF-8 form, so the two micro signs are two characters.
\<close>

section \<open>The parser\<close>

definition digit_val :: "char \<Rightarrow> nat" where
  "digit_val c = of_char c - 48"

fun leadingInt :: "u64 \<Rightarrow> string \<Rightarrow> (u64 \<times> string) option" where
  "leadingInt x [] = Some (x, [])"
| "leadingInt x (c # s) =
     (if \<not> is_digit c then Some (x, c # s)
      else if x > 2 ^ 63 div 10 then None
      else
        (let y = x * 10 + of_nat (digit_val c) in
         if y > 2 ^ 63 then None else leadingInt y s))"

fun leadingFraction :: "u64 \<Rightarrow> rat \<Rightarrow> bool \<Rightarrow> string \<Rightarrow> u64 \<times> rat \<times> string" where
  "leadingFraction x scale overflow [] = (x, scale, [])"
| "leadingFraction x scale overflow (c # s) =
     (if \<not> is_digit c then (x, scale, c # s)
      else if overflow then leadingFraction x scale overflow s
      else if x > (2 ^ 63 - 1) div 10 then leadingFraction x scale True s
      else
        (let y = x * 10 + of_nat (digit_val c) in
         if y > 2 ^ 63 then leadingFraction x scale True s
         else leadingFraction y (f64_mul scale 10) overflow s))"

definition unitMap :: "(string \<times> u64) list" where
  "unitMap =
     [(''ns'', 1), (''us'', 1000), ([CHR 0xC2, CHR 0xB5, CHR ''s''], 1000),
      ([CHR 0xCE, CHR 0xBC, CHR ''s''], 1000), (''ms'', 1000000),
      (''s'', 1000000000), (''m'', 60000000000), (''h'', 3600000000000)]"

definition unit_char :: "char \<Rightarrow> bool" where
  "unit_char c \<longleftrightarrow> c \<noteq> CHR ''.'' \<and> \<not> is_digit c"

text \<open>The fraction: the part after the period, if there is one, and whether it has digits.\<close>

definition parse_fraction :: "string \<Rightarrow> u64 \<times> rat \<times> bool \<times> string" where
  "parse_fraction s =
     (case s of
        [] \<Rightarrow> (0, 1, False, [])
      | c # s1 \<Rightarrow>
          if c = CHR ''.'' then
            (case leadingFraction 0 1 False s1 of (f, scale, s2) \<Rightarrow> (f, scale, length s2 \<noteq> length s1, s2))
          else (0, 1, False, s))"

definition part_value :: "u64 \<Rightarrow> u64 \<Rightarrow> rat \<Rightarrow> u64 \<Rightarrow> u64 option" where
  "part_value v f scale un =
     (if v > 2 ^ 63 div un then None
      else
        (let v1 = v * un in
         if f > 0 then
           (let v2 = v1 + word_of_int \<lfloor>f64_mul (f64_round (of_int (uint f))) (f64_div (f64_round (of_int (uint un))) scale)\<rfloor>
            in if v2 > 2 ^ 63 then None else Some v2)
         else Some v1))"

text \<open>The body of the loop: a number, a fraction and a unit.\<close>

definition parse_part :: "string \<Rightarrow> (u64 \<times> string) option" where
  "parse_part s =
     (if s = [] \<or> \<not> (hd s = CHR ''.'' \<or> is_digit (hd s)) then None
      else
        (case leadingInt 0 s of
           None \<Rightarrow> None
         | Some (v, s1) \<Rightarrow>
             (case parse_fraction s1 of
                (f, scale, post, s2) \<Rightarrow>
                  if length s1 = length s \<and> \<not> post then None
                  else
                    (let u = takeWhile unit_char s2; s3 = dropWhile unit_char s2 in
                     if u = [] then None
                     else
                       (case map_of unitMap u of
                          None \<Rightarrow> None
                        | Some un \<Rightarrow> map_option (\<lambda>w. (w, s3)) (part_value v f scale un))))))"

lemma leadingInt_length: "leadingInt x s = Some (y, r) \<Longrightarrow> length r \<le> length s"
proof (induction x s rule: leadingInt.induct)
  case (2 x c s)
  then show ?case by (cases "is_digit c") (auto simp: Let_def split: if_splits intro: le_SucI)
qed simp

lemma leadingFraction_length: "leadingFraction x sc ov s = (y, sc', r) \<Longrightarrow> length r \<le> length s"
proof (induction x sc ov s rule: leadingFraction.induct)
  case (2 x scale overflow c s)
  then show ?case by (cases "is_digit c") (auto simp: Let_def split: if_splits intro: le_SucI)
qed simp

lemma parse_fraction_length: "parse_fraction s = (f, sc, post, r) \<Longrightarrow> length r \<le> length s"
  by (auto simp: parse_fraction_def dest!: leadingFraction_length split: list.splits if_splits prod.splits)

lemma parse_part_length:
  assumes "parse_part s = Some (v, r)"
  shows "length r < length s"
proof -
  obtain v0 s1 f sc post s2 where p: "leadingInt 0 s = Some (v0, s1)" "parse_fraction s1 = (f, sc, post, s2)"
    "takeWhile unit_char s2 \<noteq> []" "r = dropWhile unit_char s2"
    using assms by (auto simp: parse_part_def Let_def split: if_splits option.splits prod.splits)
  have "length (takeWhile unit_char s2) + length r = length s2"
    unfolding p(4) by (metis length_append takeWhile_dropWhile_id)
  moreover have "length (takeWhile unit_char s2) > 0" using p(3) by simp
  ultimately show ?thesis using leadingInt_length [OF p(1)] parse_fraction_length [OF p(2)] by linarith
qed

function parse_loop :: "u64 \<Rightarrow> string \<Rightarrow> u64 option" where
  "parse_loop d s =
     (if s = [] then Some d
      else
        (case parse_part s of
           None \<Rightarrow> None
         | Some (v, r) \<Rightarrow> if d + v > 2 ^ 63 then None else parse_loop (d + v) r))"
  by pat_completeness auto

termination
  by (relation "measure (\<lambda>(d, s). length s)") (auto dest: parse_part_length)

declare parse_loop.simps [simp del]

definition ParseDuration :: "string \<Rightarrow> duration option" where
  "ParseDuration orig =
     (let neg = (orig \<noteq> [] \<and> hd orig = CHR ''-'');
          s = (if orig \<noteq> [] \<and> (hd orig = CHR ''-'' \<or> hd orig = CHR ''+'') then tl orig else orig)
      in if s = ''0'' then Some 0
         else if s = [] then None
         else
           (case parse_loop 0 s of
              None \<Rightarrow> None
            | Some d \<Rightarrow>
                if neg then Some (sint (- d))
                else if d > 2 ^ 63 - 1 then None
                else Some (sint d)))"

text \<open>The new value of the field and whether an error is returned.\<close>

definition UnmarshalText :: "string \<Rightarrow> duration \<times> bool" where
  "UnmarshalText text = (case ParseDuration text of None \<Rightarrow> (0, True) | Some v \<Rightarrow> (v, False))"

section \<open>Numbers\<close>

text \<open>What a string of digits stands for, and what the parser reads after \<open>x\<close>.\<close>

definition dec_from :: "nat \<Rightarrow> string \<Rightarrow> nat" where
  "dec_from x s = foldl (\<lambda>n c. n * 10 + digit_val c) x s"

lemma dec_from_simps [simp]:
  "dec_from x [] = x" "dec_from x (c # s) = dec_from (x * 10 + digit_val c) s"
  "dec_from x (s @ t) = dec_from (dec_from x s) t"
  by (simp_all add: dec_from_def)

lemma dec_from_ge: "x \<le> dec_from x s"
proof (induction s arbitrary: x)
  case (Cons c s)
  from Cons.IH [of "x * 10 + digit_val c"] show ?case by simp
qed simp

lemma digit_chars: "n < 10 \<Longrightarrow> is_digit (char_of (48 + n)) \<and> digit_val (char_of (48 + n)) = n"
  by (simp add: is_digit_def digit_val_def)

lemma itoa_dec: "dec_from 0 (itoa n) = n \<and> list_all is_digit (itoa n) \<and> itoa n \<noteq> []"
proof (induction n rule: itoa.induct)
  case (1 n)
  show ?case
  proof (cases "n < 10")
    case True
    then show ?thesis using digit_chars [of n] by (simp add: itoa.simps [of n])
  next
    case False
    then have "dec_from 0 (itoa (n div 10)) = n div 10 \<and> list_all is_digit (itoa (n div 10))" using 1 by simp
    then show ?thesis using False digit_chars [of "n mod 10"] by (simp add: itoa.simps [of n])
  qed
qed

lemma digit_val_le: "is_digit c \<Longrightarrow> digit_val c \<le> 9"
  unfolding is_digit_def digit_val_def by linarith

lemma unat_half: "unat (2 ^ 63 :: u64) = 2 ^ 63"
  by simp

lemma unat_of_nat_small: "n < 2 ^ 64 \<Longrightarrow> unat (of_nat n :: u64) = n"
  by (simp add: unat_of_nat take_bit_nat_eq_self)

text \<open>One digit: the two overflow checks decide exactly whether the number is within \<open>2\<close> to the \<open>63\<close>.\<close>

lemma leadingInt_digit:
  assumes "is_digit c" and "x \<le> 2 ^ 63"
  shows "leadingInt (of_nat x) (c # s) =
    (if x * 10 + digit_val c \<le> 2 ^ 63 then leadingInt (of_nat (x * 10 + digit_val c)) s else None)"
proof -
  have x: "unat (of_nat x :: u64) = x" using assms(2) by (intro unat_of_nat_small) simp
  have d: "digit_val c \<le> 9" by (rule digit_val_le [OF assms(1)])
  have big: "(of_nat x > (2 ^ 63 div 10 :: u64)) \<longleftrightarrow> x > 2 ^ 63 div 10"
    by (simp add: word_less_nat_alt x)
  show ?thesis
  proof (cases "x > 2 ^ 63 div 10")
    case True
    then have "\<not> x * 10 + digit_val c \<le> 2 ^ 63" by simp
    then show ?thesis using True assms(1) big by simp
  next
    case False
    then have "x * 10 + digit_val c < 2 ^ 64" using d by simp
    then have "unat (of_nat (x * 10 + digit_val c) :: u64) = x * 10 + digit_val c" by (intro unat_of_nat_small) simp
    then have "(of_nat (x * 10 + digit_val c) > (2 ^ 63 :: u64)) \<longleftrightarrow> x * 10 + digit_val c > 2 ^ 63"
      by (simp add: word_less_nat_alt)
    then show ?thesis using False assms(1) big by (simp add: Let_def not_less leD)
  qed
qed

lemma leadingInt_digits:
  assumes "list_all is_digit s" and "x \<le> 2 ^ 63"
  shows "leadingInt (of_nat x) (s @ t) =
    (if dec_from x s \<le> 2 ^ 63 then leadingInt (of_nat (dec_from x s)) t else None)"
  using assms
proof (induction s arbitrary: x)
  case (Cons c s)
  show ?case
  proof (cases "x * 10 + digit_val c \<le> 2 ^ 63")
    case True
    then show ?thesis
      using Cons.IH [OF _ True] Cons.prems leadingInt_digit [of c x "s @ t"] by simp
  next
    case False
    then have "\<not> dec_from (x * 10 + digit_val c) s \<le> 2 ^ 63"
      using dec_from_ge [of "x * 10 + digit_val c" s] by linarith
    then show ?thesis using False Cons.prems leadingInt_digit [of c x "s @ t"] by simp
  qed
qed simp

section \<open>A number and a unit\<close>

lemma unit_names:
  assumes "map_of unitMap u = Some w"
  shows "u \<noteq> []" "list_all unit_char u" "0 < unat w"
proof -
  have "u \<noteq> [] \<and> list_all unit_char u \<and> 0 < unat w"
    using assms by (auto simp: unitMap_def unit_char_def is_digit_def split: if_splits)
  then show "u \<noteq> []" "list_all unit_char u" "0 < unat w" by simp_all
qed

text \<open>What may follow a part: nothing or another number.\<close>

definition starts_number :: "string \<Rightarrow> bool" where
  "starts_number r \<longleftrightarrow> r = [] \<or> is_digit (hd r)"

lemma unit_span:
  assumes "list_all unit_char u" and "starts_number r"
  shows "takeWhile unit_char (u @ r) = u" "dropWhile unit_char (u @ r) = r"
proof -
  have stop: "\<not> unit_char (hd r)" if "r \<noteq> []" using assms(2) that by (auto simp: starts_number_def unit_char_def)
  have "takeWhile unit_char r = []" "dropWhile unit_char r = r" using stop by (cases r; simp)+
  then show "takeWhile unit_char (u @ r) = u" "dropWhile unit_char (u @ r) = r"
    using assms(1) by (simp_all add: takeWhile_append2 dropWhile_append2 list_all_iff)
qed

lemma part_value_whole:
  assumes "n \<le> 2 ^ 63" and "0 < unat w"
  shows "part_value (of_nat n) 0 1 w = (if n * unat w \<le> 2 ^ 63 then Some (of_nat (n * unat w)) else None)"
proof -
  have n: "unat (of_nat n :: u64) = n" using assms(1) by (intro unat_of_nat_small) simp
  have "(of_nat n > (2 ^ 63 div w)) \<longleftrightarrow> n > 2 ^ 63 div unat w"
    by (simp add: word_less_nat_alt n unat_div)
  moreover have "n > 2 ^ 63 div unat w \<longleftrightarrow> n * unat w > 2 ^ 63"
    using assms(2) by (simp add: div_less_iff_less_mult)
  ultimately show ?thesis by (simp add: part_value_def not_less)
qed

lemma parse_part_itoa:
  assumes "map_of unitMap u = Some w" and "starts_number r"
  shows "parse_part (itoa n @ u @ r) = (if n * unat w \<le> 2 ^ 63 then Some (of_nat (n * unat w), r) else None)"
proof -
  note u = unit_names [OF assms(1)]
  have i: "list_all is_digit (itoa n)" "itoa n \<noteq> []" "dec_from 0 (itoa n) = n" using itoa_dec by auto
  then have first: "itoa n @ u @ r \<noteq> []" "is_digit (hd (itoa n @ u @ r))" by (auto simp: list_all_iff neq_Nil_conv)
  obtain c u' where cu: "u = c # u'" "\<not> is_digit c" "c \<noteq> CHR ''.''" using u(1,2) by (cases u) (auto simp: unit_char_def)
  have stop: "leadingInt x (u @ r) = Some (x, u @ r)" for x using cu by simp
  show ?thesis
  proof (cases "n \<le> 2 ^ 63")
    case True
    have "leadingInt 0 (itoa n @ u @ r) = Some (of_nat n, u @ r)"
      using leadingInt_digits [OF i(1), of 0 "u @ r"] True i(3) stop by simp
    moreover have "parse_fraction (u @ r) = (0, 1, False, u @ r)" using cu by (simp add: parse_fraction_def)
    ultimately show ?thesis
      using first i(2) u(1) assms(1) unit_span [OF u(2) assms(2)] part_value_whole [OF True u(3)]
      by (simp add: parse_part_def)
  next
    case False
    moreover have "n \<le> n * unat w" using u(3) by simp
    ultimately have "\<not> n * unat w \<le> 2 ^ 63" by linarith
    moreover have "leadingInt 0 (itoa n @ u @ r) = None"
      using leadingInt_digits [OF i(1), of 0 "u @ r"] False i(3) by simp
    ultimately show ?thesis using first by (simp add: parse_part_def)
  qed
qed

section \<open>A duration of whole parts\<close>

definition render_parts :: "(nat \<times> string) list \<Rightarrow> string" where
  "render_parts ps = concat (map (\<lambda>(n, u). itoa n @ u) ps)"

definition part_nanos :: "nat \<times> string \<Rightarrow> nat" where
  "part_nanos p = fst p * (case map_of unitMap (snd p) of None \<Rightarrow> 0 | Some w \<Rightarrow> unat w)"

definition known_units :: "(nat \<times> string) list \<Rightarrow> bool" where
  "known_units ps \<longleftrightarrow> list_all (\<lambda>p. map_of unitMap (snd p) \<noteq> None) ps"

lemma render_starts: "starts_number (render_parts ps)"
proof (cases ps)
  case (Cons p qs)
  then show ?thesis using itoa_dec [of "fst p"] by (cases "itoa (fst p)") (auto simp: render_parts_def starts_number_def split_beta)
qed (simp add: render_parts_def starts_number_def)

text \<open>
  What the parser makes of the parts: it adds them up in 64 bits and compares each sum with \<open>2\<close> to the \<open>63\<close>, so
  one sum escapes the check, that of two halves of the range.
\<close>

fun add_parts :: "nat \<Rightarrow> nat list \<Rightarrow> nat option" where
  "add_parts d [] = Some d"
| "add_parts d (v # vs) =
     (if v > 2 ^ 63 then None
      else if d + v = 2 ^ 64 then add_parts 0 vs
      else if d + v > 2 ^ 63 then None
      else add_parts (d + v) vs)"

lemma add_parts_le: "add_parts d vs = Some e \<Longrightarrow> d \<le> 2 ^ 63 \<Longrightarrow> e \<le> 2 ^ 63"
  by (induction d vs rule: add_parts.induct) (auto split: if_splits)

text \<open>The parts add up to half of the range, and another half follows.\<close>

definition halves :: "nat \<Rightarrow> nat list \<Rightarrow> bool" where
  "halves d vs \<longleftrightarrow> (\<exists>i < length vs. d + sum_list (take i vs) = 2 ^ 63 \<and> vs ! i = 2 ^ 63)"

lemma halves_Cons: "halves d (v # vs) \<longleftrightarrow> d = 2 ^ 63 \<and> v = 2 ^ 63 \<or> halves (d + v) vs"
  by (auto simp: halves_def less_Suc_eq_0_disj add.assoc)

lemma add_parts_sum:
  assumes "d \<le> 2 ^ 63" and "\<not> halves d vs"
  shows "add_parts d vs = (if d + sum_list vs \<le> 2 ^ 63 then Some (d + sum_list vs) else None)"
  using assms
proof (induction vs arbitrary: d)
  case (Cons v vs)
  have "d + v \<noteq> 2 ^ 64" if "v \<le> 2 ^ 63"
    using that Cons.prems by (auto simp: halves_Cons)
  then show ?case using Cons by (auto simp: halves_Cons)
qed simp

lemma small_no_halves: "d + sum_list vs \<le> 2 ^ 63 \<Longrightarrow> \<not> halves d vs"
proof (induction vs arbitrary: d)
  case (Cons v vs)
  then show ?case by (auto simp: halves_Cons add.assoc)
qed (simp add: halves_def)

lemma parse_loop_render:
  assumes "known_units ps" and "d \<le> 2 ^ 63"
  shows "parse_loop (of_nat d) (render_parts ps) = map_option of_nat (add_parts d (map part_nanos ps))"
  using assms
proof (induction ps arbitrary: d)
  case (Cons p ps)
  obtain w where w: "map_of unitMap (snd p) = Some w" using Cons.prems(1) by (auto simp: known_units_def)
  have v: "part_nanos p = fst p * unat w" by (simp add: part_nanos_def w)
  have r: "render_parts (p # ps) = itoa (fst p) @ snd p @ render_parts ps" "render_parts (p # ps) \<noteq> []"
    using itoa_dec [of "fst p"] by (simp_all add: render_parts_def split_beta)
  have part: "parse_part (render_parts (p # ps)) = (if part_nanos p \<le> 2 ^ 63 then Some (of_nat (part_nanos p), render_parts ps) else None)"
    unfolding r(1) v by (rule parse_part_itoa [OF w render_starts])
  have ps: "known_units ps" using Cons.prems(1) by (simp add: known_units_def)
  note loop = parse_loop.simps [of "of_nat d" "render_parts (p # ps)"]
  have "d + part_nanos p \<le> 2 ^ 64" if "part_nanos p \<le> 2 ^ 63" using that Cons.prems(2) by simp
  then consider "part_nanos p > 2 ^ 63" | "part_nanos p \<le> 2 ^ 63" "d + part_nanos p = 2 ^ 64"
    | "part_nanos p \<le> 2 ^ 63" "d + part_nanos p < 2 ^ 64"
    by (meson le_neq_implies_less not_le)
  then show ?case
  proof cases
    case 1
    then show ?thesis using part r(2) loop by simp
  next
    case 2
    have "(of_nat d + of_nat (part_nanos p) :: u64) = of_nat (d + part_nanos p)" by simp
    also have "\<dots> = 0" unfolding 2(2) by simp
    finally have "(of_nat d + of_nat (part_nanos p) :: u64) = 0" .
    then show ?thesis using part r(2) loop 2 Cons.IH [OF ps, of 0] by simp
  next
    case 3
    have "unat (of_nat (d + part_nanos p) :: u64) = d + part_nanos p" using 3(2) by (rule unat_of_nat_small)
    then have "(of_nat d + of_nat (part_nanos p) > (2 ^ 63 :: u64)) \<longleftrightarrow> d + part_nanos p > 2 ^ 63"
      by (simp add: word_less_nat_alt)
    then show ?thesis using part r(2) loop 3 Cons.IH [OF ps, of "d + part_nanos p"] by simp
  qed
qed (simp add: render_parts_def parse_loop.simps)

lemma parse_loop_le: "parse_loop d s = Some e \<Longrightarrow> d \<le> 2 ^ 63 \<Longrightarrow> e \<le> 2 ^ 63"
proof (induction d s rule: parse_loop.induct)
  case (1 d s)
  from 1(2) show ?case
    using 1 unfolding parse_loop.simps [of d s] by (auto split: if_splits option.splits prod.splits)
qed

lemma render_head:
  assumes "ps \<noteq> []" and "known_units ps"
  shows "render_parts ps \<noteq> []" "is_digit (hd (render_parts ps))" "render_parts ps \<noteq> ''0''"
proof -
  obtain p qs where p: "ps = p # qs" using assms(1) by (cases ps) auto
  have "render_parts ps = itoa (fst p) @ snd p @ render_parts qs" by (simp add: render_parts_def p split_beta)
  moreover have "itoa (fst p) \<noteq> []" using itoa_dec by simp
  moreover have "snd p \<noteq> []" using assms(2) p by (auto simp: known_units_def dest: unit_names(1))
  moreover have "starts_number (render_parts ps)" by (rule render_starts)
  ultimately show "render_parts ps \<noteq> []" "is_digit (hd (render_parts ps))" "render_parts ps \<noteq> ''0''"
    by (auto simp: starts_number_def append_eq_Cons_conv)
qed

lemma sint_word_of_int: "- (2 ^ 63) \<le> k \<Longrightarrow> k < 2 ^ 63 \<Longrightarrow> sint (word_of_int k :: u64) = k"
  by (simp add: sint_sbintrunc' signed_take_bit_int_eq_self)

lemma sint_small: "n \<le> 2 ^ 63 - 1 \<Longrightarrow> sint (of_nat n :: u64) = int n"
  "n \<le> 2 ^ 63 \<Longrightarrow> sint (- of_nat n :: u64) = - int n"
  using sint_word_of_int [of "int n"] sint_word_of_int [of "- int n"] by simp_all

lemma ParseDuration_render:
  assumes "known_units ps" and "ps \<noteq> []"
  shows "ParseDuration (render_parts ps) =
      (case parse_loop 0 (render_parts ps) of None \<Rightarrow> None | Some d \<Rightarrow> if d > 2 ^ 63 - 1 then None else Some (sint d))"
    "ParseDuration (CHR ''-'' # render_parts ps) = map_option (\<lambda>d. sint (- d)) (parse_loop 0 (render_parts ps))"
proof -
  note h = render_head [OF assms(2,1)]
  have "hd (render_parts ps) \<noteq> CHR ''-''" "hd (render_parts ps) \<noteq> CHR ''+''" using h(2) by (auto simp: is_digit_def)
  then show "ParseDuration (render_parts ps) =
      (case parse_loop 0 (render_parts ps) of None \<Rightarrow> None | Some d \<Rightarrow> if d > 2 ^ 63 - 1 then None else Some (sint d))"
    "ParseDuration (CHR ''-'' # render_parts ps) = map_option (\<lambda>d. sint (- d)) (parse_loop 0 (render_parts ps))"
    using h by (auto simp: ParseDuration_def Let_def split: option.splits)
qed

lemma UnmarshalText_range:
  "- (2 ^ 63) \<le> fst (UnmarshalText s)" "fst (UnmarshalText s) < 2 ^ 63" "snd (UnmarshalText s) \<Longrightarrow> fst (UnmarshalText s) = 0"
proof -
  have s: "- (2 ^ 63) \<le> sint w \<and> sint w < 2 ^ 63" for w :: u64
    using sint_ge [of w] sint_lt [of w] by simp
  have z: "- (2 ^ 63) \<le> (0::int) \<and> (0::int) < 2 ^ 63" by simp
  have "ParseDuration s = Some v \<Longrightarrow> - (2 ^ 63) \<le> v \<and> v < 2 ^ 63" for v
    unfolding ParseDuration_def Let_def using s z by (auto split: if_splits option.splits)
  then show "- (2 ^ 63) \<le> fst (UnmarshalText s)" "fst (UnmarshalText s) < 2 ^ 63"
    "snd (UnmarshalText s) \<Longrightarrow> fst (UnmarshalText s) = 0"
    using z by (auto simp: UnmarshalText_def split: option.splits)
qed

text \<open>
  C32. Durations are read exactly as the parser's 64-bit sums allow. A text of one or more whole numbers
  with known units stands for the sum of the parts in nanoseconds: the field gets that value when it is below
  \<open>2\<close> to the \<open>63\<close>, and its negative, down to minus \<open>2\<close> to the \<open>63\<close>, when a minus sign comes first. A larger sum
  is an error, with one exception: when the first parts add up to exactly \<open>2\<close> to the \<open>63\<close> and the next part is
  \<open>2\<close> to the \<open>63\<close> again, the sum wraps to zero and no error is returned. In every case the result is the one that
  \<open>add_parts\<close> computes. Whatever the text, the field is within the range of \<^verbatim>\<open>int64\<close>, and zero when an error is
  returned.
\<close>

theorem durations_parse_exactly:
  assumes "known_units ps" and "ps \<noteq> []"
  shows "(sum_list (map part_nanos ps) \<le> 2 ^ 63 - 1 \<longrightarrow>
      UnmarshalText (render_parts ps) = (int (sum_list (map part_nanos ps)), False)) \<and>
    (sum_list (map part_nanos ps) \<le> 2 ^ 63 \<longrightarrow>
      UnmarshalText (CHR ''-'' # render_parts ps) = (- int (sum_list (map part_nanos ps)), False)) \<and>
    (2 ^ 63 \<le> sum_list (map part_nanos ps) \<and> \<not> halves 0 (map part_nanos ps) \<longrightarrow>
      UnmarshalText (render_parts ps) = (0, True)) \<and>
    (2 ^ 63 < sum_list (map part_nanos ps) \<and> \<not> halves 0 (map part_nanos ps) \<longrightarrow>
      UnmarshalText (CHR ''-'' # render_parts ps) = (0, True)) \<and>
    UnmarshalText (render_parts ps) =
      (case add_parts 0 (map part_nanos ps) of
         None \<Rightarrow> (0, True) | Some d \<Rightarrow> if d \<le> 2 ^ 63 - 1 then (int d, False) else (0, True)) \<and>
    UnmarshalText (CHR ''-'' # render_parts ps) =
      (case add_parts 0 (map part_nanos ps) of None \<Rightarrow> (0, True) | Some d \<Rightarrow> (- int d, False)) \<and>
    (\<forall>s. - (2 ^ 63) \<le> fst (UnmarshalText s) \<and> fst (UnmarshalText s) < 2 ^ 63 \<and>
      (snd (UnmarshalText s) \<longrightarrow> fst (UnmarshalText s) = 0))"
proof -
  let ?vs = "map part_nanos ps"
  have loop: "parse_loop 0 (render_parts ps) = map_option of_nat (add_parts 0 ?vs)"
    using parse_loop_render [OF assms(1), of 0] by simp
  have gt: "(of_nat d > (2 ^ 63 - 1 :: u64)) \<longleftrightarrow> d > 2 ^ 63 - 1" if "add_parts 0 ?vs = Some d" for d
    using unat_of_nat_small [of d] add_parts_le [OF that] by (simp add: word_less_nat_alt)
  have pos: "UnmarshalText (render_parts ps) = (case add_parts 0 ?vs of
      None \<Rightarrow> (0, True) | Some d \<Rightarrow> if d \<le> 2 ^ 63 - 1 then (int d, False) else (0, True))"
    using loop gt sint_small(1) by (auto simp: UnmarshalText_def ParseDuration_render [OF assms] split: option.splits)
  have neg: "UnmarshalText (CHR ''-'' # render_parts ps) =
      (case add_parts 0 ?vs of None \<Rightarrow> (0, True) | Some d \<Rightarrow> (- int d, False))"
    using loop sint_small(2) add_parts_le [of 0 ?vs]
    by (auto simp: UnmarshalText_def ParseDuration_render [OF assms] split: option.splits)
  have sum: "add_parts 0 ?vs = (if sum_list ?vs \<le> 2 ^ 63 then Some (sum_list ?vs) else None)" if "\<not> halves 0 ?vs"
    using add_parts_sum [OF _ that] by simp
  have small: "\<not> halves 0 ?vs" if "sum_list ?vs \<le> 2 ^ 63" using small_no_halves [of 0 ?vs] that by simp
  show ?thesis
    using small sum UnmarshalText_range by (intro conjI impI allI pos neg) (auto simp: pos neg)
qed

text \<open>The exception occurs: a text for \<open>2\<close> to the \<open>64\<close> nanoseconds is read as zero.\<close>

theorem durations_parse_exactly_witness:
  "render_parts [(1, ''h''), (30, ''m'')] = ''1h30m'' \<and> UnmarshalText ''1h30m'' = (5400 * Second, False) \<and>
   UnmarshalText ''-1h30m'' = (- 5400 * Second, False) \<and> UnmarshalText (render_parts [(2 ^ 63, ''ns'')]) = (0, True) \<and>
   UnmarshalText (render_parts [(2 ^ 63, ''ns''), (1, ''ns''), (2 ^ 63, ''ns'')]) = (0, True) \<and>
   UnmarshalText (render_parts [(2 ^ 63, ''ns''), (2 ^ 63, ''ns'')]) = (0, False)"
proof -
  have r: "render_parts [(1, ''h''), (30, ''m'')] = ''1h30m''" by (simp add: render_parts_def itoa.simps char_of_def bit_0)
  have k: "known_units [(1, ''h''), (30, ''m'')]" "known_units [(2 ^ 63, ''ns'')]"
    "known_units [(2 ^ 63, ''ns''), (1, ''ns''), (2 ^ 63, ''ns'')]" "known_units [(2 ^ 63, ''ns''), (2 ^ 63, ''ns'')]"
    by (simp_all add: known_units_def unitMap_def)
  have v: "map part_nanos [(1, ''h''), (30, ''m'')] = [3600000000000, 1800000000000]"
    "map part_nanos [(2 ^ 63, ''ns'')] = [2 ^ 63]"
    "map part_nanos [(2 ^ 63, ''ns''), (1, ''ns''), (2 ^ 63, ''ns'')] = [2 ^ 63, 1, 2 ^ 63]"
    "map part_nanos [(2 ^ 63, ''ns''), (2 ^ 63, ''ns'')] = [2 ^ 63, 2 ^ 63]" by (simp_all add: part_nanos_def unitMap_def)
  from durations_parse_exactly [OF k(1)] durations_parse_exactly [OF k(2)] durations_parse_exactly [OF k(3)]
    durations_parse_exactly [OF k(4)] show ?thesis
    unfolding v r by (simp add: r Second_def)
qed

section \<open>Examples\<close>

lemma parse_examples:
  "UnmarshalText ''0'' = (0, False)" "UnmarshalText [] = (0, True)" "UnmarshalText ''invalid'' = (0, True)"
  "UnmarshalText ''30'' = (0, True)" "UnmarshalText ''1d'' = (0, True)" "UnmarshalText ''.s'' = (0, True)"
  by (simp_all add: UnmarshalText_def ParseDuration_def parse_loop.simps parse_part_def is_digit_def digit_val_def Let_def
    parse_fraction_def unitMap_def unit_char_def)

end
