(* ===== verification/Flags.thy ===== *)
theory Flags
  imports Config
begin

text \<open>
  The command line of \<^verbatim>\<open>cmd/micelio/main.go\<close>: its five string flags, read the way Go's \<^verbatim>\<open>flag\<close> package
  reads them for a program that exits on an error, and the configuration that follows from it.
\<close>

section \<open>Parsing\<close>

text \<open>\<^verbatim>\<open>flag.Parse\<close> ends the program with status 0 when help is asked for, else with status 2.\<close>

datatype flag_exit = ExitHelp | ExitUsage

definition no_flags :: flags where
  "no_flags = \<lparr>fl_config = [], fl_dataDir = [], fl_sshListen = [], fl_name = [], fl_logLevel = []\<rparr>"

definition set_flag :: "string \<Rightarrow> string \<Rightarrow> flags \<Rightarrow> flags option" where
  "set_flag name value fl =
     (if name = ''config'' then Some (fl\<lparr>fl_config := value\<rparr>)
      else if name = ''data-dir'' then Some (fl\<lparr>fl_dataDir := value\<rparr>)
      else if name = ''ssh-listen'' then Some (fl\<lparr>fl_sshListen := value\<rparr>)
      else if name = ''name'' then Some (fl\<lparr>fl_name := value\<rparr>)
      else if name = ''log-level'' then Some (fl\<lparr>fl_logLevel := value\<rparr>)
      else None)"

text \<open>A name with the value after its first \<^verbatim>\<open>=\<close>, if it has one.\<close>

fun split_name :: "string \<Rightarrow> string \<times> string option" where
  "split_name [] = ([], None)"
| "split_name (c # s) =
     (if c = CHR ''='' then ([], Some s) else (case split_name s of (name, given) \<Rightarrow> (c # name, given)))"

definition ends_flags :: "string \<Rightarrow> bool" where
  "ends_flags s \<longleftrightarrow> length s < 2 \<or> hd s \<noteq> CHR ''-'' \<or> s = ''--''"

definition strip_minus :: "string \<Rightarrow> string" where
  "strip_minus s = (if s ! 1 = CHR ''-'' then drop 2 s else drop 1 s)"

fun parse_flags :: "string list \<Rightarrow> flags \<Rightarrow> flag_exit + flags" where
  "parse_flags [] fl = Inr fl"
| "parse_flags (s # args) fl =
     (if ends_flags s then Inr fl
      else
        (let text = strip_minus s in
         if text = [] \<or> hd text = CHR ''-'' \<or> hd text = CHR ''='' then Inl ExitUsage
         else
           (case split_name text of
              (name, given) \<Rightarrow>
                if set_flag name [] fl = None
                then Inl (if name = ''help'' \<or> name = ''h'' then ExitHelp else ExitUsage)
                else
                  (case given of
                     Some value \<Rightarrow> parse_flags args (the (set_flag name value fl))
                   | None \<Rightarrow>
                       (case args of
                          [] \<Rightarrow> Inl ExitUsage
                        | value # rest \<Rightarrow> parse_flags rest (the (set_flag name value fl)))))))"

text \<open>\<^verbatim>\<open>main\<close> up to the resolved data directory.\<close>

datatype args_error = FlagExit flag_exit | ArgsStart start_error

definition main_args ::
  "(string \<Rightarrow> Config \<Rightarrow> Config option) \<Rightarrow> environ \<Rightarrow> string list \<Rightarrow> log_state \<Rightarrow> args_error + Config \<times> log_state" where
  "main_args toml_Decode env args lst =
     (case parse_flags args no_flags of
        Inl e \<Rightarrow> Inl (FlagExit e)
      | Inr fl \<Rightarrow> map_sum ArgsStart id (main_configure toml_Decode env fl lst))"

section \<open>The command lines that are accepted\<close>

record setting =
  set_two :: bool
  set_name :: string
  set_joined :: bool
  set_value :: string

definition words :: "setting \<Rightarrow> string list" where
  "words x =
     (let opt = (if set_two x then ''--'' else ''-'') @ set_name x in
      if set_joined x then [opt @ ''='' @ set_value x] else [opt, set_value x])"

definition flag_names :: "string set" where
  "flag_names = {''config'', ''data-dir'', ''ssh-listen'', ''name'', ''log-level''}"

definition give :: "setting \<Rightarrow> flags \<Rightarrow> flags" where
  "give x fl = the (set_flag (set_name x) (set_value x) fl)"

text \<open>The value given last for a name, or the default of all flags, the empty string.\<close>

definition last_given :: "string \<Rightarrow> setting list \<Rightarrow> string" where
  "last_given name xs = fold (\<lambda>x v. if set_name x = name then set_value x else v) xs []"

lemma set_flag_known: "set_flag name value fl = None \<longleftrightarrow> name \<notin> flag_names"
  by (simp add: set_flag_def flag_names_def)

lemma flag_name_chars:
  "name \<in> flag_names \<Longrightarrow> name \<noteq> []" "name \<in> flag_names \<Longrightarrow> hd name \<noteq> CHR ''-''"
  "name \<in> flag_names \<Longrightarrow> CHR ''='' \<notin> set name"
  by (auto simp: flag_names_def)

text \<open>Splitting at the first \<^verbatim>\<open>=\<close>.\<close>

lemma split_name_plain: "CHR ''='' \<notin> set name \<Longrightarrow> split_name name = (name, None)"
  by (induction name) auto

lemma split_name_joined: "CHR ''='' \<notin> set name \<Longrightarrow> split_name (name @ CHR ''='' # value) = (name, Some value)"
  by (induction name) auto

lemma split_name_eq: "split_name s = (name, given) \<Longrightarrow> s = (case given of None \<Rightarrow> name | Some value \<Rightarrow> name @ CHR ''='' # value)"
  by (induction s arbitrary: name given) (auto split: prod.splits if_splits option.splits)

lemma strip_minus_eq:
  assumes "\<not> ends_flags s"
  shows "s = (if s ! 1 = CHR ''-'' then ''--'' else ''-'') @ strip_minus s"
proof -
  obtain c d r where "s = c # d # r" using assms by (cases s rule: remdups_adj.cases) (auto simp: ends_flags_def)
  then show ?thesis using assms by (auto simp: ends_flags_def strip_minus_def)
qed

text \<open>A setting as it is written is read as the setting it is.\<close>

lemma opt_word:
  fixes rest :: string
  assumes "set_name x \<in> flag_names"
  defines "opt \<equiv> (if set_two x then ''--'' else ''-'') @ set_name x @ rest"
  shows "\<not> ends_flags opt" "strip_minus opt = set_name x @ rest"
    "strip_minus opt \<noteq> []" "hd (strip_minus opt) \<noteq> CHR ''-''" "hd (strip_minus opt) \<noteq> CHR ''=''"
proof -
  obtain c r where n: "set_name x = c # r" "c \<noteq> CHR ''-''" "c \<noteq> CHR ''=''"
    using flag_name_chars [OF assms(1)] by (cases "set_name x") auto
  show "strip_minus opt = set_name x @ rest" using n by (simp add: opt_def strip_minus_def)
  with n show "\<not> ends_flags opt" "strip_minus opt \<noteq> []" "hd (strip_minus opt) \<noteq> CHR ''-''" "hd (strip_minus opt) \<noteq> CHR ''=''"
    by (simp_all add: opt_def ends_flags_def)
qed

lemma parse_words:
  assumes "set_name x \<in> flag_names"
  shows "parse_flags (words x @ args) fl = parse_flags args (give x fl)"
proof -
  note n = flag_name_chars(3) [OF assms]
  obtain fl1 where known: "set_flag (set_name x) [] fl = Some fl1"
    using assms set_flag_known [of "set_name x" "[]" fl] by fastforce
  show ?thesis
  proof (cases "set_joined x")
    case True
    note o = opt_word [OF assms, of "''='' @ set_value x"]
    show ?thesis
      using o known True n by (simp add: words_def Let_def split_name_joined give_def)
  next
    case False
    note o = opt_word [OF assms, of "[]"]
    show ?thesis
      using o known False n by (simp add: words_def Let_def split_name_plain give_def)
  qed
qed

lemma parse_settings:
  "set_name ` set xs \<subseteq> flag_names \<Longrightarrow> rest = [] \<or> ends_flags (hd rest) \<Longrightarrow>
     parse_flags (concat (map words xs) @ rest) fl = Inr (fold give xs fl)"
proof (induction xs arbitrary: fl)
  case Nil
  then show ?case by (cases rest) simp_all
qed (simp add: parse_words)

lemma parse_accepts:
  "parse_flags args fl = Inr fl' \<Longrightarrow>
     \<exists>xs rest. args = concat (map words xs) @ rest \<and> set_name ` set xs \<subseteq> flag_names \<and>
       (rest = [] \<or> ends_flags (hd rest)) \<and> fl' = fold give xs fl"
proof (induction args fl rule: parse_flags.induct)
  case (2 s args fl)
  show ?case
  proof (cases "ends_flags s")
    case True
    with 2 show ?thesis by (intro exI [of _ "[]"] exI [of _ "s # args"]) simp
  next
    case False
    obtain name given where sp: "split_name (strip_minus s) = (name, given)" by fastforce
    have tx: "\<not> (strip_minus s = [] \<or> hd (strip_minus s) = CHR ''-'' \<or> hd (strip_minus s) = CHR ''='')"
      and known: "set_flag name [] fl \<noteq> None" "name \<in> flag_names"
      using 2(3) False sp by (auto simp: Let_def set_flag_known split: if_splits)
    have s: "s = (if s ! 1 = CHR ''-'' then ''--'' else ''-'') @ (case given of None \<Rightarrow> name | Some value \<Rightarrow> name @ CHR ''='' # value)"
      using strip_minus_eq [OF False] split_name_eq [OF sp] by simp
    let ?x = "\<lambda>joined value. \<lparr>set_two = s ! 1 = CHR ''-'', set_name = name, set_joined = joined, set_value = value\<rparr>"
    have step: "\<exists>xs rest. s # args = concat (map words xs) @ rest \<and> set_name ` set xs \<subseteq> flag_names \<and>
        (rest = [] \<or> ends_flags (hd rest)) \<and> fl' = fold give xs fl"
      if "\<exists>xs rest. rem = concat (map words xs) @ rest \<and> set_name ` set xs \<subseteq> flag_names \<and>
        (rest = [] \<or> ends_flags (hd rest)) \<and> fl' = fold give xs (give (?x joined val) fl)"
        and "s # args = words (?x joined val) @ rem" for rem joined val
    proof -
      from that(1) obtain xs rest where "rem = concat (map words xs) @ rest" "set_name ` set xs \<subseteq> flag_names"
        "rest = [] \<or> ends_flags (hd rest)" "fl' = fold give xs (give (?x joined val) fl)" by blast
      then show ?thesis using that(2) known(2) by (intro exI [of _ "?x joined val # xs"] exI [of _ rest]) auto
    qed
    show ?thesis
    proof (cases given)
      case None
      then obtain val rest where a: "args = val # rest"
        using 2(3) False sp tx known(1) by (auto simp: Let_def split: list.splits)
      have ih: "parse_flags rest (the (set_flag name val fl)) = Inr fl'"
        using 2(3) False sp tx known(1) None a by (simp add: Let_def)
      have w: "s # args = words (?x False val) @ rest" using s None a by (simp add: words_def)
      have g: "the (set_flag name val fl) = give (?x False val) fl" by (simp add: give_def)
      show ?thesis by (rule step [OF _ w], fold g) (rule 2(1) [OF False refl tx sp [symmetric] known(1) None a ih])
    next
      case (Some val)
      have ih: "parse_flags args (the (set_flag name val fl)) = Inr fl'"
        using 2(3) False sp tx known(1) Some by (simp add: Let_def)
      have w: "s # args = words (?x True val) @ args" using s Some by (simp add: words_def)
      have g: "the (set_flag name val fl) = give (?x True val) fl" by (simp add: give_def)
      show ?thesis by (rule step [OF _ w], fold g) (rule 2(2) [OF False refl tx sp [symmetric] known(1) Some ih])
    qed
  qed
qed (intro exI [of _ "[]"], simp)

text \<open>Every flag ends with the value given for it last.\<close>

lemma give_fields:
  assumes "set_name x \<in> flag_names"
  shows "fl_config (give x fl) = (if set_name x = ''config'' then set_value x else fl_config fl)"
    "fl_dataDir (give x fl) = (if set_name x = ''data-dir'' then set_value x else fl_dataDir fl)"
    "fl_sshListen (give x fl) = (if set_name x = ''ssh-listen'' then set_value x else fl_sshListen fl)"
    "fl_name (give x fl) = (if set_name x = ''name'' then set_value x else fl_name fl)"
    "fl_logLevel (give x fl) = (if set_name x = ''log-level'' then set_value x else fl_logLevel fl)"
  using assms by (auto simp: give_def set_flag_def flag_names_def)

lemma give_all:
  assumes "set_name ` set xs \<subseteq> flag_names"
  shows "fl_config (fold give xs no_flags) = last_given ''config'' xs"
    "fl_dataDir (fold give xs no_flags) = last_given ''data-dir'' xs"
    "fl_sshListen (fold give xs no_flags) = last_given ''ssh-listen'' xs"
    "fl_name (fold give xs no_flags) = last_given ''name'' xs"
    "fl_logLevel (fold give xs no_flags) = last_given ''log-level'' xs"
  using assms unfolding last_given_def
  by (induction xs rule: rev_induct) (simp_all add: no_flags_def give_fields)

lemma apply_flags_name: "nc_Name (cf_Node (apply_flags env fl c0)) = (if fl_name fl \<noteq> [] then fl_name fl else nc_Name (cf_Node c0))"
  by (simp add: apply_flags_def Let_def)

lemma main_configure_name:
  assumes "main_configure td env fl lst = Inr (c, lst')" and "config_Load td env (fl_config fl) = Inr c0"
  shows "nc_Name (cf_Node c) = (if fl_name fl \<noteq> [] then fl_name fl else nc_Name (cf_Node c0))"
proof -
  have "nc_Name (cf_Node c) = nc_Name (cf_Node (apply_flags env fl c0))"
    using assms unfolding main_configure_def Let_def by (auto split: if_splits)
  then show ?thesis by (simp only: apply_flags_name)
qed

section \<open>Property\<close>

text \<open>
  C31. A node only starts with a usable configuration, from a command line it understands. The arguments
  are settings of the five flags, each written with one or two dashes and its value after an equals sign or
  as the next argument, followed by arguments that are not flags and are ignored; the value given last for
  a flag counts. In the configuration the peer limit is not negative; every bootstrap address is, once
  white space around it is trimmed, one that peer discovery would accept, and as the node dials the address
  untrimmed, the address it dials is such a one only if it is configured without white space around it; the
  log level is the one named by the first of command
  line, file and environment that names one, the command line overrides the file, and the manager made
  from it advertises nothing or an address that other nodes accept, provided that the configured address
  has no white space around it. Conversely every such list of arguments is understood.
\<close>

theorem command_line_configures:
  assumes "main_args td env args lst = Inr (c, lst')"
  shows "(\<exists>xs rest c0. args = concat (map words xs) @ rest \<and> set_name ` set xs \<subseteq> flag_names \<and> (rest = [] \<or> ends_flags (hd rest)) \<and>
    config_Load td env (last_given ''config'' xs) = Inr c0 \<and> Validate c = [] \<and> 0 \<le> nw_MaxPeers (cf_Network c) \<and>
    (\<forall>a\<in>set (nw_Bootstrap (cf_Network c)). \<not> isInvalidPeerAddr (TrimSpace a)) \<and>
    (\<forall>a\<in>set (nw_Bootstrap (cf_Network c)). TrimSpace a = a \<longrightarrow> \<not> isInvalidPeerAddr a) \<and>
    named_level (ToLower (TrimSpace
      (if last_given ''log-level'' xs \<noteq> [] then last_given ''log-level'' xs
       else if lc_Level (cf_Logging c0) \<noteq> [] then lc_Level (cf_Logging c0) else env_LogLevel env)))
      = Some (log_level lst') \<and>
    sc_Listen (cf_SSH c) =
      (if last_given ''ssh-listen'' xs \<noteq> [] then last_given ''ssh-listen'' xs else sc_Listen (cf_SSH c0)) \<and>
    nc_Name (cf_Node c) = (if last_given ''name'' xs \<noteq> [] then last_given ''name'' xs else nc_Name (cf_Node c0)) \<and>
    nc_DataDir (cf_Node c) =
      expandHome env (if last_given ''data-dir'' xs \<noteq> [] then last_given ''data-dir'' xs else nc_DataDir (cf_Node c0))) \<and>
    (m_cfg m = net_config c \<longrightarrow> TrimSpace (nw_AdvertiseAddr (cf_Network c)) = nw_AdvertiseAddr (cf_Network c) \<longrightarrow>
     (\<forall>host port. SplitHostPort (listenAddr m) = Some (host, port) \<longrightarrow> port \<noteq> []) \<longrightarrow>
     advertiseAddr m = [] \<or> \<not> isInvalidPeerAddr (advertiseAddr m)) \<and>
    (\<forall>xs rest. set_name ` set xs \<subseteq> flag_names \<and> (rest = [] \<or> ends_flags (hd rest)) \<longrightarrow>
       parse_flags (concat (map words xs) @ rest) no_flags = Inr (fold give xs no_flags))"
proof -
  obtain fl where fl: "parse_flags args no_flags = Inr fl" and c: "main_configure td env fl lst = Inr (c, lst')"
    using assms by (auto simp: main_args_def map_sum_def split: sum.splits)
  from parse_accepts [OF fl] obtain xs rest where xs: "args = concat (map words xs) @ rest"
    "set_name ` set xs \<subseteq> flag_names" "rest = [] \<or> ends_flags (hd rest)" "fl = fold give xs no_flags" by blast
  note f = give_all [OF xs(2), folded xs(4)]
  note name = main_configure_name [OF c]
  from started_config_usable [OF c, of m, unfolded f] obtain c0 where
    c0: "config_Load td env (last_given ''config'' xs) = Inr c0" and usable: "Validate c = []" "0 \<le> nw_MaxPeers (cf_Network c)"
    "\<forall>a\<in>set (nw_Bootstrap (cf_Network c)). \<not> isInvalidPeerAddr (TrimSpace a)"
    and level: "named_level (ToLower (TrimSpace
      (if last_given ''log-level'' xs \<noteq> [] then last_given ''log-level'' xs
       else if lc_Level (cf_Logging c0) \<noteq> [] then lc_Level (cf_Logging c0) else env_LogLevel env))) = Some (log_level lst')"
    and over: "sc_Listen (cf_SSH c) =
      (if last_given ''ssh-listen'' xs \<noteq> [] then last_given ''ssh-listen'' xs else sc_Listen (cf_SSH c0))"
      "nc_DataDir (cf_Node c) =
        expandHome env (if last_given ''data-dir'' xs \<noteq> [] then last_given ''data-dir'' xs else nc_DataDir (cf_Node c0))"
    and adv: "m_cfg m = net_config c \<longrightarrow> TrimSpace (nw_AdvertiseAddr (cf_Network c)) = nw_AdvertiseAddr (cf_Network c) \<longrightarrow>
     (\<forall>host port. SplitHostPort (listenAddr m) = Some (host, port) \<longrightarrow> port \<noteq> []) \<longrightarrow>
     advertiseAddr m = [] \<or> \<not> isInvalidPeerAddr (advertiseAddr m)"
    by blast
  note name = name [unfolded f, OF c0]
  from usable(3) have dialed: "\<forall>a\<in>set (nw_Bootstrap (cf_Network c)). TrimSpace a = a \<longrightarrow> \<not> isInvalidPeerAddr a" by metis
  show ?thesis
    by (rule conjI [OF _ conjI [OF adv]], intro exI conjI; (rule xs(1-3) c0 usable dialed level over name)?)
      (blast intro: parse_settings)
qed

theorem command_line_configures_witness:
  "main_args (demo_toml ''[::1]:80'') demo_environ [''-data-dir'', ''/x'', ''--data-dir=~/node'', ''--'', ''-h''] demo_log =
     Inr (demo_started ''[::1]:80'') \<and>
   0 \<le> nw_MaxPeers (cf_Network (fst (demo_started ''[::1]:80''))) \<and>
   parse_flags [''-name''] no_flags = Inl ExitUsage \<and> parse_flags [''--help''] no_flags = Inl ExitHelp"
proof -
  let ?args = "[''-data-dir'', ''/x'', ''--data-dir=~/node'', ''--'', ''-h'']"
  have p: "parse_flags ?args no_flags = Inr demo_flags" "parse_flags [''-name''] no_flags = Inl ExitUsage"
    "parse_flags [''--help''] no_flags = Inl ExitHelp" by code_simp+
  then have run: "main_args (demo_toml ''[::1]:80'') demo_environ ?args demo_log =
      Inr (fst (demo_started ''[::1]:80''), snd (demo_started ''[::1]:80''))"
    using demo_starts(1) by (simp add: main_args_def)
  from command_line_configures [OF run, of "demo_with ''[::1]:80''"] run p show ?thesis by auto
qed

end
