(* ===== verification/Spec2Isabelle.thy ===== *)
theory Spec2Isabelle
  imports Network Wire Dialing SSHDrain PeerDisk Duration Flags
begin

text \<open>
  \<^bold>\<open>micelio\<close> is a peer-to-peer chat node. Users log in over SSH and talk on a local partyline; nodes
  connect to one another over encrypted links and spread the users' lines by gossip. This
  development models the node's own logic and proves what makes it correct.

  \<^bold>\<open>The parts and how they interact.\<close> \<^verbatim>\<open>main\<close> reads the configuration, loads the identity, opens the store
  and starts the hub, the transport manager and the SSH server. A user's terminal joins the hub and
  broadcasts lines; the hub sends each line to the other sessions and queues it for the transport. The
  manager signs it, hands it to the gossip engine, and the engine gives it to the peers' send queues. A
  peer connection (Noise, then frames, then envelopes) writes the queue and reads what comes in: gossip
  goes to the engine, which checks signature, rate and novelty, delivers chat to the hub and relays it;
  peer lists go to discovery, which keeps the table of known peers, saves it and dials.

  \<^bold>\<open>Theories and sources\<close> (paths under \<^verbatim>\<open>src/\<close>):
  \<^item> \<^verbatim>\<open>Prelude\<close>: bytes, times, maps and their iteration order; \<^verbatim>\<open>GoLib\<close>, \<^verbatim>\<open>GoStrings\<close>: what the code uses of
    Go's standard library (big-endian integers, hexadecimal, host and port, IP addresses, white space,
    paths, shuffling); \<^verbatim>\<open>F64\<close>: float64 arithmetic with rounding to nearest even.
  \<^item> \<^verbatim>\<open>Envelope\<close>: \<^verbatim>\<open>pkg/proto/envelope.go\<close> and the message structs of \<^verbatim>\<open>micelio.pb.go\<close>. Signatures survive
    relaying; the signed bytes do not fix the boundaries of the fields.
  \<^item> \<^verbatim>\<open>Frame\<close>, \<^verbatim>\<open>Noise\<close>: \<^verbatim>\<open>internal/transport/frame.go\<close> and \<^verbatim>\<open>noise.go\<close>. Round trips of frames, plain and
    encrypted, and exactness of the frame parser. Both readers are instances of the locale
    \<^verbatim>\<open>byte_source\<close>.
  \<^item> \<^verbatim>\<open>SeenCache\<close>, \<^verbatim>\<open>KeyRing\<close>, \<^verbatim>\<open>RateLimiter\<close>, \<^verbatim>\<open>Engine\<close>: \<^verbatim>\<open>internal/gossip/\<close>. The caches are instances of the
    locales \<^verbatim>\<open>dedup_cache\<close> and \<^verbatim>\<open>key_store\<close>; the engine relies on its peers through \<^verbatim>\<open>message_sink\<close>. The
    engine's handler is modelled twice: as one function, and cut at its lock operations into stages
    that a step relation interleaves; the safety theorems are about all interleavings, and one
    theorem shows that the two agree. The fields a signature leaves out are shown to be taken as they come.
  \<^item> \<^verbatim>\<open>PartyLine\<close>: \<^verbatim>\<open>internal/partyline/partyline.go\<close>. No run panics; lines reach the other sessions; only
    local lines leave.
  \<^item> \<^verbatim>\<open>Commands\<close>, \<^verbatim>\<open>SSHServer\<close>: \<^verbatim>\<open>internal/ssh/commands.go\<close> and \<^verbatim>\<open>server.go\<close>. The effect of a typed line; a step
    relation for connections, authentication, terminals and shutdown, whose invariant ties terminals
    to members of the hub through the locale \<^verbatim>\<open>membership\<close>. \<^verbatim>\<open>SSHDrain\<close>: after \<^verbatim>\<open>Stop\<close> the steps left to the
    goroutines end, with no handler and no session left.
  \<^item> \<^verbatim>\<open>Identity\<close>, \<^verbatim>\<open>KeyFile\<close>: \<^verbatim>\<open>internal/identity/identity.go\<close>, \<^verbatim>\<open>internal/crypto/keys.go\<close>. The identity survives
    restarts.
  \<^item> \<^verbatim>\<open>Peer\<close>, \<^verbatim>\<open>Manager\<close>, \<^verbatim>\<open>Discovery\<close>, \<^verbatim>\<open>Node\<close>: \<^verbatim>\<open>internal/transport/peer.go\<close>, \<^verbatim>\<open>manager.go\<close>, \<^verbatim>\<open>discovery.go\<close>. The hello
    exchange authenticates; queued messages are dispatched in order; merging, exchanging, saving and
    dialing known peers; \<^verbatim>\<open>Node\<close> puts manager and engine together in the relation \<^verbatim>\<open>node_step\<close> with its
    invariant, and shows that honest nodes connect. \<^verbatim>\<open>Dialing\<close>: how a dial that discovery launched ends, and what
    later ticks make of it. \<^verbatim>\<open>Wire\<close>: every frame in a send queue is of one of the three kinds a node may send.
  \<^item> \<^verbatim>\<open>Lifecycle\<close>: what \<^verbatim>\<open>Manager.Start\<close> launches, when its loops return, the loops of \<^verbatim>\<open>Peer.Run\<close> and that they
    end, and the connection that \<^verbatim>\<open>Manager.Stop\<close> misses.
  \<^item> \<^verbatim>\<open>Store\<close>: \<^verbatim>\<open>internal/store/bolt/bolt.go\<close> refines a map; \<^verbatim>\<open>PeerDisk\<close>: the persistence of known peers, done
    on that store, simulates the manager's model of it.
  \<^item> \<^verbatim>\<open>Logging\<close>: \<^verbatim>\<open>internal/logging/logging.go\<close> and \<^verbatim>\<open>capture.go\<close>: log lines reach the handler they should.
  \<^item> \<^verbatim>\<open>Duration\<close>, \<^verbatim>\<open>Config\<close>: \<^verbatim>\<open>internal/config/config.go\<close>. Durations are read exactly; validation is exact.
  \<^item> \<^verbatim>\<open>Flags\<close>, \<^verbatim>\<open>Startup\<close>: \<^verbatim>\<open>cmd/micelio/main.go\<close>: the command lines that are accepted and the configuration
    they lead to; a node that starts satisfies the invariants of its parts;
    \<^verbatim>\<open>Composition\<close>: the running program, transport and SSH server stepping in any order on the hub they
    share, keeps them until the shutdown.
  \<^item> \<^verbatim>\<open>Network\<close>: a message at one node and along a path of nodes; this theory: a chat line sent at one node
    reaches the hub of every node on such a path, whichever peers the nodes chose to forward to, and is
    passed on by a node with hops left and no more peers to forward to than the fanout.

  \<^bold>\<open>How the model is made.\<close> A struct is a record and a method a function on it, with the names of the
  source (prefixed where they clash). Go's maps are finite maps and the order of a \<^verbatim>\<open>range\<close> is an argument;
  random choices, the clock and the results of reads are arguments as well. Integers that can wrap
  are words; \<^verbatim>\<open>float64\<close> is a rational with every operation rounded. Pointers that are shared (sessions)
  live in a store. Goroutines are the steps of \<^verbatim>\<open>sys_step\<close>, \<^verbatim>\<open>node_step\<close>, \<^verbatim>\<open>ssh_step\<close>, \<^verbatim>\<open>peer_step\<close> and
  \<^verbatim>\<open>run_step\<close>. Errors and panics are values.

  \<^bold>\<open>What is one step.\<close> In \<^verbatim>\<open>sys_step\<close> a step ends at each lock operation of the gossip handler. The steps
  of a node are coarser: \<^verbatim>\<open>receive\<close> handles one frame, with all of \<^verbatim>\<open>HandleIncoming\<close> or
  \<^verbatim>\<open>mergeDiscoveredPeers\<close>; \<^verbatim>\<open>tryDiscoveryDials\<close> selects and marks its candidates, which the code does under
  two locks, and \<^verbatim>\<open>onPeerConnected\<close> greets a peer in one step. So the node's invariant is shown between
  frames, and what may happen inside the handler is the subject of the theorems on \<^verbatim>\<open>sys_step\<close>. In \<^verbatim>\<open>ssh_step\<close>
  \<^verbatim>\<open>conn_done\<close> makes the three deferred calls of a connection's handler at once. A \<^verbatim>\<open>peer_step\<close> is a step of
  the connection alone; that the callback of the receive loop may wait for the hub's queue is not part of
  it. \<^verbatim>\<open>main_stop\<close> stops the server, the manager and the hub; the cancelled context is the choice, open to
  every loop at any time, to return because of it, and the wait of the server's \<^verbatim>\<open>Stop\<close>, which gives up after
  five seconds, is not a step: what the handlers still do is shown with the hub running.

  \<^bold>\<open>Idealised.\<close> The failure counter of a known peer and the times are unbounded integers (\<^verbatim>\<open>int\<close> and
  \<^verbatim>\<open>int64\<close> in the code). The law of the JSON codec is stated for all records, though \<^verbatim>\<open>encoding/json\<close>
  replaces bytes that are not UTF-8; the strings of a record come from protobuf messages, whose strings must
  be UTF-8. A connection's bytes
  that were read before a failure are not put back, and a file that could not be written in full keeps its
  first bytes.

  \<^bold>\<open>Parameters.\<close> Third-party code is an argument: SHA and Ed25519 (\<^verbatim>\<open>crypto\<close>, with \<open>keypair_ok\<close>: signatures of
  a key pair verify), the protobuf and JSON codec (\<^verbatim>\<open>codec\<close>, with \<open>codec_ok\<close>: what was encoded is decoded),
  the Noise library (\<^verbatim>\<open>noise_lib\<close>), bbolt (\<^verbatim>\<open>bolt\<close>,
  with \<open>bolt_ok\<close>, and its files, with \<open>bolt_files_ok\<close>), the key formats (\<^verbatim>\<open>keylib\<close>, with
  \<open>keylib_ok\<close>), the TOML decoder and the parser of authorised keys. Where a theorem has such a hypothesis
  a witness instantiates it.

  \<^bold>\<open>Termination and bounds.\<close> Loops that end are total functions; reading loops recurse on the bytes
  that are left; the loop over the authorised keys is partial and returns if the parser consumes its
  input; endless service loops are modelled by their iterations. What remains of a connection after it is
  closed, and of the SSH server after \<^verbatim>\<open>Stop\<close>, is a well-founded step relation whose end states are the
  finished ones. Queues are bounded as in the code
  (64 lines, 64 messages). Session counters are assumed not to wrap (fewer than \<open>2^64\<close> sessions).

  \<^bold>\<open>Not modelled.\<close> The generated accessors and wire format of \<^verbatim>\<open>micelio.pb.go\<close> (generated code over a
  library), the formatting of log records by \<^verbatim>\<open>slog\<close>, listening sockets and deadlines beyond their
  failures, the delivery of signals, and the SSH and terminal protocols (libraries).
\<close>

section \<open>Properties\<close>

text \<open>
  C5. A chat message crosses the network. When node \<open>a\<close>'s hub has handed a local message to the
  transport, an iteration of the fanout loop appends one signed envelope to the send queue of every
  connected peer with room. On every path of nodes where the first receives these bytes and each of the
  others receives the frame that the one before it added to the queue for it, whichever peers each node
  chose to forward to, every node that has not seen the message, has the sender within its rate and knows
  no other key for it appends the line \<^verbatim>\<open>[nick] text\<close> to its own hub's queue. And a node on the path that
  has hops left, is connected to no more peers than the fanout and the one the frame came from, and has
  room in the queue for its next peer, which is not that one, adds to it the same message with one hop less.
\<close>

theorem chat_crosses_the_network:
  assumes "codec_ok cd" and "node_inv cr cd a"
    and "sendable cr cd (m_id (n_mgr a)) uuid
      \<lparr>chat_Nick = rm_Nick msg, chat_Text = rm_Text msg, chat_Timestamp = word_of_int (Unix ta)\<rparr> payload"
    and "remote_recv (m_hub (n_mgr a)) = Some (msg, hub')"
    and "env_Marshal cd (chat_env cr uuid (MaxHops (n_eng a)) (m_id (n_mgr a)) payload) = Some raw"
    and "range_order (rt_order rta) (m_peers (n_mgr a))"
    and "fmlookup (m_peers (n_mgr a)) k = Some pb" and "length (sendCh pb) < 64"
    and "on_path cr cd nl raw path"
    and "\<forall>s \<in> set path. node_inv cr cd (st_node s) \<and> accepts (m_id (n_mgr a)) uuid s"
  shows "sendq (n_mgr (fanout_iter cr cd rta uuid ta a)) k = Some (sendCh pb @ [raw]) \<and>
    (\<forall>s \<in> set path. hub_broadcast (m_hub (n_mgr (receive cr cd nl (st_rt s) (st_now s) (st_from s) (st_node s)))) =
      hub_broadcast (m_hub (n_mgr (st_node s))) @
        [\<lparr>bm_from = None, bm_text = ''['' @ rm_Nick msg @ ''] '' @ rm_Text msg, bm_system = True\<rparr>]) \<and>
    (\<forall>j < length path. \<forall>raw'. passes_on (path ! j) \<and> Suc j < unat (MaxHops (n_eng a)) \<and>
      env_Marshal cd (chat_env cr uuid (MaxHops (n_eng a) - of_nat (Suc j)) (m_id (n_mgr a)) payload) = Some raw' \<longrightarrow>
      passes cr cd nl raw' (path ! j))"
proof -
  have "sendq (n_mgr (fanout_iter cr cd rta uuid ta a)) k = Some (sendCh pb @ [raw])"
    using assms(3,8) by (intro fanout_queues [OF assms(2,4) _ assms(5,6,7)]) (simp_all add: sendable_def sendChCap_def)
  moreover have "hub_broadcast (m_hub (n_mgr (receive cr cd nl (st_rt s) (st_now s) (st_from s) (st_node s)))) =
      hub_broadcast (m_hub (n_mgr (st_node s))) @
        [\<lparr>bm_from = None, bm_text = ''['' @ rm_Nick msg @ ''] '' @ rm_Text msg, bm_system = True\<rparr>]" if "s \<in> set path" for s
    using that path_delivers(1) [OF assms(1,3,9,10,5)]
    by (metis ChatMessage.select_convs(1,2) chat_line_def in_set_conv_nth st_after_def)
  moreover note path_delivers(2) [OF assms(1,3,9,10,5)]
  ultimately show ?thesis by blast
qed

section \<open>Witness\<close>

definition demo_chat :: ChatMessage where
  "demo_chat = \<lparr>chat_Nick = ''ann'', chat_Text = ''hi'', chat_Timestamp = 0\<rparr>"

text \<open>The envelope with ten hops left, and with nine.\<close>

definition demo_chat_env :: "u32 \<Rightarrow> Envelope" where
  "demo_chat_env h = chat_env demo_crypto ''m1'' h (demo_id 1) [6]"

definition demo_chat_codec :: "PeerRecord codec" where
  "demo_chat_codec = \<lparr>env_Marshal = (\<lambda>e. if e = demo_chat_env 10 then Some [7] else if e = demo_chat_env 9 then Some [8] else None),
     env_Unmarshal = (\<lambda>b. if b = [7] then Some (demo_chat_env 10) else if b = [8] then Some (demo_chat_env 9) else None),
     hello_Marshal = (\<lambda>_. None), hello_Unmarshal = (\<lambda>_. None),
     chat_Marshal = (\<lambda>c. if c = demo_chat then Some [6] else None),
     chat_Unmarshal = (\<lambda>b. if b = [6] then Some demo_chat else None), px_Marshal = (\<lambda>_. None), px_Unmarshal = (\<lambda>_. None),
     json_Marshal = (\<lambda>_. None), json_Unmarshal = (\<lambda>_. None)\<rparr>"

text \<open>The connection of node \<open>x\<close> to node \<open>y\<close>, on which the bytes \<open>buf\<close> have been decrypted.\<close>

definition demo_linked_peer :: "byte \<Rightarrow> byte \<times> bytes \<Rightarrow> nat Peer" where
  "demo_linked_peer x = (\<lambda>(y, buf).
     (newPeer ((new_noiseConn 10 20 [] [] [])\<lparr>nc_readBuf := buf\<rparr>) [] (demo_id x) True)\<lparr>
        p_NodeID := NodeID (demo_id y), edPubKey := replicate 32 y, has_onPeerExchange := True,
        has_onGossipMessage := True\<rparr>)"

definition demo_linked :: "byte \<Rightarrow> (byte \<times> bytes) list \<Rightarrow> RemoteMsg list \<Rightarrow> nat Node" where
  "demo_linked x ys out = \<lparr>n_mgr = (demo_mgr x [])\<lparr>
       m_peers := fold (\<lambda>y. fmupd (NodeID (demo_id (fst y))) (demo_linked_peer x y)) ys fmempty,
       m_hub := (NewHub ''n'')\<lparr>remoteSend := Some out\<rparr>\<rparr>,
     n_eng = RegisterHandler MsgTypeChat (chat_handler demo_chat_codec) (NewEngine (NodeID (demo_id x)) peerHandles)\<rparr>"

lemma demo_linked_sel [simp]:
  "m_id (n_mgr (demo_linked x ys out)) = demo_id x"
  "m_peers (n_mgr (demo_linked x [y] out)) = fmupd (NodeID (demo_id (fst y))) (demo_linked_peer x y) fmempty"
  "m_peers (n_mgr (demo_linked x [y, z] out)) =
     fmupd (NodeID (demo_id (fst z))) (demo_linked_peer x z) (fmupd (NodeID (demo_id (fst y))) (demo_linked_peer x y) fmempty)"
  "m_hub (n_mgr (demo_linked x ys out)) = (NewHub ''n'')\<lparr>remoteSend := Some out\<rparr>"
  "n_eng (demo_linked x ys out) = RegisterHandler MsgTypeChat (chat_handler demo_chat_codec) (NewEngine (NodeID (demo_id x)) peerHandles)"
  "sendCh (demo_linked_peer x y) = []" "p_NodeID (demo_linked_peer x y) = NodeID (demo_id (fst y))"
  "has_onGossipMessage (demo_linked_peer x y)"
  by (simp_all add: demo_linked_def demo_mgr_def demo_linked_peer_def newPeer_def split_beta)

lemma demo_linked_inv:
  assumes "length out \<le> 64" and "length ys \<le> 2"
  shows "node_inv demo_crypto demo_chat_codec (demo_linked x ys out)"
proof (rule node_invI)
  have ok: "peer_ok demo_crypto (NodeID (demo_id (fst y))) (demo_linked_peer x y)" for y
    by (simp add: peer_ok_def demo_linked_peer_def newPeer_def demo_ids PublicKeySize_def split_beta)
  have hub: "hub_inv ((NewHub ''n'')\<lparr>remoteSend := Some out\<rparr>)"
    using assms(1) by (simp add: hub_inv_def NewHub_def good_map_def ChanCap_def)
  have "m_peers (n_mgr (demo_linked x ys out)) = fold (\<lambda>y. fmupd (NodeID (demo_id (fst y))) (demo_linked_peer x y)) ys fmempty"
    by (simp add: demo_linked_def)
  moreover consider "ys = []" | y where "ys = [y]" | y z where "ys = [y, z]"
    using assms(2) by (cases ys rule: remdups_adj.cases) auto
  then have "peers_inv demo_crypto (n_mgr (demo_linked x ys out))"
    using ok [of "(_, _)"] by cases (auto simp: peers_inv_alt demo_linked_def demo_mgr_def demo_ids(1) fcard.rep_eq card_insert_if)
  then show "mgr_inv demo_crypto (n_mgr (demo_linked x ys out))"
    using hub by (simp add: mgr_inv_def demo_linked_def demo_mgr_def known_inv_def)
  show "eng_inv demo_crypto demo_chat_codec (n_eng (demo_linked x ys out))"
    by (simp add: eng_inv_def RegisterHandler_def NewEngine_def)
qed

abbreviation demo_rt :: "byte list \<Rightarrow> runtime" where
  "demo_rt xs \<equiv> \<lparr>rt_allow = 0, rt_check = 0, rt_order = map (\<lambda>x. NodeID (demo_id x)) xs, rt_draws = (\<lambda>_. 0)\<rparr>"

text \<open>Node 2 receives the frame from node 1 and is connected to node 3 as well; node 3 receives its copy from node 2.\<close>

definition demo_second :: "nat Station" where
  "demo_second = \<lparr>st_node = demo_linked 2 [(1, frame_buf [7]), (3, [])] [], st_from = NodeID (demo_id 1),
     st_to = NodeID (demo_id 3), st_rt = demo_rt [1, 3], st_now = 0\<rparr>"

definition demo_third :: "nat Station" where
  "demo_third = \<lparr>st_node = demo_linked 3 [(2, frame_buf [8])] [], st_from = NodeID (demo_id 2),
     st_to = [], st_rt = demo_rt [], st_now = 0\<rparr>"

lemma demo_chat_codec_sel:
  "demo_chat_env 9 \<noteq> demo_chat_env 10"
  "env_Marshal demo_chat_codec (chat_env demo_crypto ''m1'' 10 (demo_id 1) [6]) = Some [7]"
  "env_Marshal demo_chat_codec (chat_env demo_crypto ''m1'' 9 (demo_id 1) [6]) = Some [8]"
  "codec_ok demo_chat_codec"
proof -
  have "HopCount (demo_chat_env h) = h" for h by (simp add: demo_chat_env_def chat_env_def frame_simps)
  then have "HopCount (demo_chat_env 9) \<noteq> HopCount (demo_chat_env 10)" by simp
  then show ne: "demo_chat_env 9 \<noteq> demo_chat_env 10" by metis
  show "env_Marshal demo_chat_codec (chat_env demo_crypto ''m1'' 10 (demo_id 1) [6]) = Some [7]"
    "env_Marshal demo_chat_codec (chat_env demo_crypto ''m1'' 9 (demo_id 1) [6]) = Some [8]"
    using ne by (simp_all add: demo_chat_codec_def flip: demo_chat_env_def)
  show "codec_ok demo_chat_codec"
    using ne by (auto simp: codec_ok_def demo_chat_codec_def split: if_splits)
qed

lemma demo_sendable: "sendable demo_crypto demo_chat_codec (demo_id 1) ''m1'' demo_chat [6]"
  using demo_id_ok [of 1] by (simp add: sendable_def demo_chat_codec_def engine_consts MaxFieldLen_def MaxGossipPayload_def)
    (simp add: demo_crypto_def)

lemma demo_stations:
  "node_inv demo_crypto demo_chat_codec (st_node demo_second)" "node_inv demo_crypto demo_chat_codec (st_node demo_third)"
  "arrives demo_noise [7] demo_second" "arrives demo_noise [8] demo_third"
  "accepts (demo_id 1) ''m1'' demo_second" "accepts (demo_id 1) ''m1'' demo_third" "passes_on demo_second"
proof -
  show "node_inv demo_crypto demo_chat_codec (st_node demo_second)" "node_inv demo_crypto demo_chat_codec (st_node demo_third)"
    by (simp_all add: demo_second_def demo_third_def demo_linked_inv)
  have pending: "noise_pending demo_noise (p_conn (demo_linked_peer x (y, buf))) = buf" for x y buf
    by (simp add: demo_linked_peer_def newPeer_def new_noiseConn_def noise_pending_def plain_contents.simps
        next_message_def stream_ReadFull_def)
  show "arrives demo_noise [7] demo_second" "arrives demo_noise [8] demo_third"
    by (simp_all add: arrives_def demo_second_def demo_third_def pending demo_ids MaxPayload_def)
  have allowed: "fst (rl_Allow k 0 (NewRateLimiter r))" for k r
    by (simp add: rl_Allow_unfold NewRateLimiter_def)
  show "accepts (demo_id 1) ''m1'' demo_second" "accepts (demo_id 1) ''m1'' demo_third"
    by (simp_all add: accepts_def demo_second_def demo_third_def Let_def RegisterHandler_def NewEngine_def seen_defs
        kr_defs allowed)
  show "passes_on demo_second"
    by (simp add: passes_on_def demo_second_def Let_def range_order_def demo_ids RegisterHandler_def NewEngine_def
        engine_consts sendq_def sendChCap_def fcard.rep_eq) blast
qed

lemma demo_path: "on_path demo_crypto demo_chat_codec demo_noise [7] [demo_second, demo_third]"
proof -
  obtain q where "sendq (n_mgr (st_after demo_crypto demo_chat_codec demo_noise demo_second)) (st_to demo_second) = Some (q @ [[8]])"
    using station_forwards [OF demo_chat_codec_sel(4) demo_stations(1,3) demo_sendable demo_stations(5,7)
        demo_chat_codec_sel(2), of "[8]"] demo_chat_codec_sel(3) by auto
  moreover have "sendq (n_mgr (st_node demo_second)) (st_to demo_second) = Some []"
    by (simp add: demo_second_def sendq_def)
  ultimately show ?thesis
    using station_forwards [OF demo_chat_codec_sel(4) demo_stations(1,3) demo_sendable demo_stations(5,7)
        demo_chat_codec_sel(2), of "[8]"] demo_chat_codec_sel(3) demo_stations by auto
qed

theorem chat_crosses_the_network_witness:
  "sendq (n_mgr (fanout_iter demo_crypto demo_chat_codec (demo_rt [2]) ''m1'' 0
       (demo_linked 1 [(2, [])] [\<lparr>rm_Nick = ''ann'', rm_Text = ''hi''\<rparr>]))) (NodeID (demo_id 2)) = Some [[7]] \<and>
   hub_broadcast (m_hub (n_mgr (st_after demo_crypto demo_chat_codec demo_noise demo_second))) =
     [\<lparr>bm_from = None, bm_text = ''[ann] hi'', bm_system = True\<rparr>] \<and>
   hub_broadcast (m_hub (n_mgr (st_after demo_crypto demo_chat_codec demo_noise demo_third))) =
     [\<lparr>bm_from = None, bm_text = ''[ann] hi'', bm_system = True\<rparr>] \<and>
   passes demo_crypto demo_chat_codec demo_noise [8] demo_second"
proof -
  let ?a = "demo_linked 1 [(2, [])] [\<lparr>rm_Nick = ''ann'', rm_Text = ''hi''\<rparr>]"
  let ?msg = "\<lparr>rm_Nick = ''ann'', rm_Text = ''hi''\<rparr>" and ?path = "[demo_second, demo_third]"
  have hops: "MaxHops (n_eng ?a) = 10" by (simp add: MaxHops_def RegisterHandler_def NewEngine_def engine_consts)
  have hubs: "hub_broadcast (m_hub (n_mgr (st_node demo_second))) = []" "hub_broadcast (m_hub (n_mgr (st_node demo_third))) = []"
    by (simp_all add: demo_second_def demo_third_def NewHub_def)
  have chat: "demo_chat = \<lparr>chat_Nick = rm_Nick ?msg, chat_Text = rm_Text ?msg, chat_Timestamp = word_of_int (Unix 0)\<rparr>"
    by (simp add: demo_chat_def Unix_def)
  have "sendq (n_mgr (fanout_iter demo_crypto demo_chat_codec (demo_rt [2]) ''m1'' 0 ?a)) (NodeID (demo_id 2)) =
      Some (sendCh (demo_linked_peer 1 (2, [])) @ [[7]]) \<and>
    (\<forall>s \<in> set ?path. hub_broadcast (m_hub (n_mgr (receive demo_crypto demo_chat_codec demo_noise (st_rt s) (st_now s) (st_from s) (st_node s)))) =
      hub_broadcast (m_hub (n_mgr (st_node s))) @
        [\<lparr>bm_from = None, bm_text = ''['' @ rm_Nick ?msg @ ''] '' @ rm_Text ?msg, bm_system = True\<rparr>]) \<and>
    (\<forall>j < length ?path. \<forall>raw'. passes_on (?path ! j) \<and> Suc j < unat (MaxHops (n_eng ?a)) \<and>
      env_Marshal demo_chat_codec (chat_env demo_crypto ''m1'' (MaxHops (n_eng ?a) - of_nat (Suc j)) (m_id (n_mgr ?a)) [6]) = Some raw' \<longrightarrow>
      passes demo_crypto demo_chat_codec demo_noise raw' (?path ! j))"
    by (rule chat_crosses_the_network [OF demo_chat_codec_sel(4) demo_linked_inv _ _ _ _ _ _ demo_path,
          where hub' = "(NewHub ''n'')\<lparr>remoteSend := Some []\<rparr>"])
      (use demo_sendable chat demo_chat_codec_sel(2) demo_stations hops in
        \<open>simp_all add: remote_recv_def NewHub_def range_order_def\<close>)
  note all = this
  have "passes demo_crypto demo_chat_codec demo_noise [8] (?path ! 0)"
    by (rule all [THEN conjunct2, THEN conjunct2, unfolded hops, rule_format, of 0 "[8]"])
      (simp_all add: demo_chat_codec_sel(3) demo_stations(7))
  with all show ?thesis by (simp add: hubs st_after_def)
qed

end
